(* ===== verification/Prelude.thy ===== *)
theory Prelude
  imports Main "HOL-Library.AList" "HOL-Library.Word"
begin

text \<open>
  What every component of the development shares.

  A Python dict keeps its keys in insertion order and each key at most once. It is an
  association list here: \<open>d[k] = v\<close> is \<open>AList.update\<close> (it overwrites in place or appends),
  \<open>d.pop(k, None)\<close> is \<open>AList.delete\<close>, \<open>d.get(k)\<close> is \<open>map_of\<close>, and the invariant that the keys
  are distinct is \<open>dict_ok\<close>. The locale \<open>keyed_store\<close> is the contract that the registry, the
  session store, the payload table and the result cache keep; its client lemmas are proved
  once here.

  An exception is the left side of a sum: \<open>Inl e\<close> stops a computation, \<open>Inr x\<close> continues it.
  \<open>enumerate_map\<close> is the loop \<open>for index, value in enumerate(xs): out.append(f(index, value))\<close>
  in which \<open>f\<close> may raise.
\<close>

named_theorems dict_simps \<open>lookups after an update or a deletion of a dict\<close>

type_synonym bytes = "8 word list"
type_synonym ('k, 'v) dict = "('k \<times> 'v) list"

abbreviation dict_get :: "('k, 'v) dict \<Rightarrow> 'k \<Rightarrow> 'v option" where
  "dict_get d k \<equiv> map_of d k"

abbreviation dict_set :: "'k \<Rightarrow> 'v \<Rightarrow> ('k, 'v) dict \<Rightarrow> ('k, 'v) dict" where
  "dict_set k v d \<equiv> AList.update k v d"

abbreviation dict_pop :: "'k \<Rightarrow> ('k, 'v) dict \<Rightarrow> ('k, 'v) dict" where
  "dict_pop k d \<equiv> AList.delete k d"

abbreviation dict_keys :: "('k, 'v) dict \<Rightarrow> 'k list" where
  "dict_keys d \<equiv> map fst d"

abbreviation dict_values :: "('k, 'v) dict \<Rightarrow> 'v list" where
  "dict_values d \<equiv> map snd d"

definition dict_ok :: "('k, 'v) dict \<Rightarrow> bool" where
  "dict_ok d = distinct (map fst d)"

lemma dict_ok_Nil [simp]: "dict_ok []"
  by (simp add: dict_ok_def)

lemma dict_ok_set [simp, intro]: "dict_ok d \<Longrightarrow> dict_ok (dict_set k v d)"
  unfolding dict_ok_def by (rule distinct_update)

lemma dict_ok_pop [simp, intro]: "dict_ok d \<Longrightarrow> dict_ok (dict_pop k d)"
  unfolding dict_ok_def by (rule distinct_delete)

lemma dict_get_set [dict_simps, simp]:
  "dict_get (dict_set k v d) j = (if j = k then Some v else dict_get d j)"
  by (simp add: update_conv)

lemma dict_get_pop [dict_simps, simp]:
  "dict_get (dict_pop k d) j = (if j = k then None else dict_get d j)"
  by (simp add: delete_conv')

lemma dict_set_fresh: "dict_get d k = None \<Longrightarrow> dict_set k v d = d @ [(k, v)]"
  by (induction d) (auto split: if_splits)

lemma set_dict_set: "dict_ok d \<Longrightarrow> set (dict_set k v d) = insert (k, v) {x \<in> set d. fst x \<noteq> k}"
  by (induction d) (auto simp: dict_ok_def rev_image_eqI split: if_splits)

lemma set_dict_pop: "set (dict_pop k d) = {x \<in> set d. fst x \<noteq> k}"
  by (induction d) auto

lemma dict_set_keys:
  "dict_keys (dict_set k v d) = (if k \<in> set (dict_keys d) then dict_keys d else dict_keys d @ [k])"
  by (induction d) auto

lemma dict_pop_notin: "dict_get d k = None \<Longrightarrow> dict_pop k d = d"
  by (simp add: delete_idem map_of_eq_None_iff)

lemma dict_get_values: "dict_get d k = Some v \<Longrightarrow> v \<in> set (dict_values d)"
  by (force dest: map_of_SomeD)

lemma dict_values_get: "dict_ok d \<Longrightarrow> v \<in> set (dict_values d) \<Longrightarrow> \<exists>k. dict_get d k = Some v"
  by (auto simp: dict_ok_def)

lemma dict_get_iff: "dict_ok d \<Longrightarrow> dict_get d k = Some v \<longleftrightarrow> (k, v) \<in> set d"
  by (simp add: dict_ok_def)

lemma dict_set_same: "dict_get d k = Some v \<Longrightarrow> dict_set k v d = d"
  by (induction d) (auto split: if_splits)

text \<open>A comprehension \<open>{key(x): value(x) for x in xs}\<close>: later elements overwrite earlier ones.\<close>

definition dict_of :: "('a \<Rightarrow> 'k) \<Rightarrow> ('a \<Rightarrow> 'v) \<Rightarrow> 'a list \<Rightarrow> ('k, 'v) dict" where
  "dict_of key val xs = foldl (\<lambda>d x. dict_set (key x) (val x) d) [] xs"

lemma dict_of_foldl_get:
  "dict_get (foldl (\<lambda>d x. dict_set (key x) (val x) d) d xs) k =
     (case dict_get (rev (map (\<lambda>x. (key x, val x)) xs)) k of
        None \<Rightarrow> dict_get d k | Some v \<Rightarrow> Some v)"
  by (induction xs arbitrary: d) (auto split: option.splits simp: map_add_def)

lemma dict_of_get:
  "dict_get (dict_of key val xs) k = dict_get (rev (map (\<lambda>x. (key x, val x)) xs)) k"
  by (simp add: dict_of_def dict_of_foldl_get split: option.splits)

lemma dict_of_get_distinct:
  assumes "distinct (map key xs)"
  shows "dict_get (dict_of key val xs) k = dict_get (map (\<lambda>x. (key x, val x)) xs) k"
proof -
  have "distinct (map fst (map (\<lambda>x. (key x, val x)) xs))"
    using assms by (simp add: comp_def)
  then have "map_of (rev (map (\<lambda>x. (key x, val x)) xs)) = map_of (map (\<lambda>x. (key x, val x)) xs)"
    by (subst map_of_inject_set) (simp_all add: rev_map [symmetric])
  then show ?thesis
    by (simp add: dict_of_get)
qed

lemma dict_of_dom: "(\<exists>v. dict_get (dict_of key val xs) k = Some v) \<longleftrightarrow> k \<in> key ` set xs"
proof -
  have "(\<exists>v. dict_get (dict_of key val xs) k = Some v) \<longleftrightarrow>
      k \<in> fst ` set (rev (map (\<lambda>x. (key x, val x)) xs))"
    unfolding dict_of_get by (metis map_of_eq_None_iff not_Some_eq)
  then show ?thesis by (auto simp: image_iff)
qed

lemma dict_of_get_in:
  "dict_get (dict_of key val xs) k = Some v \<Longrightarrow> \<exists>x \<in> set xs. key x = k \<and> val x = v"
  unfolding dict_of_get by (auto dest!: map_of_SomeD)

lemma dict_of_get_elem:
  assumes "distinct (map key xs)" and "x \<in> set xs"
  shows "dict_get (dict_of key val xs) (key x) = Some (val x)"
proof -
  have "distinct (map fst (map (\<lambda>x. (key x, val x)) xs))"
    using assms(1) by (simp add: comp_def)
  then show ?thesis
    using assms by (auto simp: dict_of_get_distinct intro!: map_of_is_SomeI)
qed

lemma dict_of_ok [simp]: "dict_ok (dict_of key val xs)"
proof -
  have "dict_ok d \<Longrightarrow> dict_ok (foldl (\<lambda>d x. dict_set (key x) (val x) d) d xs)" for d
    by (induction xs arbitrary: d) auto
  then show ?thesis by (simp add: dict_of_def)
qed

section \<open>Computations that may raise\<close>

definition ebind :: "'e + 'a \<Rightarrow> ('a \<Rightarrow> 'e + 'b) \<Rightarrow> 'e + 'b" where
  "ebind m f = (case m of Inl e \<Rightarrow> Inl e | Inr x \<Rightarrow> f x)"

lemma ebind_simps [simp]: "ebind (Inl e) f = Inl e" "ebind (Inr x) f = f x"
  by (simp_all add: ebind_def)

lemma ebind_Inr: "ebind m f = Inr y \<longleftrightarrow> (\<exists>x. m = Inr x \<and> f x = Inr y)"
  by (cases m) auto

fun enumerate_map :: "(nat \<Rightarrow> 'a \<Rightarrow> 'e + 'b) \<Rightarrow> nat \<Rightarrow> 'a list \<Rightarrow> 'e + 'b list" where
  "enumerate_map f i [] = Inr []"
| "enumerate_map f i (x # xs) =
     ebind (f i x) (\<lambda>y. ebind (enumerate_map f (Suc i) xs) (\<lambda>ys. Inr (y # ys)))"

lemma enumerate_map_Inr:
  "(\<And>j x. x \<in> set xs \<Longrightarrow> f j x = Inr (g x)) \<Longrightarrow> enumerate_map f i xs = Inr (map g xs)"
  by (induction xs arbitrary: i) auto

lemma enumerate_map_length: "enumerate_map f i xs = Inr ys \<Longrightarrow> length ys = length xs"
  by (induction xs arbitrary: i ys) (auto simp: ebind_Inr)

lemma enumerate_map_cong [fundef_cong]:
  "xs = ys \<Longrightarrow> i = j \<Longrightarrow> (\<And>k x. x \<in> set ys \<Longrightarrow> f k x = g k x) \<Longrightarrow>
     enumerate_map f i xs = enumerate_map g j ys"
  by (induction xs arbitrary: ys i j) auto

section \<open>The contract of a keyed store\<close>

locale keyed_store =
  fixes lookup :: "'s \<Rightarrow> 'k \<Rightarrow> 'v option"
    and store :: "'k \<Rightarrow> 'v \<Rightarrow> 's \<Rightarrow> 's"
    and wf :: "'s \<Rightarrow> bool"
  assumes lookup_store: "wf s \<Longrightarrow> lookup (store k v s) j = (if j = k then Some v else lookup s j)"
    and wf_store: "wf s \<Longrightarrow> wf (store k v s)"
begin

lemma lookup_store_same: "wf s \<Longrightarrow> lookup (store k v s) k = Some v"
  by (simp add: lookup_store)

lemma lookup_store_other: "wf s \<Longrightarrow> j \<noteq> k \<Longrightarrow> lookup (store k v s) j = lookup s j"
  by (simp add: lookup_store)

lemma wf_store_all: "wf s \<Longrightarrow> wf (fold (\<lambda>(k, v). store k v) kvs s)"
  by (induction kvs arbitrary: s) (auto intro: wf_store)

lemma lookup_store_all:
  "wf s \<Longrightarrow> lookup (fold (\<lambda>(k, v). store k v) kvs s) j =
     (case map_of (rev kvs) j of None \<Rightarrow> lookup s j | Some v \<Rightarrow> Some v)"
  by (induction kvs arbitrary: s)
    (auto simp: lookup_store wf_store map_add_def split: option.splits)

lemma store_keeps_all:
  assumes "wf s" and "\<And>j u. lookup s j = Some u \<Longrightarrow> P j u" and "P k v"
    and "lookup (store k v s) j = Some u"
  shows "P j u"
  using assms by (auto simp: lookup_store split: if_splits)

end

locale keyed_store_del = keyed_store lookup store wf
  for lookup :: "'s \<Rightarrow> 'k \<Rightarrow> 'v option" and store :: "'k \<Rightarrow> 'v \<Rightarrow> 's \<Rightarrow> 's" and wf :: "'s \<Rightarrow> bool" +
  fixes remove :: "'k \<Rightarrow> 's \<Rightarrow> 's"
  assumes lookup_remove: "wf s \<Longrightarrow> lookup (remove k s) j = (if j = k then None else lookup s j)"
    and wf_remove: "wf s \<Longrightarrow> wf (remove k s)"
begin

lemma lookup_remove_store:
  "wf s \<Longrightarrow> lookup s k = None \<Longrightarrow> lookup (remove k (store k v s)) j = lookup s j"
  by (simp add: lookup_remove lookup_store wf_store)

lemma lookup_remove_all:
  "wf s \<Longrightarrow> lookup (fold remove ks s) j = (if j \<in> set ks then None else lookup s j)"
  by (induction ks arbitrary: s) (auto simp: lookup_remove wf_remove)

lemma wf_remove_all: "wf s \<Longrightarrow> wf (fold remove ks s)"
  by (induction ks arbitrary: s) (auto intro: wf_remove)

end

interpretation py_dict: keyed_store_del
  "dict_get :: ('k, 'v) dict \<Rightarrow> 'k \<Rightarrow> 'v option" dict_set dict_ok dict_pop
  by unfold_locales auto

end
