(* ===== verification/Json.thy ===== *)
theory Json
  imports Prelude "HOL-Library.Char_ord" "HOL-Library.List_Lexorder" "HOL-Library.Multiset"
begin

text \<open>
  JSON values and Python's \<open>json.dumps\<close> and \<open>json.loads\<close>, as far as the server uses them: the
  cache key (\<open>sort_keys=True\<close>, separators \<open>(",", ":")\<close>), the SSE frames (separators
  \<open>(",", ":")\<close>) and the worker protocol (default separators \<open>(", ", ": ")\<close>).

  The text of a document, and every Python \<open>str\<close> inside it, is the \<open>string\<close> of its UTF-8 encoding:
  an ASCII text is itself, and any other code point is two to four characters. \<open>utf8\<close> encodes a
  code point and \<open>code_points\<close> decodes a text; a byte that no UTF-8 text has there counts as the
  lone surrogate that Python's \<open>surrogateescape\<close> puts for it, so that both are total and
  \<open>utf8_code_points\<close> holds for every \<open>string\<close>. \<open>dumps\<close> escapes as \<open>ensure_ascii=True\<close> does, and
  \<open>loads\<close> reads every \<open>\u\<close> escape and joins surrogate pairs. An \<open>int\<close> is unbounded. A \<open>float\<close> is held as the text \<open>float.__repr__\<close> prints for it; reading a literal
  applies the parameter \<open>fc\<close>, the map from a literal to the \<open>repr\<close> of its value, which fixes
  every text that \<open>repr\<close> prints.

  The parser has fuel; \<open>parse_value_stable\<close> says that \<open>2 * length s + 1\<close> always suffices, so
  that \<open>loads\<close> returns \<open>None\<close> only on a text that is not JSON. The round trip
  \<open>loads_dumps\<close> is what the injectivity of cache keys and the transparency of the worker
  protocol rest on.
\<close>

datatype json =
    JNull
  | JBool bool
  | JInt int
  | JFloat string
  | JStr string
  | JArr "json list"
  | JObj "(string \<times> json) list"

abbreviation "quot_char \<equiv> CHR 0x22"
abbreviation "bslash_char \<equiv> CHR 0x5C"

section \<open>Printing\<close>

definition digit_char :: "nat \<Rightarrow> char" where
  "digit_char n = char_of (48 + n)"

fun show_nat :: "nat \<Rightarrow> string" where
  "show_nat n = (if n < 10 then [digit_char n] else show_nat (n div 10) @ [digit_char (n mod 10)])"

declare show_nat.simps [simp del]

definition show_int :: "int \<Rightarrow> string" where
  "show_int i = (if i < 0 then CHR ''-'' # show_nat (nat (- i)) else show_nat (nat i))"

definition hex_char :: "nat \<Rightarrow> char" where
  "hex_char n = char_of (if n < 10 then 48 + n else 87 + n)"

text \<open>
  UTF-8. The second branch of \<open>utf8\<close> is \<open>surrogateescape\<close>. \<open>next_point\<close> decodes the code point at the
  head of a text that is not empty: a sequence of two, three or four bytes counts when it is the
  encoding of a code point that is no surrogate, which excludes overlong forms.
\<close>

definition utf8 :: "nat \<Rightarrow> string" where
  "utf8 n =
     (if n < 0x80 then [char_of n]
      else if 0xDC80 \<le> n \<and> n < 0xDD00 then [char_of (n - 0xDC00)]
      else if n < 0x800 then [char_of (0xC0 + n div 64), char_of (0x80 + n mod 64)]
      else if n < 0x10000
        then [char_of (0xE0 + n div 4096), char_of (0x80 + n div 64 mod 64), char_of (0x80 + n mod 64)]
      else [char_of (0xF0 + n div 262144), char_of (0x80 + n div 4096 mod 64),
            char_of (0x80 + n div 64 mod 64), char_of (0x80 + n mod 64)])"

definition surrogate :: "nat \<Rightarrow> bool" where
  "surrogate n \<longleftrightarrow> 0xD800 \<le> n \<and> n < 0xE000"

definition tail_bits :: "nat \<Rightarrow> string \<Rightarrow> nat" where
  "tail_bits = foldl (\<lambda>acc c. acc * 64 + of_char c mod 64)"

definition encodes :: "nat \<Rightarrow> string \<Rightarrow> bool" where
  "encodes n s \<longleftrightarrow> n < 0x110000 \<and> \<not> surrogate n \<and> take (length (utf8 n)) s = utf8 n"

definition next_point :: "char \<Rightarrow> string \<Rightarrow> nat" where
  "next_point c cs = (let b = (of_char c :: nat); n2 = tail_bits (b mod 32) (take 1 cs);
       n3 = tail_bits (b mod 16) (take 2 cs); n4 = tail_bits (b mod 8) (take 3 cs) in
     if b < 0x80 then b
     else if encodes n2 (c # cs) then n2
     else if encodes n3 (c # cs) then n3
     else if encodes n4 (c # cs) then n4
     else 0xDC00 + b)"

lemma utf8_length: "0 < length (utf8 n)"
  by (simp add: utf8_def)

function code_points :: "string \<Rightarrow> nat list" where
  "code_points [] = []"
| "code_points (c # cs) = (let n = next_point c cs in n # code_points (drop (length (utf8 n) - 1) cs))"
  by pat_completeness simp_all

termination by (relation "measure length") (simp_all add: le_imp_less_Suc)

text \<open>Printing escapes every code point that is not printable ASCII, those above \<open>0xFFFF\<close> as a pair.\<close>

definition hex_escape :: "nat \<Rightarrow> string" where
  "hex_escape n = [bslash_char, CHR ''u'', hex_char (n div 4096), hex_char (n div 256 mod 16),
     hex_char (n div 16 mod 16), hex_char (n mod 16)]"

definition escape_point :: "nat \<Rightarrow> string" where
  "escape_point n =
     (if n = 0x22 then [bslash_char, quot_char]
      else if n = 0x5C then [bslash_char, bslash_char]
      else if n = 0x0A then [bslash_char, CHR ''n'']
      else if n = 0x0D then [bslash_char, CHR ''r'']
      else if n = 0x09 then [bslash_char, CHR ''t'']
      else if n = 0x0C then [bslash_char, CHR ''f'']
      else if n = 0x08 then [bslash_char, CHR ''b'']
      else if 32 \<le> n \<and> n \<le> 126 then [char_of n]
      else if n < 0x10000 then hex_escape n
      else hex_escape (0xD800 + (n - 0x10000) div 1024) @ hex_escape (0xDC00 + (n - 0x10000) mod 1024))"

definition escape_text :: "string \<Rightarrow> string" where
  "escape_text s = concat (map escape_point (code_points s))"

definition dump_string :: "string \<Rightarrow> string" where
  "dump_string s = quot_char # escape_text s @ [quot_char]"

fun sep_concat :: "string \<Rightarrow> string list \<Rightarrow> string" where
  "sep_concat sep [] = []"
| "sep_concat sep [x] = x"
| "sep_concat sep (x # xs) = x @ sep @ sep_concat sep xs"

fun dumps :: "string \<Rightarrow> string \<Rightarrow> json \<Rightarrow> string" where
  "dumps isep ksep JNull = ''null''"
| "dumps isep ksep (JBool b) = (if b then ''true'' else ''false'')"
| "dumps isep ksep (JInt i) = show_int i"
| "dumps isep ksep (JFloat t) = t"
| "dumps isep ksep (JStr s) = dump_string s"
| "dumps isep ksep (JArr vs) = ''['' @ sep_concat isep (map (dumps isep ksep) vs) @ '']''"
| "dumps isep ksep (JObj kvs) =
     ''{'' @ sep_concat isep (map (\<lambda>(k, v). dump_string k @ ksep @ dumps isep ksep v) kvs) @ ''}''"

text \<open>\<open>sort_keys=True\<close>: every object's items are sorted by key before printing.\<close>

fun jsort :: "json \<Rightarrow> json" where
  "jsort (JArr vs) = JArr (map jsort vs)"
| "jsort (JObj kvs) = JObj (sort_key fst (map (\<lambda>(k, v). (k, jsort v)) kvs))"
| "jsort v = v"

section \<open>Reading\<close>

definition is_ws :: "char \<Rightarrow> bool" where
  "is_ws c \<longleftrightarrow> c = CHR '' '' \<or> c = CHR 0x09 \<or> c = CHR 0x0A \<or> c = CHR 0x0D"

definition skip_ws :: "string \<Rightarrow> string" where
  "skip_ws s = dropWhile is_ws s"

definition is_digit :: "char \<Rightarrow> bool" where
  "is_digit c \<longleftrightarrow> 48 \<le> (of_char c :: nat) \<and> (of_char c :: nat) \<le> 57"

definition digit_val :: "char \<Rightarrow> nat" where
  "digit_val c = of_char c - 48"

definition hex_val :: "char \<Rightarrow> nat option" where
  "hex_val c = (let n = (of_char c :: nat) in
     if 48 \<le> n \<and> n \<le> 57 then Some (n - 48)
     else if 97 \<le> n \<and> n \<le> 102 then Some (n - 87)
     else if 65 \<le> n \<and> n \<le> 70 then Some (n - 55)
     else None)"

definition unescape :: "char \<Rightarrow> char option" where
  "unescape e =
     (if e = quot_char \<or> e = bslash_char \<or> e = CHR ''/'' then Some e
      else if e = CHR ''n'' then Some (CHR 0x0A)
      else if e = CHR ''r'' then Some (CHR 0x0D)
      else if e = CHR ''t'' then Some (CHR 0x09)
      else if e = CHR ''f'' then Some (CHR 0x0C)
      else if e = CHR ''b'' then Some (CHR 0x08)
      else None)"

definition hex4 :: "char \<Rightarrow> char \<Rightarrow> char \<Rightarrow> char \<Rightarrow> nat option" where
  "hex4 a b c d = (case (hex_val a, hex_val b, hex_val c, hex_val d) of
     (Some i, Some j, Some k, Some l) \<Rightarrow> Some (((i * 16 + j) * 16 + k) * 16 + l) | _ \<Rightarrow> None)"

definition hex_digits :: "string \<Rightarrow> (nat \<times> string) option" where
  "hex_digits s = (case s of
     a # b # c # d # r \<Rightarrow> map_option (\<lambda>n. (n, r)) (hex4 a b c d)
   | _ \<Rightarrow> None)"

text \<open>What follows \<open>\u\<close>: four digits, and the second half of a surrogate pair when there is one.\<close>

definition low_half :: "string \<Rightarrow> (nat \<times> string) option" where
  "low_half s = (case s of
     a # b # r \<Rightarrow>
       (if a = bslash_char \<and> b = CHR ''u'' then
          (case hex_digits r of
             None \<Rightarrow> None
           | Some (m, r') \<Rightarrow> (if 0xDC00 \<le> m \<and> m < 0xE000 then Some (m, r') else None))
        else None)
   | _ \<Rightarrow> None)"

definition unicode_escape :: "string \<Rightarrow> (nat \<times> string) option" where
  "unicode_escape s = (case hex_digits s of
     None \<Rightarrow> None
   | Some (n, r) \<Rightarrow>
       (if 0xD800 \<le> n \<and> n < 0xDC00 then
          (case low_half r of
             None \<Rightarrow> Some (n, r)
           | Some (m, r') \<Rightarrow> Some (0x10000 + (n - 0xD800) * 1024 + (m - 0xDC00), r'))
        else Some (n, r)))"

lemma hex_digits_shorter: "hex_digits s = Some (n, r) \<Longrightarrow> length r < length s"
  by (auto simp: hex_digits_def split: list.splits)

lemma unicode_escape_shorter: "unicode_escape s = Some (n, r) \<Longrightarrow> length r < length s"
  by (auto simp: unicode_escape_def low_half_def dest!: hex_digits_shorter split: option.splits if_splits list.splits)

function (sequential) parse_string :: "string \<Rightarrow> (string \<times> string) option" where
  "parse_string [] = None"
| "parse_string (c # cs) =
     (if c = quot_char then Some ([], cs)
      else if c = bslash_char then
        (case cs of
           [] \<Rightarrow> None
         | e # r \<Rightarrow>
             (if e = CHR ''u'' then
                (case unicode_escape r of
                   None \<Rightarrow> None
                 | Some (n, r') \<Rightarrow> map_option (\<lambda>(t, z). (utf8 n @ t, z)) (parse_string r'))
              else
                (case unescape e of
                   None \<Rightarrow> None
                 | Some u \<Rightarrow> map_option (\<lambda>(t, z). (u # t, z)) (parse_string r))))
      else if (of_char c :: nat) < 32 then None
      else map_option (\<lambda>(t, z). (c # t, z)) (parse_string cs))"
  by pat_completeness auto

termination by (relation "measure length") (auto dest: unicode_escape_shorter)

text \<open>
  The number pattern of the \<open>json\<close> scanner,
  \<^verbatim>\<open>(-?(?:0|[1-9][0-9]*))(\.[0-9]+)?([eE][-+]?[0-9]+)?\<close>, as three scans; each returns the matched
  text and the rest.
\<close>

definition scan_nat :: "string \<Rightarrow> (string \<times> string) option" where
  "scan_nat s = (case s of
     [] \<Rightarrow> None
   | c # cs \<Rightarrow>
       (if c = CHR ''0'' then Some (''0'', cs)
        else if is_digit c then Some (takeWhile is_digit s, dropWhile is_digit s)
        else None))"

definition scan_int :: "string \<Rightarrow> (string \<times> string) option" where
  "scan_int s = (case s of
     [] \<Rightarrow> None
   | c # cs \<Rightarrow>
       (if c = CHR ''-'' then map_option (\<lambda>(i, r). (c # i, r)) (scan_nat cs) else scan_nat s))"

definition scan_frac :: "string \<Rightarrow> string \<times> string" where
  "scan_frac s = (case s of
     c # d # cs \<Rightarrow>
       (if c = CHR ''.'' \<and> is_digit d
        then (c # takeWhile is_digit (d # cs), dropWhile is_digit (d # cs)) else ([], s))
   | _ \<Rightarrow> ([], s))"

definition scan_sign :: "string \<Rightarrow> string \<times> string" where
  "scan_sign s = (case s of
     [] \<Rightarrow> ([], [])
   | c # cs \<Rightarrow> (if c = CHR ''+'' \<or> c = CHR ''-'' then ([c], cs) else ([], s)))"

definition scan_exp :: "string \<Rightarrow> string \<times> string" where
  "scan_exp s = (case s of
     [] \<Rightarrow> ([], s)
   | c # cs \<Rightarrow>
       (if c = CHR ''e'' \<or> c = CHR ''E'' then
          (case scan_sign cs of (sg, ds) \<Rightarrow>
             (if ds \<noteq> [] \<and> is_digit (hd ds)
              then (c # sg @ takeWhile is_digit ds, dropWhile is_digit ds) else ([], s)))
        else ([], s)))"

definition scan_number :: "string \<Rightarrow> (string \<times> string \<times> string) option" where
  "scan_number s = (case scan_int s of
     None \<Rightarrow> None
   | Some (i, r) \<Rightarrow>
       (let (f, r1) = scan_frac r; (e, r2) = scan_exp r1 in Some (i, f @ e, r2)))"

fun read_nat :: "nat \<Rightarrow> string \<Rightarrow> nat" where
  "read_nat acc [] = acc"
| "read_nat acc (c # cs) = read_nat (10 * acc + digit_val c) cs"

definition read_int :: "string \<Rightarrow> int" where
  "read_int s = (case s of
     [] \<Rightarrow> 0
   | c # cs \<Rightarrow> (if c = CHR ''-'' then - int (read_nat 0 cs) else int (read_nat 0 s)))"

definition strip_prefix :: "string \<Rightarrow> string \<Rightarrow> string option" where
  "strip_prefix p s = (if take (length p) s = p then Some (drop (length p) s) else None)"

definition parse_number :: "(string \<Rightarrow> string) \<Rightarrow> string \<Rightarrow> (json \<times> string) option" where
  "parse_number fc s = (case scan_number s of
     Some (i, fe, r) \<Rightarrow>
       Some (if fe = [] then JInt (read_int i) else JFloat (fc (i @ fe)), r)
   | None \<Rightarrow>
       (case strip_prefix ''NaN'' s of Some r \<Rightarrow> Some (JFloat ''NaN'', r) | None \<Rightarrow>
       (case strip_prefix ''Infinity'' s of Some r \<Rightarrow> Some (JFloat ''Infinity'', r) | None \<Rightarrow>
       (case strip_prefix ''-Infinity'' s of Some r \<Rightarrow> Some (JFloat ''-Infinity'', r) | None \<Rightarrow> None))))"

definition parse_atom :: "(string \<Rightarrow> string) \<Rightarrow> string \<Rightarrow> (json \<times> string) option" where
  "parse_atom fc s =
     (case strip_prefix ''null'' s of Some r \<Rightarrow> Some (JNull, r) | None \<Rightarrow>
     (case strip_prefix ''true'' s of Some r \<Rightarrow> Some (JBool True, r) | None \<Rightarrow>
     (case strip_prefix ''false'' s of Some r \<Rightarrow> Some (JBool False, r) | None \<Rightarrow>
      parse_number fc s)))"

fun parse_value :: "(string \<Rightarrow> string) \<Rightarrow> nat \<Rightarrow> string \<Rightarrow> (json \<times> string) option"
and parse_items :: "(string \<Rightarrow> string) \<Rightarrow> nat \<Rightarrow> json list \<Rightarrow> string \<Rightarrow> (json \<times> string) option"
and parse_members ::
  "(string \<Rightarrow> string) \<Rightarrow> nat \<Rightarrow> (string \<times> json) list \<Rightarrow> string \<Rightarrow> (json \<times> string) option" where
  "parse_value fc 0 s = None"
| "parse_value fc (Suc n) s =
     (case s of
        [] \<Rightarrow> None
      | c # cs \<Rightarrow>
          (if c = quot_char then map_option (\<lambda>(t, r). (JStr t, r)) (parse_string cs)
           else if c = CHR ''{'' then
             (case skip_ws cs of
                [] \<Rightarrow> None
              | d # r \<Rightarrow> (if d = CHR ''}'' then Some (JObj [], r) else parse_members fc n [] (d # r)))
           else if c = CHR ''['' then
             (case skip_ws cs of
                [] \<Rightarrow> None
              | d # r \<Rightarrow> (if d = CHR '']'' then Some (JArr [], r) else parse_items fc n [] (d # r)))
           else parse_atom fc s))"
| "parse_items fc 0 acc s = None"
| "parse_items fc (Suc n) acc s =
     (case parse_value fc n s of
        None \<Rightarrow> None
      | Some (v, r) \<Rightarrow>
          (case skip_ws r of
             [] \<Rightarrow> None
           | c # r' \<Rightarrow>
               (if c = CHR '']'' then Some (JArr (rev (v # acc)), r')
                else if c = CHR '','' then parse_items fc n (v # acc) (skip_ws r')
                else None)))"
| "parse_members fc 0 acc s = None"
| "parse_members fc (Suc n) acc s =
     (case s of
        [] \<Rightarrow> None
      | q # cs \<Rightarrow>
          (if q = quot_char then
             (case parse_string cs of
                None \<Rightarrow> None
              | Some (k, r) \<Rightarrow>
                  (case skip_ws r of
                     [] \<Rightarrow> None
                   | c # r' \<Rightarrow>
                       (if c = CHR '':'' then
                          (case parse_value fc n (skip_ws r') of
                             None \<Rightarrow> None
                           | Some (v, r'') \<Rightarrow>
                               (case skip_ws r'' of
                                  [] \<Rightarrow> None
                                | d # z \<Rightarrow>
                                    (if d = CHR ''}''
                                     then Some (JObj (dict_of fst snd (rev ((k, v) # acc))), z)
                                     else if d = CHR '','' then parse_members fc n ((k, v) # acc) (skip_ws z)
                                     else None)))
                        else None)))
           else None))"

definition loads :: "(string \<Rightarrow> string) \<Rightarrow> string \<Rightarrow> json option" where
  "loads fc s =
     (let t = skip_ws s in
      case parse_value fc (2 * length t + 1) t of
        None \<Rightarrow> None
      | Some (v, r) \<Rightarrow> (if skip_ws r = [] then Some v else None))"

section \<open>Numbers\<close>

lemma char_eq_nat: "c = d \<longleftrightarrow> (of_char c :: nat) = of_char d"
  by (simp only: of_char_eq_iff)

lemma of_char_digit_char: "n < 10 \<Longrightarrow> (of_char (digit_char n) :: nat) = 48 + n"
  by (simp add: digit_char_def)

lemma digit_char_is_digit [simp]: "n < 10 \<Longrightarrow> is_digit (digit_char n)"
  by (simp add: is_digit_def of_char_digit_char)

lemma digit_val_digit_char [simp]: "n < 10 \<Longrightarrow> digit_val (digit_char n) = n"
  by (simp add: digit_val_def of_char_digit_char)

lemma digit_char_eq_0: "n < 10 \<Longrightarrow> digit_char n = CHR ''0'' \<longleftrightarrow> n = 0"
  by (simp add: char_eq_nat [of "digit_char n"] of_char_digit_char)

lemma show_nat_nonempty [simp]: "show_nat n \<noteq> []"
  by (subst show_nat.simps) simp

lemma show_nat_0 [simp]: "show_nat 0 = ''0''"
  by (simp add: show_nat.simps digit_char_def char_eq_nat)

lemma show_nat_digits: "\<forall>c \<in> set (show_nat n). is_digit c"
proof (induction n rule: show_nat.induct)
  case (1 n)
  then show ?case by (cases "n < 10") (auto simp: show_nat.simps [of n])
qed

lemma read_nat_append: "read_nat acc (xs @ ys) = read_nat (read_nat acc xs) ys"
  by (induction xs arbitrary: acc) auto

lemma read_show_nat [simp]: "read_nat 0 (show_nat n) = n"
proof (induction n rule: show_nat.induct)
  case (1 n)
  then show ?case by (cases "n < 10") (auto simp: show_nat.simps [of n] read_nat_append)
qed

lemma show_nat_hd: "hd (show_nat n) = CHR ''0'' \<Longrightarrow> n = 0"
proof (induction n rule: show_nat.induct)
  case (1 n)
  then show ?case
    by (cases "n < 10") (auto simp: show_nat.simps [of n] digit_char_eq_0)
qed

lemma is_digit_not: "is_digit c \<Longrightarrow> c \<noteq> CHR ''-'' \<and> c \<noteq> CHR ''.'' \<and> c \<noteq> CHR ''e'' \<and> c \<noteq> CHR ''E''"
  by (auto simp: is_digit_def)

definition num_char :: "char \<Rightarrow> bool" where
  "num_char c \<longleftrightarrow> is_digit c \<or> c = CHR ''.'' \<or> c = CHR ''e'' \<or> c = CHR ''E'' \<or>
     c = CHR ''+'' \<or> c = CHR ''-''"

definition delimited :: "string \<Rightarrow> bool" where
  "delimited r \<longleftrightarrow> (r \<noteq> [] \<longrightarrow> \<not> num_char (hd r))"

lemma delimited_takeWhile:
  "delimited r \<Longrightarrow> takeWhile is_digit (xs @ r) = takeWhile is_digit xs"
  "delimited r \<Longrightarrow> dropWhile is_digit (xs @ r) = dropWhile is_digit xs @ r"
  by (induction xs) (cases r; auto simp: delimited_def num_char_def)+

lemma scan_nat_append:
  "scan_nat s = Some (i, t) \<Longrightarrow> delimited r \<Longrightarrow> scan_nat (s @ r) = Some (i, t @ r)"
  by (cases s) (auto simp: scan_nat_def delimited_takeWhile split: if_splits)

lemma scan_int_append:
  "scan_int s = Some (i, t) \<Longrightarrow> delimited r \<Longrightarrow> scan_int (s @ r) = Some (i, t @ r)"
  using scan_nat_append [of s i t r]
  by (cases s) (auto simp: scan_int_def dest: scan_nat_append split: if_splits)

lemma scan_frac_append:
  "scan_frac s = (f, t) \<Longrightarrow> delimited r \<Longrightarrow> scan_frac (s @ r) = (f, t @ r)"
  by (cases s; cases "tl s"; cases r; cases "tl r")
    (auto simp: scan_frac_def delimited_takeWhile delimited_def num_char_def split: if_splits list.splits)

lemma scan_exp_append:
  assumes "scan_exp s = (f, t)" and r: "delimited r"
  shows "scan_exp (s @ r) = (f, t @ r)"
proof -
  have nodig: "r \<noteq> [] \<Longrightarrow> \<not> is_digit (hd r)"
    using r by (simp add: delimited_def num_char_def)
  have sg: "scan_sign (u @ r) = (case scan_sign u of (x, y) \<Rightarrow> (x, y @ r))" for u
    using r by (cases u; cases r) (auto simp: scan_sign_def delimited_def num_char_def)
  show ?thesis
  proof (cases s)
    case Nil
    then show ?thesis
      using assms by (cases r) (auto simp: scan_exp_def delimited_def num_char_def)
  next
    case (Cons c cs)
    obtain x y where xy: "scan_sign cs = (x, y)" by force
    show ?thesis
      using assms(1) Cons xy sg [of cs] nodig r
      by (cases y) (auto simp: scan_exp_def delimited_takeWhile split: if_splits)
  qed
qed

lemma scan_number_append:
  "scan_number s = Some (i, fe, t) \<Longrightarrow> delimited r \<Longrightarrow> scan_number (s @ r) = Some (i, fe, t @ r)"
  by (auto simp: scan_number_def Let_def scan_int_append scan_frac_append scan_exp_append
      split: option.splits prod.splits)

lemma scan_nat_text: "scan_nat s = Some (i, t) \<Longrightarrow> s = i @ t"
  by (cases s) (auto simp: scan_nat_def split: if_splits)

lemma scan_number_text: "scan_number s = Some (i, fe, t) \<Longrightarrow> s = i @ fe @ t"
proof -
  have 1: "scan_int s = Some (i, t) \<Longrightarrow> s = i @ t" for i t
    by (cases s) (auto simp: scan_int_def dest: scan_nat_text split: if_splits)
  have 2: "scan_frac s = (f, t) \<Longrightarrow> s = f @ t" for s f t
    by (cases s; cases "tl s") (auto simp: scan_frac_def split: if_splits list.splits)
  have sg: "scan_sign s = (f, t) \<Longrightarrow> s = f @ t" for s f t
    by (cases s) (auto simp: scan_sign_def split: if_splits)
  have 3: "scan_exp s = (f, t) \<Longrightarrow> s = f @ t" for s f t
    by (cases s) (auto simp: scan_exp_def dest: sg split: if_splits prod.splits)
  assume "scan_number s = Some (i, fe, t)"
  then show ?thesis
    by (auto simp: scan_number_def Let_def dest!: 1 2 3 split: option.splits prod.splits)
qed

lemma scan_nat_show: "scan_nat (show_nat n) = Some (show_nat n, [])"
proof (cases "n = 0")
  case True
  then show ?thesis by (simp add: scan_nat_def)
next
  case False
  obtain c cs where c: "show_nat n = c # cs" by (cases "show_nat n") auto
  have "c \<noteq> CHR ''0''" using False show_nat_hd [of n] c by auto
  then show ?thesis
    using show_nat_digits [of n] c
    by (auto simp: scan_nat_def takeWhile_eq_all_conv dropWhile_eq_Nil_conv)
qed

lemma scan_number_show:
  assumes "delimited r"
  shows "scan_number (show_int i @ r) = Some (show_int i, [], r)"
proof -
  have nm: "show_nat n = c # cs \<Longrightarrow> c \<noteq> CHR ''-''" for n c cs
    using show_nat_digits [of n] is_digit_not by force
  have "scan_int (show_int i) = Some (show_int i, [])"
    using scan_nat_show [of "nat i"] scan_nat_show [of "nat (- i)"] nm
    by (cases "show_nat (nat i)") (auto simp: show_int_def scan_int_def)
  then have "scan_number (show_int i) = Some (show_int i, [], [])"
    by (simp add: scan_number_def scan_frac_def scan_exp_def)
  from scan_number_append [OF this assms] show ?thesis by simp
qed

lemma read_show_int [simp]: "read_int (show_int i) = i"
proof -
  have "show_nat n = c # cs \<Longrightarrow> c \<noteq> CHR ''-''" for n c cs
    using show_nat_digits [of n] is_digit_not by force
  moreover have "read_nat 0 (show_nat (nat i)) = nat i" by simp
  ultimately show ?thesis
    by (cases "show_nat (nat i)") (auto simp: read_int_def show_int_def)
qed

section \<open>Strings\<close>

lemma hex_val_hex_char [simp]: "n < 16 \<Longrightarrow> hex_val (hex_char n) = Some n"
  by (simp add: hex_val_def hex_char_def Let_def)

lemma hex_val_0 [simp]: "hex_val (CHR ''0'') = Some 0"
  by (simp add: hex_val_def)

lemma tail_bits_simps [simp]: "tail_bits n [] = n" "tail_bits n (c # cs) = tail_bits (n * 64 + of_char c mod 64) cs"
  by (simp_all add: tail_bits_def)

lemma utf8_next_point: "utf8 (next_point c cs) @ drop (length (utf8 (next_point c cs)) - 1) cs = c # cs"
proof -
  have byte: "utf8 (of_char c) = [c]" if "of_char c < (0x80 :: nat)" using that by (simp add: utf8_def)
  have lone: "utf8 (0xDC00 + of_char c) = [c]" if "\<not> of_char c < (0x80 :: nat)"
    using that nat_of_char_less_256 [of c] by (simp add: utf8_def)
  have seq: "utf8 n @ drop (length (utf8 n) - 1) cs = c # cs" if "encodes n (c # cs)" for n
  proof -
    have "drop (length (utf8 n)) (c # cs) = drop (length (utf8 n) - 1) cs"
      using utf8_length [of n] by (simp add: drop_Cons')
    then show ?thesis using that append_take_drop_id [of "length (utf8 n)" "c # cs"] by (simp add: encodes_def)
  qed
  show ?thesis unfolding next_point_def Let_def
    by (simp only: split: if_split) (simp add: byte lone seq [unfolded One_nat_def])
qed

lemma utf8_code_points: "concat (map utf8 (code_points s)) = s"
proof (induction s rule: code_points.induct)
  case (2 c cs)
  then show ?case using utf8_next_point [of c cs] by (simp add: Let_def)
qed simp

text \<open>Decoding gives code points, and no surrogate but those of \<open>surrogateescape\<close>.\<close>

definition plain_point :: "nat \<Rightarrow> bool" where
  "plain_point n \<longleftrightarrow> n < 0x110000 \<and> (surrogate n \<longrightarrow> 0xDC80 \<le> n \<and> n < 0xDD00)"

lemma plain_next_point: "plain_point (next_point c cs)"
proof -
  have "plain_point (of_char c)" "\<not> of_char c < (0x80 :: nat) \<Longrightarrow> plain_point (0xDC00 + of_char c)"
    unfolding plain_point_def surrogate_def using nat_of_char_less_256 [of c] by linarith+
  moreover have "encodes n s \<Longrightarrow> plain_point n" for n s by (simp add: plain_point_def encodes_def)
  ultimately show ?thesis unfolding next_point_def Let_def by (simp only: split: if_split) blast
qed

lemma pair_halves:
  assumes "plain_point n" and "\<not> n < 0x10000"
  shows "(n - 0x10000) div 1024 < 1024" and "0x10000 + (n - 0x10000) div 1024 * 1024 + (n - 0x10000) mod 1024 = n"
proof -
  have "n - 0x10000 < 1024 * 1024" using assms unfolding plain_point_def by linarith
  then show "(n - 0x10000) div 1024 < 1024" by (rule less_mult_imp_div_less)
  show "0x10000 + (n - 0x10000) div 1024 * 1024 + (n - 0x10000) mod 1024 = n" using assms(2) by presburger
qed

lemma plain_code_points: "n \<in> set (code_points s) \<Longrightarrow> plain_point n"
  by (induction s rule: code_points.induct) (auto simp: Let_def plain_next_point)

lemma hex_digits_hex:
  assumes "n < 0x10000"
  shows "hex_digits (hex_char (n div 4096) # hex_char (n div 256 mod 16) # hex_char (n div 16 mod 16) #
    hex_char (n mod 16) # s) = Some (n, s)"
proof -
  have "n div 4096 < 16" using assms by (simp add: less_mult_imp_div_less)
  moreover have "((n div 4096 * 16 + n div 256 mod 16) * 16 + n div 16 mod 16) * 16 + n mod 16 = n"
    using div_mult_mod_eq [of "n div 256" 16] div_mult_mod_eq [of "n div 16" 16] div_mult_mod_eq [of n 16]
    by (simp add: div_mult2_eq [symmetric])
  ultimately show ?thesis by (simp add: hex_digits_def hex4_def)
qed

lemma parse_hex_escape:
  assumes "n < 0x10000" and "\<not> (0xD800 \<le> n \<and> n < 0xDC00)"
  shows "parse_string (hex_escape n @ s) = map_option (\<lambda>(t, z). (utf8 n @ t, z)) (parse_string s)"
  using assms by (auto simp: hex_escape_def unicode_escape_def hex_digits_hex)

lemma parse_hex_pair:
  assumes "n < 1024" and "m < 1024"
  shows "parse_string (hex_escape (0xD800 + n) @ hex_escape (0xDC00 + m) @ s) =
    map_option (\<lambda>(t, z). (utf8 (0x10000 + n * 1024 + m) @ t, z)) (parse_string s)"
proof -
  have l: "low_half (hex_escape (0xDC00 + m) @ s) = Some (0xDC00 + m, s)"
    using assms hex_digits_hex [of "0xDC00 + m" s] by (simp add: hex_escape_def low_half_def)
  have h: "hex_digits (drop 2 (hex_escape (0xD800 + n)) @ r) = Some (0xD800 + n, r)" for r
    using assms hex_digits_hex [of "0xD800 + n" r] by (simp add: hex_escape_def)
  have e: "hex_escape k = bslash_char # CHR ''u'' # drop 2 (hex_escape k)" for k by (simp add: hex_escape_def)
  show ?thesis
    using assms by (subst e) (simp add: unicode_escape_def h l)
qed

lemma parse_escape_point:
  assumes "plain_point n"
  shows "parse_string (escape_point n @ s) = map_option (\<lambda>(t, z). (utf8 n @ t, z)) (parse_string s)"
proof (cases "n < 0x10000")
  case True
  then have "parse_string (hex_escape n @ s) = map_option (\<lambda>(t, z). (utf8 n @ t, z)) (parse_string s)"
    using assms by (intro parse_hex_escape) (auto simp: plain_point_def surrogate_def)
  moreover have "char_of (0x22 :: nat) = quot_char" "char_of (0x5C :: nat) = bslash_char" "char_of (0x0A :: nat) = CHR 0x0A"
    "char_of (0x0D :: nat) = CHR 0x0D" "char_of (0x09 :: nat) = CHR 0x09" "char_of (0x0C :: nat) = CHR 0x0C"
    "char_of (0x08 :: nat) = CHR 0x08"
    by (simp_all add: char_eq_nat)
  moreover have "char_of n \<noteq> quot_char" "char_of n \<noteq> bslash_char" if "n \<noteq> 0x22" "n \<noteq> 0x5C" "n \<le> 126"
    using that by (simp_all add: char_eq_nat)
  ultimately show ?thesis
    using True by (auto simp: escape_point_def unescape_def utf8_def)
next
  case False
  then show ?thesis
    using pair_halves [OF assms False] parse_hex_pair [of "(n - 0x10000) div 1024" "(n - 0x10000) mod 1024" s] by (simp add: escape_point_def)
qed

lemma parse_points:
  "\<forall>n \<in> set ns. plain_point n \<Longrightarrow>
    parse_string (concat (map escape_point ns) @ quot_char # r) = Some (concat (map utf8 ns), r)"
  by (induction ns) (simp_all add: parse_escape_point del: parse_string.simps(2), simp add: parse_string.simps(2))

lemma parse_dump_string_aux:
  "parse_string (escape_text s @ quot_char # r) = Some (s, r)"
  using parse_points [of "code_points s" r] plain_code_points by (simp add: escape_text_def utf8_code_points)

text \<open>For the evaluation of examples: an ASCII character is escaped without being decoded.\<close>

definition ascii_escape :: "char \<Rightarrow> string" where
  "ascii_escape c =
     (if c = quot_char then [bslash_char, quot_char]
      else if c = bslash_char then [bslash_char, bslash_char]
      else if 32 \<le> (of_char c :: nat) \<and> (of_char c :: nat) \<le> 126 then [c]
      else escape_point (of_char c))"

lemma escape_ascii: "escape_point (of_char c) = ascii_escape c"
proof -
  have "c = quot_char \<longleftrightarrow> of_char c = (0x22 :: nat)" "c = bslash_char \<longleftrightarrow> of_char c = (0x5C :: nat)"
    by (simp_all add: char_eq_nat)
  then show ?thesis by (auto simp: ascii_escape_def escape_point_def)
qed

lemma escape_text_code [code]:
  "escape_text [] = []"
  "escape_text (c # cs) =
     (if (of_char c :: nat) < 0x80 then ascii_escape c @ escape_text cs
      else (let n = next_point c cs in escape_point n @ escape_text (drop (length (utf8 n) - 1) cs)))"
proof -
  have "next_point c cs = of_char c" "length (utf8 (of_char c)) = 1" if "(of_char c :: nat) < 0x80"
    using that by (simp_all add: next_point_def utf8_def)
  then show "escape_text (c # cs) =
     (if (of_char c :: nat) < 0x80 then ascii_escape c @ escape_text cs
      else (let n = next_point c cs in escape_point n @ escape_text (drop (length (utf8 n) - 1) cs)))"
    by (simp add: escape_text_def Let_def escape_ascii)
qed (simp add: escape_text_def)

section \<open>The parser consumes its input, and its fuel is enough\<close>

lemma parse_string_shorter: "parse_string s = Some (t, r) \<Longrightarrow> length r < length s"
proof (induction s arbitrary: t r rule: parse_string.induct)
  case 1
  then show ?case by simp
next
  case (2 c cs)
  then show ?case
    by (auto dest!: unicode_escape_shorter split: if_splits list.splits option.splits prod.splits; force)
qed

lemma skip_ws_length: "length (skip_ws s) \<le> length s"
  by (simp add: skip_ws_def length_dropWhile_le)

lemma skip_ws_Cons_length: "skip_ws s = c # r \<Longrightarrow> length r < length s"
  using skip_ws_length [of s] by simp

lemma strip_prefix_length: "strip_prefix p s = Some r \<Longrightarrow> length s = length p + length r"
proof -
  assume "strip_prefix p s = Some r"
  then have "take (length p) s = p" "r = drop (length p) s"
    by (auto simp: strip_prefix_def split: if_splits)
  then show ?thesis by (metis append_take_drop_id length_append)
qed

lemma scan_number_shorter: "scan_number s = Some (i, fe, r) \<Longrightarrow> length r < length s"
proof -
  assume a: "scan_number s = Some (i, fe, r)"
  have "scan_nat u = Some (i, t) \<Longrightarrow> i \<noteq> []" for u i t
    by (cases u) (auto simp: scan_nat_def split: if_splits)
  then have "i \<noteq> []"
    using a by (cases s) (auto simp: scan_number_def scan_int_def Let_def split: if_splits option.splits prod.splits)
  then show ?thesis using scan_number_text [OF a] by simp
qed

lemma parse_atom_shorter: "parse_atom fc s = Some (v, r) \<Longrightarrow> length r < length s"
  by (auto simp: parse_atom_def parse_number_def dest!: strip_prefix_length scan_number_shorter
      split: option.splits)

lemma parse_value_step:
  assumes "parse_value fc (Suc n) s = Some (v, r)"
  obtains (string) cs t where "s = quot_char # cs" "parse_string cs = Some (t, r)" "v = JStr t"
  | (obj0) cs where "s = CHR ''{'' # cs" "skip_ws cs = CHR ''}'' # r" "v = JObj []"
  | (obj) cs u where "s = CHR ''{'' # cs" "skip_ws cs = u" "u \<noteq> []" "parse_members fc n [] u = Some (v, r)"
  | (arr0) cs where "s = CHR ''['' # cs" "skip_ws cs = CHR '']'' # r" "v = JArr []"
  | (arr) cs u where "s = CHR ''['' # cs" "skip_ws cs = u" "u \<noteq> []" "parse_items fc n [] u = Some (v, r)"
  | (atom) "parse_atom fc s = Some (v, r)"
  using assms by (auto split: list.splits if_splits)

lemma parse_items_step:
  assumes "parse_items fc (Suc n) acc s = Some (v, r)"
  obtains (last) w u where "parse_value fc n s = Some (w, u)" "skip_ws u = CHR '']'' # r"
    "v = JArr (rev (w # acc))"
  | (more) w u z where "parse_value fc n s = Some (w, u)" "skip_ws u = CHR '','' # z"
    "parse_items fc n (w # acc) (skip_ws z) = Some (v, r)"
  using assms by (auto split: list.splits if_splits option.splits)

lemma parse_members_step:
  assumes "parse_members fc (Suc n) acc s = Some (v, r)"
  obtains (last) cs k u z w y where "s = quot_char # cs" "parse_string cs = Some (k, u)"
    "skip_ws u = CHR '':'' # z" "parse_value fc n (skip_ws z) = Some (w, y)"
    "skip_ws y = CHR ''}'' # r" "v = JObj (dict_of fst snd (rev ((k, w) # acc)))"
  | (more) cs k u z w y x where "s = quot_char # cs" "parse_string cs = Some (k, u)"
    "skip_ws u = CHR '':'' # z" "parse_value fc n (skip_ws z) = Some (w, y)"
    "skip_ws y = CHR '','' # x" "parse_members fc n ((k, w) # acc) (skip_ws x) = Some (v, r)"
  using assms by (auto split: list.splits if_splits option.splits)

lemma parse_shorter:
  shows parse_value_shorter: "parse_value fc n s = Some (v, r) \<Longrightarrow> length r < length s"
    and parse_items_shorter: "parse_items fc n acc1 s = Some (v, r) \<Longrightarrow> length r < length s"
    and parse_members_shorter: "parse_members fc n acc2 s = Some (v, r) \<Longrightarrow> length r < length s"
proof (induction n arbitrary: s v r acc1 acc2)
  case 0
  { case 1 then show ?case by simp }
  { case 2 then show ?case by simp }
  { case 3 then show ?case by simp }
next
  case (Suc n)
  {
    case 1
    then show ?case
    proof (cases rule: parse_value_step)
      case (obj cs u)
      then show ?thesis using Suc.IH(3) [OF obj(4)] skip_ws_length [of cs] by simp
    next
      case (arr cs u)
      then show ?thesis using Suc.IH(2) [OF arr(4)] skip_ws_length [of cs] by simp
    qed (auto dest: parse_string_shorter parse_atom_shorter skip_ws_Cons_length)
  next
    case 2
    then show ?case
    proof (cases rule: parse_items_step)
      case (last w u)
      then show ?thesis using Suc.IH(1) [OF last(1)] skip_ws_Cons_length [OF last(2)] by simp
    next
      case (more w u z)
      then show ?thesis
        using Suc.IH(1) [OF more(1)] skip_ws_Cons_length [OF more(2)] skip_ws_length [of z]
          Suc.IH(2) [OF more(3)] by simp
    qed
  next
    case 3
    then show ?case
    proof (cases rule: parse_members_step)
      case (last cs k u z w y)
      then show ?thesis
        using parse_string_shorter [OF last(2)] skip_ws_Cons_length [OF last(3)] skip_ws_length [of z]
          Suc.IH(1) [OF last(4)] skip_ws_Cons_length [OF last(5)] by simp
    next
      case (more cs k u z w y x)
      then show ?thesis
        using parse_string_shorter [OF more(2)] skip_ws_Cons_length [OF more(3)] skip_ws_length [of z]
          Suc.IH(1) [OF more(4)] skip_ws_Cons_length [OF more(5)] skip_ws_length [of x]
          Suc.IH(3) [OF more(6)] by simp
    qed
  }
qed


lemma parse_stable:
  shows "2 * length s + 1 \<le> n \<Longrightarrow> parse_value fc n s = parse_value fc (Suc n) s"
    and "2 * length s + 2 \<le> n \<Longrightarrow> parse_items fc n acc1 s = parse_items fc (Suc n) acc1 s"
    and "2 * length s + 2 \<le> n \<Longrightarrow> parse_members fc n acc2 s = parse_members fc (Suc n) acc2 s"
proof (induction n arbitrary: s acc1 acc2)
  case 0
  { case 1 then show ?case by simp }
  { case 2 then show ?case by simp }
  { case 3 then show ?case by simp }
next
  case (Suc n)
  {
    case 1
    have "skip_ws cs = d # u \<Longrightarrow> s = c # cs \<Longrightarrow> 2 * length (d # u) + 2 \<le> n" for c cs d u
      using 1 skip_ws_length [of cs] by simp
    then show ?case
      by (subst parse_value.simps(2) [of fc "Suc n" s], subst parse_value.simps(2) [of fc n s])
        (auto simp del: parse_value.simps parse_items.simps parse_members.simps
          intro: Suc.IH split: list.splits)
  next
    case 2
    have v: "parse_value fc n s = parse_value fc (Suc n) s"
      using 2 by (intro Suc.IH(1)) simp
    have "parse_items fc n acc1' (skip_ws z) = parse_items fc (Suc n) acc1' (skip_ws z)"
      if "parse_value fc (Suc n) s = Some (w, u)" "skip_ws u = c # z" for w u c z acc1'
      using that 2 parse_value_shorter [OF that(1)] skip_ws_Cons_length [OF that(2)] skip_ws_length [of z]
      by (intro Suc.IH(2)) simp
    then show ?case
      by (subst parse_items.simps(2) [of fc "Suc n" acc1 s], subst parse_items.simps(2) [of fc n acc1 s])
        (auto simp del: parse_value.simps parse_items.simps parse_members.simps
          simp: v split: list.splits option.splits)
  next
    case 3
    have v: "parse_value fc n (skip_ws z) = parse_value fc (Suc n) (skip_ws z)"
      if "s = q # cs" "parse_string cs = Some (k, u)" "skip_ws u = c # z" for q cs k u c z
      using that 3 parse_string_shorter [OF that(2)] skip_ws_Cons_length [OF that(3)] skip_ws_length [of z]
      by (intro Suc.IH(1)) simp
    have m: "parse_members fc n acc2' (skip_ws x) = parse_members fc (Suc n) acc2' (skip_ws x)"
      if "s = q # cs" "parse_string cs = Some (k, u)" "skip_ws u = c # z"
        "parse_value fc (Suc n) (skip_ws z) = Some (w, y)" "skip_ws y = d # x"
      for q cs k u c z w y d x acc2'
      using that 3 parse_string_shorter [OF that(2)] skip_ws_Cons_length [OF that(3)] skip_ws_length [of z]
        parse_value_shorter [OF that(4)] skip_ws_Cons_length [OF that(5)] skip_ws_length [of x]
      by (intro Suc.IH(3)) simp
    show ?case
      by (subst parse_members.simps(2) [of fc "Suc n" acc2 s],
          subst parse_members.simps(2) [of fc n acc2 s])
        (auto simp del: parse_value.simps parse_items.simps parse_members.simps
          simp: v m split: list.splits option.splits)
  }
qed

lemma parse_value_stable:
  assumes "2 * length s + 1 \<le> n" and "2 * length s + 1 \<le> m"
  shows "parse_value fc n s = parse_value fc m s"
proof -
  have up: "parse_value fc (2 * length s + 1 + k) s = parse_value fc (2 * length s + 1) s" for k
    by (induction k) (simp_all add: parse_stable(1) [symmetric] del: parse_value.simps)
  show ?thesis
    using up [of "n - (2 * length s + 1)"] up [of "m - (2 * length s + 1)"] assms by simp
qed

section \<open>The round trip\<close>

definition float_text :: "string \<Rightarrow> bool" where
  "float_text t \<longleftrightarrow> t \<in> {''NaN'', ''Infinity'', ''-Infinity''} \<or>
     (case scan_number t of None \<Rightarrow> False | Some (i, fe, r) \<Rightarrow> fe \<noteq> [] \<and> r = [])"

text \<open>A value a Python program can hold: floats print as themselves, keys are distinct.\<close>

fun wf_json :: "(string \<Rightarrow> string) \<Rightarrow> json \<Rightarrow> bool" where
  "wf_json fc (JFloat t) = (float_text t \<and> fc t = t)"
| "wf_json fc (JArr vs) = list_all (wf_json fc) vs"
| "wf_json fc (JObj kvs) = (distinct (map fst kvs) \<and> list_all (\<lambda>(k, v). wf_json fc v) kvs)"
| "wf_json fc _ = True"

definition sep_ok :: "char \<Rightarrow> string \<Rightarrow> bool" where
  "sep_ok c sep \<longleftrightarrow> (\<exists>w. sep = c # w \<and> list_all is_ws w)"

lemma sep_okI [simp]:
  "sep_ok CHR '','' '',''" "sep_ok CHR '':'' '':''" "sep_ok CHR '','' '', ''" "sep_ok CHR '':'' '': ''"
  by (auto simp: sep_ok_def is_ws_def)

lemma skip_ws_append: "list_all is_ws w \<Longrightarrow> skip_ws (w @ s) = skip_ws s"
  by (induction w) (auto simp: skip_ws_def)

lemma skip_ws_id: "s \<noteq> [] \<Longrightarrow> \<not> is_ws (hd s) \<Longrightarrow> skip_ws s = s"
  by (cases s) (auto simp: skip_ws_def)

lemma show_int_hd: "\<exists>c cs. show_int i = c # cs \<and> (is_digit c \<or> c = CHR ''-'')"
  using show_nat_digits [of "nat i"]
  by (cases "show_nat (nat i)") (auto simp: show_int_def)

lemma float_text_hd: "float_text t \<Longrightarrow> \<exists>c cs. t = c # cs \<and> (is_digit c \<or> c \<in> set ''-NI'')"
  by (cases t) (auto simp: float_text_def scan_number_def scan_int_def scan_nat_def is_digit_def
      split: if_splits option.splits)


lemma dumps_hd:
  assumes "wf_json fc v"
  shows "\<exists>c cs. dumps isep ksep v = c # cs \<and> \<not> is_ws c \<and> c \<noteq> CHR '']'' \<and> c \<noteq> CHR ''}''"
proof (cases v)
  case (JInt i)
  then show ?thesis using show_int_hd [of i] by (auto simp: is_ws_def is_digit_def)
next
  case (JFloat t)
  then show ?thesis using assms float_text_hd [of t] by (auto simp: is_ws_def is_digit_def)
qed (auto simp: is_ws_def dump_string_def)

lemma delimited_simps [simp]:
  "delimited []" "delimited (CHR '']'' # r)" "delimited (CHR ''}'' # r)" "delimited (CHR '','' # r)"
  by (simp_all add: delimited_def num_char_def is_digit_def)

lemma skip_ws_simps [simp]:
  "skip_ws (CHR '']'' # r) = CHR '']'' # r" "skip_ws (CHR ''}'' # r) = CHR ''}'' # r"
  "skip_ws (CHR '','' # r) = CHR '','' # r" "skip_ws (CHR '':'' # r) = CHR '':'' # r"
  "skip_ws [] = []"
  by (simp_all add: skip_ws_def is_ws_def)

lemma skip_ws_dumps: "wf_json fc v \<Longrightarrow> skip_ws (dumps isep ksep v @ r) = dumps isep ksep v @ r"
  using dumps_hd [of fc v isep ksep] by (auto intro: skip_ws_id)

lemma skip_ws_dump_string: "skip_ws (dump_string k @ r) = dump_string k @ r"
  by (rule skip_ws_id) (auto simp: dump_string_def is_ws_def)

lemma strip_prefix_neq [simp]: "c \<noteq> d \<Longrightarrow> strip_prefix (c # p) (d # s) = None"
  by (simp add: strip_prefix_def)

lemma strip_prefix_append [simp]: "strip_prefix p (p @ r) = Some r"
  by (simp add: strip_prefix_def)

definition reads :: "(string \<Rightarrow> string) \<Rightarrow> string \<Rightarrow> json \<Rightarrow> bool" where
  "reads fc txt v = (\<exists>n0. \<forall>n \<ge> n0. \<forall>r. delimited r \<longrightarrow> parse_value fc n (txt @ r) = Some (v, r))"

lemma readsI:
  "(\<And>n r. delimited r \<Longrightarrow> parse_value fc (Suc n) (txt @ r) = Some (v, r)) \<Longrightarrow> reads fc txt v"
  unfolding reads_def by (metis Suc_le_D)

lemma readsE:
  assumes "reads fc txt v"
  obtains n0 where "\<And>n r. n0 \<le> n \<Longrightarrow> delimited r \<Longrightarrow> parse_value fc n (txt @ r) = Some (v, r)"
  using assms unfolding reads_def by blast

lemma parse_atom_numeric:
  assumes "s = c # cs" and "is_digit c \<or> c \<in> set ''-NI''"
  shows "parse_value fc (Suc n) s = parse_number fc s"
proof -
  have "CHR ''n'' \<noteq> c" "CHR ''t'' \<noteq> c" "CHR ''f'' \<noteq> c" "c \<noteq> quot_char" "c \<noteq> CHR ''{''" "c \<noteq> CHR ''[''"
    using assms(2) by (auto simp: is_digit_def)
  then show ?thesis using assms(1) by (simp add: parse_atom_def)
qed

lemma reads_int: "reads fc (show_int i) (JInt i)"
proof (rule readsI)
  fix n r assume r: "delimited r"
  obtain c cs where c: "show_int i = c # cs" "is_digit c \<or> c = CHR ''-''"
    using show_int_hd by blast
  then have "parse_value fc (Suc n) (show_int i @ r) = parse_number fc (show_int i @ r)"
    by (intro parse_atom_numeric [of _ c "cs @ r"]) auto
  then show "parse_value fc (Suc n) (show_int i @ r) = Some (JInt i, r)"
    by (simp add: parse_number_def scan_number_show [OF r])
qed

lemma reads_float:
  assumes "float_text t" and "fc t = t"
  shows "reads fc t (JFloat t)"
proof (rule readsI)
  fix n r assume r: "delimited r"
  obtain c cs where c: "t = c # cs" "is_digit c \<or> c \<in> set ''-NI''"
    using float_text_hd [OF assms(1)] by blast
  then have eq: "parse_value fc (Suc n) (t @ r) = parse_number fc (t @ r)"
    by (intro parse_atom_numeric [of _ c "cs @ r"]) auto
  have num: "parse_number fc (t @ r) = Some (JFloat t, r)"
    if "scan_number t = Some (i, fe, [])" "fe \<noteq> []" for i fe
    using that assms(2) scan_number_append [OF that(1) r] scan_number_text [OF that(1)]
    by (simp add: parse_number_def)
  have "parse_number fc (t @ r) = Some (JFloat t, r)" if "t \<in> {''NaN'', ''Infinity'', ''-Infinity''}"
    using that by (auto simp: parse_number_def scan_number_def scan_int_def scan_nat_def is_digit_def
        strip_prefix_def)
  then show "parse_value fc (Suc n) (t @ r) = Some (JFloat t, r)"
    using assms(1) num unfolding eq float_text_def by (auto split: option.splits)
qed

lemma reads_string: "reads fc (dump_string s) (JStr s)"
  by (rule readsI) (simp add: dump_string_def parse_dump_string_aux)

lemma reads_literal:
  "reads fc ''null'' JNull" "reads fc ''true'' (JBool True)" "reads fc ''false'' (JBool False)"
  by (rule readsI, simp add: parse_atom_def strip_prefix_def)+


lemma Suc_leE': "Suc a \<le> n \<Longrightarrow> (\<And>m. n = Suc m \<Longrightarrow> a \<le> m \<Longrightarrow> P) \<Longrightarrow> P"
  by (cases n) auto

lemma sep_okE:
  assumes "sep_ok c sep"
  obtains w where "\<And>s. sep @ s = c # w @ s" and "list_all is_ws w"
  using assms unfolding sep_ok_def by auto

lemma reads_items:
  assumes "vs \<noteq> []" and "\<forall>v \<in> set vs. wf_json fc v \<and> reads fc (dumps isep ksep v) v"
    and "sep_ok CHR '','' isep"
  shows "\<exists>n0. \<forall>n \<ge> n0. \<forall>acc r.
    parse_items fc n acc (sep_concat isep (map (dumps isep ksep) vs) @ CHR '']'' # r) =
      Some (JArr (rev acc @ vs), r)"
  using assms(1,2)
proof (induction vs rule: list_nonempty_induct)
  case (single v)
  then have "reads fc (dumps isep ksep v) v" by simp
  then obtain n0 where n0: "\<And>n r. n0 \<le> n \<Longrightarrow> delimited r \<Longrightarrow>
      parse_value fc n (dumps isep ksep v @ r) = Some (v, r)"
    by (rule readsE) blast
  show ?case
    by (rule exI [of _ "Suc n0"]) (auto simp: n0 simp del: parse_value.simps elim!: Suc_leE')
next
  case (cons v vs)
  from cons.prems have "reads fc (dumps isep ksep v) v" by simp
  then obtain n0 where n0: "\<And>n r. n0 \<le> n \<Longrightarrow> delimited r \<Longrightarrow>
      parse_value fc n (dumps isep ksep v @ r) = Some (v, r)"
    by (rule readsE) blast
  have "\<exists>n0. \<forall>n \<ge> n0. \<forall>acc r.
      parse_items fc n acc (sep_concat isep (map (dumps isep ksep) vs) @ CHR '']'' # r) =
        Some (JArr (rev acc @ vs), r)"
    using cons by simp
  then obtain n1 where n1: "\<And>n acc r. n1 \<le> n \<Longrightarrow>
      parse_items fc n acc (sep_concat isep (map (dumps isep ksep) vs) @ CHR '']'' # r) =
        Some (JArr (rev acc @ vs), r)"
    by blast
  obtain w where w: "\<And>s. isep @ s = CHR '','' # w @ s" "list_all is_ws w"
    using assms(3) by (rule sep_okE) blast
  obtain v' vs' where vs: "vs = v' # vs'" using cons.hyps by (cases vs) auto
  have sc: "sep_concat isep (map (dumps isep ksep) (v # vs)) =
      dumps isep ksep v @ isep @ sep_concat isep (map (dumps isep ksep) vs)"
    by (simp add: vs)
  have hd: "skip_ws (sep_concat isep (map (dumps isep ksep) vs) @ z) =
      sep_concat isep (map (dumps isep ksep) vs) @ z" for z
    using cons.prems skip_ws_dumps [of fc v'] by (cases vs') (auto simp: vs)
  show ?case
    unfolding sc
    by (rule exI [of _ "Suc (max n0 n1)"])
      (auto simp: n0 n1 w hd skip_ws_append simp del: parse_value.simps elim!: Suc_leE')
qed

lemma reads_members:
  assumes "kvs \<noteq> []" and "\<forall>(k, v) \<in> set kvs. wf_json fc v \<and> reads fc (dumps isep ksep v) v"
    and "sep_ok CHR '','' isep" and "sep_ok CHR '':'' ksep"
  shows "\<exists>n0. \<forall>n \<ge> n0. \<forall>acc r.
    parse_members fc n acc (sep_concat isep
        (map (\<lambda>(k, v). dump_string k @ ksep @ dumps isep ksep v) kvs) @ CHR ''}'' # r) =
      Some (JObj (dict_of fst snd (rev acc @ kvs)), r)"
  using assms(1,2)
proof (induction kvs rule: list_nonempty_induct)
  case (single kv)
  obtain k v where kv: "kv = (k, v)" by force
  obtain u where u: "\<And>s. ksep @ s = CHR '':'' # u @ s" "list_all is_ws u"
    using assms(4) by (rule sep_okE) blast
  from single kv have "reads fc (dumps isep ksep v) v" and wf: "wf_json fc v" by auto
  from this(1) obtain n0 where n0: "\<And>n r. n0 \<le> n \<Longrightarrow> delimited r \<Longrightarrow>
      parse_value fc n (dumps isep ksep v @ r) = Some (v, r)"
    by (rule readsE) blast
  show ?case
    by (rule exI [of _ "Suc n0"])
      (auto simp: n0 kv u dump_string_def parse_dump_string_aux skip_ws_append skip_ws_dumps [OF wf]
        simp del: parse_value.simps elim!: Suc_leE')
next
  case (cons kv kvs)
  obtain k v where kv: "kv = (k, v)" by force
  obtain u where u: "\<And>s. ksep @ s = CHR '':'' # u @ s" "list_all is_ws u"
    using assms(4) by (rule sep_okE) blast
  obtain w where w: "\<And>s. isep @ s = CHR '','' # w @ s" "list_all is_ws w"
    using assms(3) by (rule sep_okE) blast
  from cons.prems kv have "reads fc (dumps isep ksep v) v" and wf: "wf_json fc v" by auto
  from this(1) obtain n0 where n0: "\<And>n r. n0 \<le> n \<Longrightarrow> delimited r \<Longrightarrow>
      parse_value fc n (dumps isep ksep v @ r) = Some (v, r)"
    by (rule readsE) blast
  define body where
    "body = sep_concat isep (map (\<lambda>(k, v). dump_string k @ ksep @ dumps isep ksep v) kvs)"
  have "\<exists>n0. \<forall>n \<ge> n0. \<forall>acc r.
      parse_members fc n acc (body @ CHR ''}'' # r) = Some (JObj (dict_of fst snd (rev acc @ kvs)), r)"
    unfolding body_def using cons by simp
  then obtain n1 where n1: "\<And>n acc r. n1 \<le> n \<Longrightarrow>
      parse_members fc n acc (body @ CHR ''}'' # r) = Some (JObj (dict_of fst snd (rev acc @ kvs)), r)"
    by blast
  obtain k' v' kvs' where kvs: "kvs = (k', v') # kvs'" using cons.hyps by (cases kvs) auto
  have sc: "sep_concat isep (map (\<lambda>(k, v). dump_string k @ ksep @ dumps isep ksep v) (kv # kvs)) =
      dump_string k @ ksep @ dumps isep ksep v @ isep @ body"
    by (simp add: kvs kv body_def)
  have hd: "skip_ws (body @ z) = body @ z" for z
    using skip_ws_dump_string [of k'] by (cases kvs') (auto simp: kvs body_def)
  show ?case
    unfolding sc
    by (rule exI [of _ "Suc (max n0 n1)"])
      (auto simp: n0 n1 kv w u hd dump_string_def parse_dump_string_aux skip_ws_append
        skip_ws_dumps [OF wf] simp del: parse_value.simps elim!: Suc_leE')
qed

lemma dict_of_pairs: "distinct (map fst kvs) \<Longrightarrow> dict_of fst snd kvs = kvs"
proof -
  have "distinct (map fst (d @ kvs)) \<Longrightarrow>
      foldl (\<lambda>d x. dict_set (fst x) (snd x) d) d kvs = d @ kvs" for d :: "('a \<times> 'b) list"
  proof (induction kvs arbitrary: d)
    case (Cons kv kvs)
    have "dict_set (fst kv) (snd kv) d = d @ [(fst kv, snd kv)]"
      using Cons.prems by (intro dict_set_fresh) (auto simp: map_of_eq_None_iff)
    then show ?case using Cons.IH [of "d @ [kv]"] Cons.prems by simp
  qed simp
  from this [of "[]"] show "distinct (map fst kvs) \<Longrightarrow> ?thesis" by (simp add: dict_of_def)
qed

lemma reads_arr:
  assumes "list_all (wf_json fc) vs" and "\<forall>v \<in> set vs. reads fc (dumps isep ksep v) v"
    and sep: "sep_ok CHR '','' isep"
  shows "reads fc (dumps isep ksep (JArr vs)) (JArr vs)"
proof (cases "vs = []")
  case True
  then show ?thesis by (intro readsI) simp
next
  case False
  obtain n0 where n0: "\<And>n acc r. n0 \<le> n \<Longrightarrow>
      parse_items fc n acc (sep_concat isep (map (dumps isep ksep) vs) @ CHR '']'' # r) =
        Some (JArr (rev acc @ vs), r)"
    using reads_items [OF False _ sep, of fc ksep] assms unfolding list_all_iff by blast
  obtain v' vs' where vs: "vs = v' # vs'" using False by (cases vs) auto
  obtain c cs where c: "dumps isep ksep v' = c # cs" "\<not> is_ws c" "c \<noteq> CHR '']''"
    using dumps_hd [of fc v' isep ksep] assms(1) by (auto simp: vs)
  then obtain cs' where cs': "sep_concat isep (map (dumps isep ksep) vs) = c # cs'"
    by (cases vs') (auto simp: vs)
  have n0': "n0 \<le> n \<Longrightarrow> parse_items fc n [] (c # cs' @ CHR '']'' # r) = Some (JArr vs, r)" for n r
    using n0 [of n "[]" r] by (simp add: cs')
  have ws: "skip_ws (c # z) = c # z" for z using c by (intro skip_ws_id) auto
  show ?thesis
    unfolding reads_def
    by (rule exI [of _ "Suc n0"]) (auto simp: cs' ws c n0' elim!: Suc_leE')
qed

lemma reads_obj:
  assumes "wf_json fc (JObj kvs)" and "\<forall>(k, v) \<in> set kvs. reads fc (dumps isep ksep v) v"
    and sep: "sep_ok CHR '','' isep" "sep_ok CHR '':'' ksep"
  shows "reads fc (dumps isep ksep (JObj kvs)) (JObj kvs)"
proof (cases "kvs = []")
  case True
  then show ?thesis by (intro readsI) simp
next
  case False
  let ?txt = "sep_concat isep (map (\<lambda>(k, v). dump_string k @ ksep @ dumps isep ksep v) kvs)"
  have wf: "\<forall>(k, v) \<in> set kvs. wf_json fc v \<and> reads fc (dumps isep ksep v) v"
    and d: "distinct (map fst kvs)"
    using assms(1,2) by (auto simp: list_all_iff)
  obtain n0 where n0: "\<And>n acc r. n0 \<le> n \<Longrightarrow> parse_members fc n acc (?txt @ CHR ''}'' # r) =
        Some (JObj (dict_of fst snd (rev acc @ kvs)), r)"
    using reads_members [OF False wf sep] by blast
  obtain k' v' kvs' where kvs: "kvs = (k', v') # kvs'" using False by (cases kvs) auto
  obtain cs' where cs': "?txt = quot_char # cs'"
    by (cases kvs') (auto simp: kvs dump_string_def)
  have n0': "n0 \<le> n \<Longrightarrow> parse_members fc n [] (quot_char # cs' @ CHR ''}'' # r) = Some (JObj kvs, r)" for n r
    using n0 [of n "[]" r] by (simp add: cs' dict_of_pairs [OF d])
  have ws: "skip_ws (quot_char # z) = quot_char # z" for z by (intro skip_ws_id) (auto simp: is_ws_def)
  show ?thesis
    unfolding reads_def
    by (rule exI [of _ "Suc n0"]) (auto simp: cs' ws n0' elim!: Suc_leE')
qed

lemma reads_dumps:
  assumes sep: "sep_ok CHR '','' isep" "sep_ok CHR '':'' ksep"
  shows "wf_json fc v \<Longrightarrow> reads fc (dumps isep ksep v) v"
proof (induction v)
  case (JArr vs)
  then show ?case by (intro reads_arr sep) (auto simp: list_all_iff)
next
  case (JObj kvs)
  have "\<forall>(k, v) \<in> set kvs. reads fc (dumps isep ksep v) v"
    using JObj by (fastforce simp: list_all_iff)
  then show ?case using JObj.prems by (intro reads_obj sep)
qed (auto simp: reads_literal reads_int reads_float reads_string)

theorem loads_dumps:
  assumes wf: "wf_json fc v" and sep: "sep_ok CHR '','' isep" "sep_ok CHR '':'' ksep"
  shows "loads fc (dumps isep ksep v) = Some v"
proof -
  let ?t = "dumps isep ksep v"
  obtain n0 where n0: "\<And>n. n0 \<le> n \<Longrightarrow> parse_value fc n ?t = Some (v, [])"
    using reads_dumps [OF sep wf] unfolding reads_def by (metis append.right_neutral delimited_simps(1))
  have "parse_value fc (2 * length ?t + 1) ?t = parse_value fc (max n0 (2 * length ?t + 1)) ?t"
    by (rule parse_value_stable) auto
  then show ?thesis
    using n0 [of "max n0 (2 * length ?t + 1)"] skip_ws_dumps [OF wf, of isep ksep "[]"]
    by (simp add: loads_def)
qed

section \<open>Printed text is printable ASCII\<close>

definition printable :: "char \<Rightarrow> bool" where
  "printable c \<longleftrightarrow> 32 \<le> (of_char c :: nat) \<and> (of_char c :: nat) \<le> 126"

lemma printable_digit: "is_digit c \<Longrightarrow> printable c"
  by (simp add: is_digit_def printable_def)

lemma printable_takeWhile [simp]: "list_all printable (takeWhile is_digit s)"
  by (induction s) (auto simp: printable_digit)

lemma printable_hex: "n < 16 \<Longrightarrow> printable (hex_char n)"
  by (simp add: printable_def hex_char_def)

lemma printable_hex_escape: "n < 0x10000 \<Longrightarrow> list_all printable (hex_escape n)"
  by (simp add: hex_escape_def printable_hex less_mult_imp_div_less) (simp add: printable_def)

lemma printable_escape:
  assumes "plain_point n"
  shows "list_all printable (escape_point n)"
proof -
  note pair_halves(1) [OF assms]
  moreover have "0xDC00 + k mod 1024 < 0x10000" for k :: nat using mod_less_divisor [of 1024 k] by linarith
  ultimately show ?thesis
    by (auto simp: escape_point_def intro: printable_hex_escape) (simp_all add: printable_def)
qed

lemma printable_dump_string: "list_all printable (dump_string s)"
proof -
  have "list_all printable (concat (map escape_point ns))" if "\<forall>n \<in> set ns. plain_point n" for ns
    using that by (induction ns) (simp_all add: printable_escape)
  then show ?thesis using plain_code_points by (simp add: dump_string_def escape_text_def printable_def)
qed

lemma printable_show_int: "list_all printable (show_int i)"
  using show_nat_digits [of "nat i"] show_nat_digits [of "nat (- i)"]
  by (auto simp: show_int_def list_all_iff printable_digit) (simp add: printable_def)

lemma printable_number:
  assumes "scan_number s = Some (i, fe, [])"
  shows "list_all printable s"
proof -
  have n: "scan_nat s = Some (i, t) \<Longrightarrow> list_all printable i" for s i t
    by (cases s) (auto simp: scan_nat_def printable_digit split: if_splits, simp add: printable_def)
  have i: "scan_int s = Some (i, t) \<Longrightarrow> list_all printable i" for s i t
    by (cases s) (auto simp: scan_int_def dest!: n split: if_splits, simp_all add: printable_def)
  have f: "scan_frac s = (f, t) \<Longrightarrow> list_all printable f" for s f t
    by (cases s; cases "tl s") (auto simp: scan_frac_def printable_digit split: if_splits list.splits, simp_all add: printable_def)
  have e: "scan_exp s = (f, t) \<Longrightarrow> list_all printable f" for s f t
    by (cases s; cases "tl s") (auto simp: scan_exp_def scan_sign_def printable_digit split: if_splits list.splits,
        auto simp: printable_def)
  show ?thesis
    using assms scan_number_text [OF assms]
    by (auto simp: scan_number_def Let_def dest: i f e split: option.splits prod.splits)
qed

lemma printable_sep_concat:
  "list_all printable sep \<Longrightarrow> \<forall>x \<in> set xs. list_all printable x \<Longrightarrow> list_all printable (sep_concat sep xs)"
  by (induction sep xs rule: sep_concat.induct) auto

lemma printable_dumps:
  assumes "list_all printable isep" and "list_all printable ksep"
  shows "wf_json fc v \<Longrightarrow> list_all printable (dumps isep ksep v)"
proof (induction v)
  case (JFloat t)
  then show ?case
    by (auto simp: float_text_def printable_number split: option.splits) (simp_all add: printable_def)
next
  case (JArr vs)
  then show ?case
    using assms by (auto simp: list_all_iff [of "wf_json fc"] intro!: printable_sep_concat) (simp_all add: printable_def)
next
  case (JObj kvs)
  have "\<forall>(k, v) \<in> set kvs. list_all printable (dumps isep ksep v)"
    using JObj by (fastforce simp: list_all_iff [of "\<lambda>(k, v). wf_json fc v"])
  then show ?case
    using assms by (auto simp: printable_dump_string intro!: printable_sep_concat) (auto simp: printable_def)
qed (auto simp: printable_show_int printable_dump_string, simp_all add: printable_def)

section \<open>Sorting the keys\<close>

lemma jsort_keys:
  fixes kvs :: "('k :: linorder \<times> 'v) list"
  shows "mset (map fst (sort_key fst (map (\<lambda>(k, v). (k, f v)) kvs))) = mset (map fst kvs)"
proof -
  have eq: "map fst (map (\<lambda>(k, v). (k, f v)) kvs) = map fst kvs" by (simp add: comp_def case_prod_beta)
  have "mset (map fst (sort_key fst xs)) = mset (map fst xs)" for xs :: "('k \<times> 'w) list"
    by simp
  from this [of "map (\<lambda>(k, v). (k, f v)) kvs"] show ?thesis unfolding eq .
qed

lemma distinct_sort_key:
  fixes kvs :: "('k :: linorder \<times> 'v) list"
  shows "distinct (map fst (sort_key fst (map (\<lambda>(k, v). (k, f v)) kvs))) = distinct (map fst kvs)"
  using jsort_keys [of f kvs] by (metis mset_eq_imp_distinct_iff)

lemma wf_jsort: "wf_json fc v \<Longrightarrow> wf_json fc (jsort v)"
proof (induction v)
  case (JObj kvs)
  then show ?case by (fastforce simp: list_all_iff distinct_sort_key)
qed (auto simp: list_all_iff)

lemma filter_single: "distinct zs \<Longrightarrow> k \<in> set zs \<Longrightarrow> filter (\<lambda>x. x = k) zs = [k]"
  by (induction zs) (auto simp: filter_empty_conv)

lemma sort_key_fst_unique:
  assumes "mset xs = mset ys" and "distinct (map fst xs)"
  shows "sort_key fst xs = sort_key fst ys"
proof (rule properties_for_sort_key)
  show "mset (sort_key fst ys) = mset xs" by (simp add: assms(1))
  show "sorted (map fst (sort_key fst ys))" by simp
  fix k assume "k \<in> set (sort_key fst ys)"
  then have "k \<in> set xs" using assms(1) by (metis set_mset_mset set_sort)
  have inj: "inj_on fst (set xs)" using assms(2) by (simp add: distinct_map)
  have d: "distinct xs" using assms(2) by (simp add: distinct_map)
  then have dy: "distinct (sort_key fst ys)" using assms(1) by (metis distinct_sort mset_eq_imp_distinct_iff)
  have sety: "set (sort_key fst ys) = set xs" using assms(1) by (metis set_mset_mset set_sort)
  have one: "filter (\<lambda>x. fst k = fst x) zs = [k]" if "distinct zs" "set zs = set xs" for zs
  proof -
    have "filter (\<lambda>x. fst k = fst x) zs = filter (\<lambda>x. x = k) zs"
      using inj \<open>k \<in> set xs\<close> that(2) by (intro filter_cong) (auto simp: inj_on_def)
    also have "\<dots> = [k]"
      using that \<open>k \<in> set xs\<close> by (intro filter_single) auto
    finally show ?thesis by simp
  qed
  show "filter (\<lambda>x. fst k = fst x) (sort_key fst ys) = filter (\<lambda>x. fst k = fst x) xs"
    using one [OF d] one [OF dy sety] by simp
qed


lemma jsort_obj_unique:
  assumes "mset kvs = mset kvs'" and "distinct (map fst kvs)"
  shows "jsort (JObj kvs) = jsort (JObj kvs')"
  using assms by (auto intro!: sort_key_fst_unique simp: comp_def case_prod_beta)

theorem dumps_sorted_inj:
  assumes "wf_json fc v" and "wf_json fc w"
    and "dumps '','' '':'' (jsort v) = dumps '','' '':'' (jsort w)"
  shows "jsort v = jsort w"
proof -
  have "loads fc (dumps '','' '':'' (jsort u)) = Some (jsort u)" if "wf_json fc u" for u
    using that by (intro loads_dumps wf_jsort) simp_all
  from this [OF assms(1)] this [OF assms(2)] show ?thesis
    unfolding assms(3) by (simp only: option.inject)
qed

end
