(* ===== verification/Access.thy ===== *)
theory Access
  imports Json
begin

text \<open>
  Who may talk to the server: \<^verbatim>\<open>config.py\<close>, the token logic of \<^verbatim>\<open>cli.py\<close> and the \<open>guard\<close> middleware of
  \<^verbatim>\<open>app.py\<close> with its two header parsers. Header values are Latin-1 text, as the ASGI server
  decodes them; \<open>argparse\<close> and the environment are the arguments \<open>cli_args\<close> and \<open>env_token\<close>.
\<close>

section \<open>Python's string methods, as the guard uses them\<close>

definition py_space :: "char \<Rightarrow> bool" where
  "py_space c \<longleftrightarrow> (of_char c :: nat) \<in> {9..13} \<union> {28..32} \<union> {133, 160}"

definition py_strip :: "string \<Rightarrow> string" where
  "py_strip s = rev (dropWhile py_space (rev (dropWhile py_space s)))"

definition py_lower :: "string \<Rightarrow> string" where
  "py_lower = map (\<lambda>c. let n = (of_char c :: nat) in
     if n \<in> {65..90} \<or> n \<in> {192..222} - {215} then char_of (n + 32) else c)"

definition before :: "char \<Rightarrow> string \<Rightarrow> string" where
  "before c s = takeWhile (\<lambda>x. x \<noteq> c) s"

definition after :: "char \<Rightarrow> string \<Rightarrow> string" where
  "after c s = tl (dropWhile (\<lambda>x. x \<noteq> c) s)"

definition before_last :: "char \<Rightarrow> string \<Rightarrow> string" where
  "before_last c s = rev (after c (rev s))"

definition ascii :: "string \<Rightarrow> bool" where
  "ascii s \<longleftrightarrow> list_all (\<lambda>c. (of_char c :: nat) < 128) s"

section \<open>The configuration\<close>

definition loopback_hosts :: "string list" where
  "loopback_hosts = [''127.0.0.1'', ''localhost'', ''::1'']"

definition default_allowed_hosts :: "string list" where
  "default_allowed_hosts = [''127.0.0.1'', ''localhost'', ''[::1]'', ''::1'']"

record server_config =
  c_host :: string
  c_port :: int
  c_token :: string
  c_explicit :: bool
  c_allowed :: "string list"
  c_cors :: "string list"
  c_workers :: "int option"
  c_extensions :: "string option"

datatype config_error = NotLoopback string

definition config_validate :: "server_config \<Rightarrow> config_error option" where
  "config_validate c = (if c_host c \<notin> set loopback_hosts \<and> \<not> c_explicit c then Some (NotLoopback (c_host c)) else None)"

record cli_args =
  a_host :: string
  a_port :: int
  a_token :: "string option"
  a_cors :: "string list"
  a_workers :: "int option"
  a_extensions :: "string option"

text \<open>What \<open>argparse\<close> gives for an empty command line.\<close>

definition default_args :: cli_args where
  "default_args = \<lparr>a_host = ''127.0.0.1'', a_port = 7457, a_token = None, a_cors = [], a_workers = None,
     a_extensions = None\<rparr>"

text \<open>\<open>x or y\<close> of Python on optional strings: an empty string counts as absent.\<close>

definition py_or :: "string option \<Rightarrow> string option \<Rightarrow> string option" where
  "py_or x y = (case x of None \<Rightarrow> y | Some s \<Rightarrow> if s = [] then y else x)"

definition build_config :: "string \<Rightarrow> cli_args \<Rightarrow> string option \<Rightarrow> config_error + server_config" where
  "build_config generated args env_token =
     (let token = py_or (a_token args) env_token;
          c = \<lparr>c_host = a_host args, c_port = a_port args,
               c_token = the (py_or token (Some generated)), c_explicit = (token \<noteq> None),
               c_allowed = default_allowed_hosts, c_cors = a_cors args, c_workers = a_workers args,
               c_extensions = a_extensions args\<rparr>
      in case config_validate c of Some e \<Rightarrow> Inl e | None \<Rightarrow> Inr c)"

section \<open>The guard\<close>

definition hostname_of :: "string \<Rightarrow> string" where
  "hostname_of header =
     (let v = py_strip header in
      if take 1 v = ''['' then before CHR '']'' v @ '']''
      else if CHR '':'' \<in> set v then before_last CHR '':'' v else v)"

definition origin_hostname :: "string \<Rightarrow> string option" where
  "origin_hostname origin =
     (case strip_prefix ''http://'' origin of
        Some h \<Rightarrow> Some (hostname_of h)
      | None \<Rightarrow> map_option hostname_of (strip_prefix ''https://'' origin))"

record request =
  rq_host :: "string option"
  rq_origin :: "string option"
  rq_path :: string
  rq_auth :: "string option"

datatype verdict = Admitted | Denied nat string | Crashed string

definition header_or_empty :: "string option \<Rightarrow> string" where
  "header_or_empty h = (case h of None \<Rightarrow> [] | Some s \<Rightarrow> s)"

definition auth_exempt :: "string list" where
  "auth_exempt = [''/health'']"

text \<open>\<open>secrets.compare_digest\<close> raises \<open>TypeError\<close> on strings that are not ASCII.\<close>

definition compare_digest :: "string \<Rightarrow> string \<Rightarrow> bool option" where
  "compare_digest s t = (if ascii s \<and> ascii t then Some (s = t) else None)"

definition check_token :: "server_config \<Rightarrow> request \<Rightarrow> verdict" where
  "check_token c rq =
     (let auth = header_or_empty (rq_auth rq); scheme = before CHR '' '' auth; cred = after CHR '' '' auth in
      if py_lower scheme \<noteq> ''bearer'' then Denied 401 ''Missing or invalid bearer token''
      else (case compare_digest (py_strip cred) (c_token c) of
          None \<Rightarrow> Crashed ''TypeError''
        | Some ok \<Rightarrow> if ok then Admitted else Denied 401 ''Missing or invalid bearer token''))"

definition guard :: "server_config \<Rightarrow> request \<Rightarrow> verdict" where
  "guard c rq =
     (if hostname_of (header_or_empty (rq_host rq)) \<notin> set (c_allowed c) then Denied 403 ''Host not allowed''
      else if (case rq_origin rq of
                 None \<Rightarrow> False
               | Some origin \<Rightarrow> (case origin_hostname origin of
                   None \<Rightarrow> True | Some h \<Rightarrow> h \<notin> set (c_allowed c)))
           then Denied 403 ''Origin not allowed''
      else if rq_path rq \<notin> set auth_exempt then check_token c rq
      else Admitted)"

section \<open>What the parsers accept\<close>

lemma before_append: "c \<notin> set s \<Longrightarrow> before c (s @ c # t) = s"
  unfolding before_def by (induction s) auto

lemma after_append: "c \<notin> set s \<Longrightarrow> after c (s @ c # t) = t"
  unfolding after_def by (induction s) auto

lemma after_absent: "c \<notin> set s \<Longrightarrow> after c s = []"
  unfolding after_def by (induction s) auto

lemma before_last_append: "c \<notin> set t \<Longrightarrow> before_last c (s @ c # t) = s"
  unfolding before_last_def using after_append [of c "rev t" "rev s"] by simp

lemma before_split: "c \<in> set s \<Longrightarrow> s = before c s @ c # after c s"
  unfolding before_def after_def
  by (metis (mono_tags, lifting) dropWhile_eq_Nil_conv hd_dropWhile list.collapse takeWhile_dropWhile_id)

lemma before_last_split:
  assumes "c \<in> set s" shows "\<exists>t. s = before_last c s @ c # t \<and> c \<notin> set t"
proof -
  have "rev s = before c (rev s) @ c # after c (rev s)" using assms by (intro before_split) simp
  then have "s = rev (after c (rev s)) @ c # rev (before c (rev s))"
    by (metis append.assoc append_Cons append_Nil rev.simps(2) rev_append rev_rev_ident)
  moreover have "c \<notin> set (before c (rev s))" unfolding before_def by (auto dest: set_takeWhileD)
  ultimately show ?thesis unfolding before_last_def by fastforce
qed

text \<open>
  A stripped header without brackets is accepted for a host exactly when it is that host or
  that host with one port after it.
\<close>

lemma hostname_plain:
  assumes "take 1 (py_strip s) \<noteq> ''[''" and "CHR '':'' \<notin> set h"
  shows "hostname_of s = h \<longleftrightarrow> py_strip s = h \<or> (\<exists>port. CHR '':'' \<notin> set port \<and> py_strip s = h @ CHR '':'' # port)"
proof (cases "CHR '':'' \<in> set (py_strip s)")
  case True
  then have "hostname_of s = before_last CHR '':'' (py_strip s)" using assms(1) by (simp add: hostname_of_def)
  then show ?thesis
    using True assms(2) before_last_split [OF True] before_last_append by (metis in_set_conv_decomp)
next
  case False
  then show ?thesis using assms by (auto simp: hostname_of_def)
qed

lemma hostname_bracket:
  assumes "take 1 (py_strip s) = ''[''"
  shows "hostname_of s = h @ '']'' \<longleftrightarrow> before CHR '']'' (py_strip s) = h"
  using assms by (simp add: hostname_of_def)


text \<open>
  The headers the default allow-list lets through. Nothing after the closing bracket of an
  IPv6 literal is looked at, and \<open>::1\<close> without brackets needs a port to be recognised.
\<close>

definition local_host :: "string \<Rightarrow> bool" where
  "local_host s \<longleftrightarrow> (let v = py_strip s in
     if take 1 v = ''['' then before CHR '']'' v = ''[::1''
     else (\<exists>h \<in> {''127.0.0.1'', ''localhost''}. v = h \<or> (\<exists>port. CHR '':'' \<notin> set port \<and> v = h @ CHR '':'' # port)) \<or>
       (\<exists>port. CHR '':'' \<notin> set port \<and> v = ''::1:'' @ port))"

lemma hostname_ipv6:
  assumes "take 1 (py_strip s) \<noteq> ''[''"
  shows "hostname_of s = ''::1'' \<longleftrightarrow> (\<exists>port. CHR '':'' \<notin> set port \<and> py_strip s = ''::1:'' @ port)"
proof (cases "CHR '':'' \<in> set (py_strip s)")
  case True
  then have h: "hostname_of s = before_last CHR '':'' (py_strip s)" using assms by (simp add: hostname_of_def)
  show ?thesis
  proof
    assume "hostname_of s = ''::1''"
    then obtain t where "py_strip s = ''::1'' @ CHR '':'' # t" "CHR '':'' \<notin> set t"
      using before_last_split [OF True] unfolding h by metis
    then show "\<exists>port. CHR '':'' \<notin> set port \<and> py_strip s = ''::1:'' @ port" by auto
  next
    assume "\<exists>port. CHR '':'' \<notin> set port \<and> py_strip s = ''::1:'' @ port"
    then obtain port where "CHR '':'' \<notin> set port" "py_strip s = ''::1'' @ CHR '':'' # port" by auto
    then show "hostname_of s = ''::1''" unfolding h by (simp only: before_last_append not_False_eq_True)
  qed
next
  case False
  then show ?thesis using assms by (auto simp: hostname_of_def)
qed

lemma allowed_local: "hostname_of s \<in> set default_allowed_hosts \<longleftrightarrow> local_host s"
proof (cases "take 1 (py_strip s) = ''[''")
  case True
  have "hostname_of s \<in> set default_allowed_hosts \<longleftrightarrow> hostname_of s = ''[::1'' @ '']''"
    using True by (auto simp: default_allowed_hosts_def hostname_of_def)
  then show ?thesis using True hostname_bracket [OF True, of "''[::1''"] by (simp add: local_host_def)
next
  case False
  have b: "hostname_of s \<noteq> ''[::1]''"
  proof
    assume h: "hostname_of s = ''[::1]''"
    show False
    proof (cases "CHR '':'' \<in> set (py_strip s)")
      case True
      then obtain t where "py_strip s = hostname_of s @ CHR '':'' # t"
        using before_last_split [OF True] False by (auto simp: hostname_of_def)
      then show False using h False by simp
    next
      case colon: False
      then show False using h False by (simp add: hostname_of_def)
    qed
  qed
  have n: "CHR '':'' \<notin> set ''127.0.0.1''" "CHR '':'' \<notin> set ''localhost''" by simp_all
  show ?thesis
    using b hostname_plain [OF False n(1)] hostname_plain [OF False n(2)] hostname_ipv6 [OF False] False
    unfolding default_allowed_hosts_def local_host_def Let_def by auto
qed

lemma origin_local:
  "(case origin_hostname origin of None \<Rightarrow> False | Some h \<Rightarrow> h \<in> set default_allowed_hosts) \<longleftrightarrow>
     (\<exists>h. (origin = ''http://'' @ h \<or> origin = ''https://'' @ h) \<and> local_host h)"
proof -
  have sp: "strip_prefix p s = Some h \<longleftrightarrow> s = p @ h" for p s h
    unfolding strip_prefix_def by (auto simp: append_eq_conv_conj) (metis append_take_drop_id)
  have none: "strip_prefix p s = None" if "\<nexists>h. s = p @ h" for p s
    using that sp by (metis not_Some_eq)
  consider (http) h where "origin = ''http://'' @ h" | (https) h where "origin = ''https://'' @ h"
    | (other) "\<nexists>h. origin = ''http://'' @ h" "\<nexists>h. origin = ''https://'' @ h"
    by blast
  then show ?thesis
  proof cases
    case http
    have "strip_prefix ''http://'' origin = Some h" using sp http by blast
    then have "origin_hostname origin = Some (hostname_of h)" by (simp add: origin_hostname_def)
    then show ?thesis using http by (simp add: allowed_local)
  next
    case https
    have "strip_prefix ''http://'' origin = None" by (rule none) (simp add: https)
    moreover have "strip_prefix ''https://'' origin = Some h" using sp https by blast
    ultimately have "origin_hostname origin = Some (hostname_of h)" by (simp add: origin_hostname_def)
    then show ?thesis using https by (simp add: allowed_local)
  next
    case other
    have "strip_prefix ''http://'' origin = None" "strip_prefix ''https://'' origin = None"
      using none other by blast+
    then have "origin_hostname origin = None" by (simp add: origin_hostname_def)
    then show ?thesis using other by auto
  qed
qed

text \<open>A bearer credential for a token: the scheme in any case, one space, the token in blanks.\<close>

definition bears :: "string \<Rightarrow> string \<Rightarrow> bool" where
  "bears token auth \<longleftrightarrow> (\<exists>scheme cred. auth = scheme @ CHR '' '' # cred \<and> CHR '' '' \<notin> set scheme \<and>
     py_lower scheme = ''bearer'' \<and> py_strip cred = token)"

lemma check_token_bears:
  assumes "c_token c \<noteq> []"
  shows "check_token c rq = Admitted \<longleftrightarrow> bears (c_token c) (header_or_empty (rq_auth rq)) \<and> ascii (c_token c)"
proof (cases "CHR '' '' \<in> set (header_or_empty (rq_auth rq))")
  case True
  let ?a = "header_or_empty (rq_auth rq)"
  have s: "?a = before CHR '' '' ?a @ CHR '' '' # after CHR '' '' ?a" using before_split [OF True] .
  have n: "CHR '' '' \<notin> set (before CHR '' '' ?a)" unfolding before_def by (auto dest: set_takeWhileD)
  have "bears (c_token c) ?a \<longleftrightarrow> py_lower (before CHR '' '' ?a) = ''bearer'' \<and> py_strip (after CHR '' '' ?a) = c_token c"
    unfolding bears_def using s n before_append after_append by metis
  then show ?thesis by (auto simp: check_token_def compare_digest_def Let_def)
next
  case False
  have "after CHR '' '' (header_or_empty (rq_auth rq)) = []" by (rule after_absent [OF False])
  then have "py_strip (after CHR '' '' (header_or_empty (rq_auth rq))) = []" by (simp add: py_strip_def)
  moreover have "\<not> bears (c_token c) (header_or_empty (rq_auth rq))" using False by (auto simp: bears_def)
  ultimately show ?thesis using assms by (auto simp: check_token_def compare_digest_def Let_def)
qed

theorem guard_admits:
  assumes c: "build_config generated args env_token = Inr c" and g: "generated \<noteq> []"
  shows "guard c rq = Admitted \<longleftrightarrow> local_host (header_or_empty (rq_host rq)) \<and>
    (\<forall>origin. rq_origin rq = Some origin \<longrightarrow>
       (\<exists>h. (origin = ''http://'' @ h \<or> origin = ''https://'' @ h) \<and> local_host h)) \<and>
    (rq_path rq = ''/health'' \<or> bears (c_token c) (header_or_empty (rq_auth rq)) \<and> ascii (c_token c))"
proof -
  have al: "c_allowed c = default_allowed_hosts" and tk: "c_token c \<noteq> []"
    using c g by (auto simp: build_config_def Let_def py_or_def split: option.splits if_splits)
  have o: "(case rq_origin rq of None \<Rightarrow> False | Some origin \<Rightarrow> (case origin_hostname origin of None \<Rightarrow> True
      | Some h \<Rightarrow> h \<notin> set default_allowed_hosts)) \<longleftrightarrow> \<not> (\<forall>origin. rq_origin rq = Some origin \<longrightarrow>
      (\<exists>h. (origin = ''http://'' @ h \<or> origin = ''https://'' @ h) \<and> local_host h))"
    unfolding origin_local [symmetric] by (auto split: option.splits)
  show ?thesis
    unfolding guard_def al o allowed_local check_token_bears [OF tk, symmetric] auth_exempt_def by auto
qed

theorem config_explicit:
  assumes "build_config generated args env_token = Inr c" and "c_host c \<notin> set loopback_hosts"
  shows "(\<exists>t. a_token args = Some t \<and> t \<noteq> [] \<and> c_token c = t) \<or>
    (\<exists>t. env_token = Some t \<and> c_token c = (if t = [] then generated else t))"
  using assms by (cases env_token)
    (auto simp: build_config_def config_validate_def Let_def py_or_def split: option.splits if_splits)

end
