(* ===== verification/Registry.thy ===== *)
theory Registry
  imports Json
begin

text \<open>
  \<^verbatim>\<open>modules.py\<close>: port specifications, manifests, results, the module protocol and the
  registry.

  A module is its manifest and its \<open>run\<close>, a function from the materialised inputs, the params
  object and the draft flag to a dict of results or to the exception it raises. The
  registry is the dict \<open>_modules\<close> from a module's name to the module, in registration order.
  Isolation is honoured by construction: \<open>register\<close> takes only \<open>core\<close> manifests and
  \<open>register_isolated\<close> only \<open>isolated\<close> ones, which \<open>registry_ok\<close> states as an invariant.
\<close>

record port_spec =
  port_name :: string
  port_type :: string

record manifest =
  m_name :: string
  m_version :: string
  m_description :: string
  m_inputs :: "port_spec list"
  m_outputs :: "port_spec list"
  m_isolation :: string

record mresult =
  r_type :: string
  r_data :: bytes

datatype py_exn =
    ModuleError string
  | PyError string

type_synonym params = "(string \<times> json) list"
type_synonym results = "(string, mresult) dict"

record pymodule =
  mod_manifest :: manifest
  mod_run :: "(string, bytes) dict \<Rightarrow> params \<Rightarrow> bool \<Rightarrow> py_exn + results"

type_synonym registry = "(string, pymodule) dict"

datatype registry_error =
    NotImplementedIsolation string string
  | AlreadyRegistered string

definition input_port :: "manifest \<Rightarrow> string \<Rightarrow> port_spec option" where
  "input_port m n = find (\<lambda>p. port_name p = n) (m_inputs m)"

definition output_port :: "manifest \<Rightarrow> string \<Rightarrow> port_spec option" where
  "output_port m n = find (\<lambda>p. port_name p = n) (m_outputs m)"

section \<open>The registry\<close>

definition registry_get :: "registry \<Rightarrow> string \<Rightarrow> pymodule option" where
  "registry_get reg name = dict_get reg name"

definition registry_add :: "pymodule \<Rightarrow> registry \<Rightarrow> registry_error + registry" where
  "registry_add md reg =
     (let name = m_name (mod_manifest md) in
      if registry_get reg name \<noteq> None then Inl (AlreadyRegistered name)
      else Inr (dict_set name md reg))"

definition register :: "pymodule \<Rightarrow> registry \<Rightarrow> registry_error + registry" where
  "register md reg =
     (let m = mod_manifest md in
      if m_isolation m \<noteq> ''core'' then Inl (NotImplementedIsolation (m_name m) (m_isolation m))
      else registry_add md reg)"

definition register_isolated :: "pymodule \<Rightarrow> registry \<Rightarrow> registry_error + registry" where
  "register_isolated md reg =
     (let m = mod_manifest md in
      if m_isolation m \<noteq> ''isolated'' then Inl (NotImplementedIsolation (m_name m) (m_isolation m))
      else registry_add md reg)"

definition unregister :: "string \<Rightarrow> registry \<Rightarrow> registry" where
  "unregister name reg = dict_pop name reg"

definition manifests :: "registry \<Rightarrow> manifest list" where
  "manifests reg = map mod_manifest (dict_values reg)"

definition registry_ok :: "registry \<Rightarrow> bool" where
  "registry_ok reg \<longleftrightarrow> dict_ok reg \<and>
     (\<forall>(name, md) \<in> set reg. m_name (mod_manifest md) = name \<and>
        m_isolation (mod_manifest md) \<in> {''core'', ''isolated''})"

lemmas registry_defs = registry_get_def registry_add_def register_def register_isolated_def
  unregister_def

lemma find_Some_iff_in:
  "find P xs = Some x \<Longrightarrow> x \<in> set xs \<and> P x"
  by (auto simp: find_Some_iff)

lemma find_key:
  "distinct (map f xs) \<Longrightarrow> find (\<lambda>x. f x = k) xs = Some x \<longleftrightarrow> x \<in> set xs \<and> f x = k"
  by (induction xs) auto

lemma output_port_iff:
  "distinct (map port_name (m_outputs m)) \<Longrightarrow>
     output_port m n = Some p \<longleftrightarrow> p \<in> set (m_outputs m) \<and> port_name p = n"
  unfolding output_port_def by (rule find_key)

lemma input_port_iff:
  "distinct (map port_name (m_inputs m)) \<Longrightarrow>
     input_port m n = Some p \<longleftrightarrow> p \<in> set (m_inputs m) \<and> port_name p = n"
  unfolding input_port_def by (rule find_key)

lemma registry_ok_Nil [simp]: "registry_ok []"
  by (simp add: registry_ok_def)

lemma registry_ok_get:
  "registry_ok reg \<Longrightarrow> registry_get reg name = Some md \<Longrightarrow>
     m_name (mod_manifest md) = name \<and> m_isolation (mod_manifest md) \<in> {''core'', ''isolated''}"
  by (auto simp: registry_ok_def registry_get_def dest!: map_of_SomeD)

lemma registry_ok_set:
  "registry_ok reg \<Longrightarrow> registry_get reg (m_name (mod_manifest md)) = None \<Longrightarrow>
     m_isolation (mod_manifest md) \<in> {''core'', ''isolated''} \<Longrightarrow>
     registry_ok (dict_set (m_name (mod_manifest md)) md reg)"
  by (auto simp: registry_ok_def registry_get_def dict_set_fresh dict_ok_def map_of_eq_None_iff)

lemma registry_ok_pop: "registry_ok reg \<Longrightarrow> registry_ok (dict_pop name reg)"
  unfolding registry_ok_def by (auto simp: set_dict_pop)

lemma register_Inr:
  "register md reg = Inr reg' \<longleftrightarrow>
     m_isolation (mod_manifest md) = ''core'' \<and>
     registry_get reg (m_name (mod_manifest md)) = None \<and>
     reg' = dict_set (m_name (mod_manifest md)) md reg"
  by (auto simp: register_def registry_add_def Let_def)

lemma register_isolated_Inr:
  "register_isolated md reg = Inr reg' \<longleftrightarrow>
     m_isolation (mod_manifest md) = ''isolated'' \<and>
     registry_get reg (m_name (mod_manifest md)) = None \<and>
     reg' = dict_set (m_name (mod_manifest md)) md reg"
  by (auto simp: register_isolated_def registry_add_def Let_def)

interpretation registry_store: keyed_store_del registry_get dict_set dict_ok unregister
  by unfold_locales (auto simp: registry_get_def unregister_def)

section \<open>The output contract\<close>

text \<open>
  What the executor demands of a run's results: every declared output present, nothing
  else, every type as declared. \<open>declared\<close> is the dict comprehension
  \<open>{p.name: p.type for p in manifest.outputs}\<close>, in which a repeated name keeps its last type.
\<close>

definition declared_types :: "manifest \<Rightarrow> (string, string) dict" where
  "declared_types m = dict_of port_name port_type (m_outputs m)"

definition conforms :: "manifest \<Rightarrow> results \<Rightarrow> bool" where
  "conforms m res \<longleftrightarrow>
     set (dict_keys res) = set (dict_keys (declared_types m)) \<and>
     (\<forall>(name, r) \<in> set res. dict_get (declared_types m) name = Some (r_type r))"

definition ports_distinct :: "manifest \<Rightarrow> bool" where
  "ports_distinct m \<longleftrightarrow>
     distinct (map port_name (m_inputs m)) \<and> distinct (map port_name (m_outputs m))"

lemma declared_keys: "set (dict_keys (declared_types m)) = port_name ` set (m_outputs m)"
proof -
  have "k \<in> set (dict_keys (declared_types m)) \<longleftrightarrow> k \<in> port_name ` set (m_outputs m)" for k
    using dict_of_dom [of port_name port_type "m_outputs m" k]
    by (metis declared_types_def domI domIff dom_map_of_conv_image_fst list.set_map not_Some_eq)
  then show ?thesis by blast
qed

lemma conforms_output:
  assumes c: "conforms m res" and d: "distinct (map port_name (m_outputs m))"
    and p: "output_port m n = Some p"
  obtains r where "dict_get res n = Some r" and "r_type r = port_type p"
proof -
  from p have p': "p \<in> set (m_outputs m)" "port_name p = n"
    by (auto simp: output_port_def dest: find_Some_iff_in)
  then have "n \<in> set (dict_keys res)"
    using c unfolding conforms_def declared_keys by auto
  then obtain r where r: "dict_get res n = Some r"
    by (metis map_of_eq_None_iff not_None_eq list.set_map)
  then have "dict_get (declared_types m) n = Some (r_type r)"
    using c by (auto simp: conforms_def dest: map_of_SomeD)
  moreover have "dict_get (declared_types m) n = Some (port_type p)"
    using dict_of_get_elem [OF d p'(1), of port_type] p'(2) by (simp add: declared_types_def)
  ultimately show ?thesis using r that by simp
qed

lemma conforms_output_ex:
  assumes "conforms m res" and "output_port m n = Some p"
  obtains r where "dict_get res n = Some r"
proof -
  from assms(2) have "p \<in> set (m_outputs m)" "port_name p = n"
    by (auto simp: output_port_def dest: find_Some_iff_in)
  then have "n \<in> set (dict_keys res)"
    using assms(1) unfolding conforms_def declared_keys by auto
  then show ?thesis
    using that by (metis map_of_eq_None_iff not_None_eq list.set_map)
qed

end
