(* ===== verification/Worker.thy ===== *)
theory Worker
  imports Access Registry
begin

text \<open>
  The process boundary of an extension: base64 and the JSON frames of \<open>IsolatedModule.run\<close>
  (\<^verbatim>\<open>extensions.py\<close>) and of the runner (\<^verbatim>\<open>extension_runner.py\<close>), and the worker that owns the process.
  The extension's own code is the parameter \<open>entries\<close>: what importing \<open>module:callable\<close> from a source
  directory gives. \<open>fc\<close> is the reader of float literals and \<open>xt\<close> the text of the exceptions that
  requests of another shape than \<open>isolated_request\<close> raise.
\<close>

section \<open>base64\<close>

definition b64_char :: "nat \<Rightarrow> char" where
  "b64_char n = (if n < 26 then char_of (65 + n) else if n < 52 then char_of (71 + n)
     else if n < 62 then char_of (n - 4) else if n = 62 then CHR ''+'' else CHR ''/'')"

definition b64_val :: "char \<Rightarrow> nat option" where
  "b64_val c = (let n = (of_char c :: nat) in
     if 65 \<le> n \<and> n \<le> 90 then Some (n - 65) else if 97 \<le> n \<and> n \<le> 122 then Some (n - 71)
     else if 48 \<le> n \<and> n \<le> 57 then Some (n + 4) else if n = 43 then Some 62
     else if n = 47 then Some 63 else None)"

fun b64encode :: "bytes \<Rightarrow> string" where
  "b64encode [] = []"
| "b64encode [a] = [b64_char (unat a div 4), b64_char (unat a mod 4 * 16), CHR ''='', CHR ''='']"
| "b64encode [a, b] = [b64_char (unat a div 4), b64_char (unat a mod 4 * 16 + unat b div 16),
     b64_char (unat b mod 16 * 4), CHR ''='']"
| "b64encode (a # b # c # bs) = b64_char (unat a div 4) # b64_char (unat a mod 4 * 16 + unat b div 16) #
     b64_char (unat b mod 16 * 4 + unat c div 64) # b64_char (unat c mod 64) # b64encode bs"

text \<open>
  \<open>binascii.a2b_base64\<close>: characters outside the alphabet are skipped; \<open>q\<close> is the position in the
  group of four, \<open>left\<close> the bits not yet written, \<open>pads\<close> the padding characters in a row.
\<close>

fun b64_scan :: "string \<Rightarrow> nat \<Rightarrow> nat \<Rightarrow> nat \<Rightarrow> bytes option" where
  "b64_scan [] q left pads = (if q = 0 then Some [] else None)"
| "b64_scan (c # cs) q left pads =
     (if c = CHR ''='' then
        (if 2 \<le> q then (if 4 \<le> q + Suc pads then Some [] else b64_scan cs q left (Suc pads))
         else b64_scan cs q left pads)
      else (case b64_val c of
          None \<Rightarrow> b64_scan cs q left pads
        | Some v \<Rightarrow>
            (if q = 0 then b64_scan cs 1 v 0
             else if q = 1 then map_option ((#) (word_of_nat (left * 4 + v div 16))) (b64_scan cs 2 (v mod 16) 0)
             else if q = 2 then map_option ((#) (word_of_nat (left * 16 + v div 4))) (b64_scan cs 3 (v mod 4) 0)
             else map_option ((#) (word_of_nat (left * 64 + v))) (b64_scan cs 0 0 0))))"

definition b64decode :: "string \<Rightarrow> bytes option" where
  "b64decode s = b64_scan s 0 0 0"

lemma b64_char_code: "n < 64 \<Longrightarrow> (of_char (b64_char n) :: nat) =
    (if n < 26 then 65 + n else if n < 52 then 71 + n else if n < 62 then n - 4 else if n = 62 then 43 else 47)"
  by (simp add: b64_char_def)

lemma b64_val_char:
  assumes "n < 64" shows "b64_val (b64_char n) = Some n" "b64_char n \<noteq> CHR ''=''"
proof -
  show "b64_val (b64_char n) = Some n"
    unfolding b64_val_def Let_def b64_char_code [OF assms] using assms by (auto split: if_splits)
  have "(of_char (b64_char n) :: nat) \<noteq> 61" unfolding b64_char_code [OF assms] using assms by auto
  then show "b64_char n \<noteq> CHR ''=''" unfolding char_eq_nat by simp
qed

lemma unat_byte: "unat (a :: 8 word) < 256"
  using unsigned_less [of a, where 'a = nat] by simp

lemma byte_bounds:
  "unat (a :: 8 word) div 4 < 64" "unat a div 16 < 16" "unat a div 64 < 4" "unat a mod 64 < 64" "unat a mod 16 < 16"
  using unat_byte [of a] by auto

lemma small_bounds: "m < 4 \<Longrightarrow> k < 16 \<Longrightarrow> m * 16 + k < (64 :: nat)" "m < 16 \<Longrightarrow> k < 4 \<Longrightarrow> m * 4 + k < (64 :: nat)"
  by auto

lemma join_nat:
  "k < 16 \<Longrightarrow> x div 4 * 4 + (x mod 4 * 16 + k) div 16 = (x :: nat)"
  "k < 4 \<Longrightarrow> (m * 16 + x div 16) mod 16 = x div 16 \<Longrightarrow> x div 16 * 16 + (x mod 16 * 4 + k) div 4 = (x :: nat)"
  by simp_all

lemma mod_join:
  "k < 16 \<Longrightarrow> (m * 16 + k) mod 16 = (k :: nat)" "k < 4 \<Longrightarrow> (m * 4 + k) mod 4 = (k :: nat)"
  by simp_all

lemma b64_roundtrip_scan: "b64_scan (b64encode bs) 0 0 0 = Some bs"
proof (induction bs rule: b64encode.induct)
  case (2 a)
  have "unat a mod 4 * 16 < 64" by simp
  moreover have "unat a div 4 * 4 + unat a mod 4 * 16 div 16 = unat a" by simp
  ultimately show ?case using byte_bounds [of a] by (simp add: b64_val_char)
next
  case (3 a b)
  have l: "unat a mod 4 * 16 + unat b div 16 < 64" "unat b mod 16 * 4 < 64"
    using small_bounds(1) [of "unat a mod 4" "unat b div 16"] byte_bounds [of b] by simp_all
  have "unat a div 4 * 4 + (unat a mod 4 * 16 + unat b div 16) div 16 = unat a"
    using byte_bounds(2) [of b] by (rule join_nat(1))
  moreover have "(unat a mod 4 * 16 + unat b div 16) mod 16 = unat b div 16"
    using byte_bounds(2) [of b] by (rule mod_join(1))
  moreover have "unat b div 16 * 16 + unat b mod 16 * 4 div 4 = unat b" by simp
  ultimately show ?case using l byte_bounds [of a] by (simp add: b64_val_char del: mod_mult_self3 mod_mult_self4)
next
  case (4 a b c bs)
  have l: "unat a mod 4 * 16 + unat b div 16 < 64" by (rule small_bounds(1)) (simp_all add: byte_bounds(2))
  have m: "unat b mod 16 * 4 + unat c div 64 < 64" by (rule small_bounds(2)) (rule byte_bounds)+
  have "unat a div 4 * 4 + (unat a mod 4 * 16 + unat b div 16) div 16 = unat a"
    using byte_bounds(2) [of b] by (rule join_nat(1))
  moreover have "(unat a mod 4 * 16 + unat b div 16) mod 16 = unat b div 16"
    using byte_bounds(2) [of b] by (rule mod_join(1))
  moreover have "unat b div 16 * 16 + (unat b mod 16 * 4 + unat c div 64) div 4 = unat b"
    using byte_bounds(3) [of c] by simp
  moreover have "(unat b mod 16 * 4 + unat c div 64) mod 4 = unat c div 64"
    using byte_bounds(3) [of c] by (rule mod_join(2))
  moreover have "unat c div 64 * 64 + unat c mod 64 = unat c" by simp
  ultimately show ?case using 4 l m byte_bounds [of a] byte_bounds [of c] by (simp add: b64_val_char)
qed simp

theorem b64_roundtrip: "b64decode (b64encode bs) = Some bs"
  by (simp add: b64decode_def b64_roundtrip_scan)


section \<open>One run on each side of the pipe\<close>

datatype out_value = OutBytes bytes | OutOther string

type_synonym entry = "(string, bytes) dict \<Rightarrow> params \<Rightarrow> bool \<Rightarrow> string + (string \<times> string \<times> out_value) list"

definition json_truthy :: "json \<Rightarrow> bool" where
  "json_truthy v = (case v of JNull \<Rightarrow> False | JBool b \<Rightarrow> b | JInt i \<Rightarrow> i \<noteq> 0
     | JFloat t \<Rightarrow> t \<notin> {''0.0'', ''-0.0''} | JStr s \<Rightarrow> s \<noteq> [] | JArr xs \<Rightarrow> xs \<noteq> [] | JObj kvs \<Rightarrow> kvs \<noteq> [])"

text \<open>\<open>_run\<close> of the runner. Text before the first colon of the entry is the module, the rest the attribute.\<close>

fun decode_inputs :: "(string \<times> json) list \<Rightarrow> (string \<times> bytes) list option" where
  "decode_inputs [] = Some []"
| "decode_inputs ((port, v) # kvs) = (case v of
     JStr s \<Rightarrow> (case b64decode s of
        None \<Rightarrow> None | Some b \<Rightarrow> map_option ((#) (port, b)) (decode_inputs kvs))
   | _ \<Rightarrow> None)"

fun encode_outputs :: "(string \<times> string \<times> out_value) list \<Rightarrow> string + (string \<times> json) list" where
  "encode_outputs [] = Inr []"
| "encode_outputs ((port, ty, v) # outs) = (case v of
     OutOther cls \<Rightarrow> Inl (''TypeError: output port '' @ port @ '' produced '' @ cls @ '', expected bytes'')
   | OutBytes b \<Rightarrow> ebind (encode_outputs outs)
       (\<lambda>js. Inr ((port, JObj [(''type'', JStr ty), (''data'', JStr (b64encode b))]) # js)))"

definition split_entry :: "string \<Rightarrow> string \<times> string" where
  "split_entry e = (takeWhile (\<lambda>c. c \<noteq> CHR '':'') e, tl (dropWhile (\<lambda>c. c \<noteq> CHR '':'') e))"

definition runner_run ::
  "(json \<Rightarrow> string) \<Rightarrow> (string \<Rightarrow> string \<Rightarrow> string \<Rightarrow> string + entry) \<Rightarrow> json \<Rightarrow> string + json" where
  "runner_run xt entries req = (case req of
     JObj d \<Rightarrow>
       (case (dict_get d ''src'', dict_get d ''entry'', dict_get d ''inputs'', dict_get d ''params'', dict_get d ''draft'') of
          (Some (JStr src), Some (JStr e), Some (JObj ins), Some (JObj ps), Some dr) \<Rightarrow>
            (case split_entry e of (md, attr) \<Rightarrow>
             ebind (entries src md attr) (\<lambda>f.
               case decode_inputs ins of
                 None \<Rightarrow> Inl (xt req)
               | Some inputs \<Rightarrow>
                   ebind (f inputs ps (json_truthy dr)) (\<lambda>produced.
                     ebind (encode_outputs produced) (\<lambda>outs.
                       Inr (JObj [(''ok'', JBool True), (''outputs'', JObj outs)])))))
        | _ \<Rightarrow> Inl (xt req))
   | _ \<Rightarrow> Inl (xt req))"

text \<open>\<open>serve\<close>: one reply line for each line that is not blank.\<close>

definition runner_reply ::
  "(string \<Rightarrow> string) \<Rightarrow> (json \<Rightarrow> string) \<Rightarrow> (string \<Rightarrow> string \<Rightarrow> string \<Rightarrow> string + entry) \<Rightarrow> string \<Rightarrow> string option" where
  "runner_reply fc xt entries line =
     (if list_all py_space line then None
      else Some (dumps '', '' '': ''
        (case (case loads fc line of None \<Rightarrow> Inl (xt (JStr line)) | Some req \<Rightarrow> runner_run xt entries req) of
           Inl e \<Rightarrow> JObj [(''ok'', JBool False), (''error'', JStr e)] | Inr r \<Rightarrow> r) @ [CHR 0x0A]))"

fun serve :: "(string \<Rightarrow> string) \<Rightarrow> (json \<Rightarrow> string) \<Rightarrow> (string \<Rightarrow> string \<Rightarrow> string \<Rightarrow> string + entry) \<Rightarrow> string list \<Rightarrow> string list" where
  "serve fc xt entries [] = []"
| "serve fc xt entries (l # ls) = (case runner_reply fc xt entries l of
     None \<Rightarrow> serve fc xt entries ls | Some r \<Rightarrow> r # serve fc xt entries ls)"

text \<open>\<open>IsolatedModule.run\<close> over \<open>send\<close>, the request to the worker.\<close>

definition isolated_request :: "string \<Rightarrow> string \<Rightarrow> (string, bytes) dict \<Rightarrow> params \<Rightarrow> bool \<Rightarrow> json" where
  "isolated_request src entry inputs ps draft = JObj [(''src'', JStr src), (''entry'', JStr entry),
     (''inputs'', JObj (map (\<lambda>(port, b). (port, JStr (b64encode b))) inputs)),
     (''params'', JObj ps), (''draft'', JBool draft)]"

fun decode_outputs :: "(string \<times> json) list \<Rightarrow> py_exn + results" where
  "decode_outputs [] = Inr []"
| "decode_outputs ((port, out) # kvs) = (case out of
     JObj o_fields \<Rightarrow>
       (case (dict_get o_fields ''type'', dict_get o_fields ''data'') of
          (Some (JStr ty), Some (JStr s)) \<Rightarrow>
            (case b64decode s of
               None \<Rightarrow> Inl (PyError ''Incorrect padding'')
             | Some b \<Rightarrow> ebind (decode_outputs kvs) (\<lambda>rs. Inr ((port, \<lparr>r_type = ty, r_data = b\<rparr>) # rs)))
        | _ \<Rightarrow> Inl (PyError ''malformed output''))
   | _ \<Rightarrow> Inl (PyError ''malformed output''))"

definition isolated_run ::
  "(json \<Rightarrow> string) \<Rightarrow> string \<Rightarrow> string \<Rightarrow> string \<Rightarrow> (json \<Rightarrow> py_exn + json) \<Rightarrow>
     (string, bytes) dict \<Rightarrow> params \<Rightarrow> bool \<Rightarrow> py_exn + results" where
  "isolated_run py_text name entry src send inputs ps draft =
     ebind (send (isolated_request src entry inputs ps draft)) (\<lambda>response.
       case response of
         JObj d \<Rightarrow>
           (if \<not> (case dict_get d ''ok'' of None \<Rightarrow> False | Some v \<Rightarrow> json_truthy v)
            then Inl (ModuleError (''module '' @ name @ '' failed: '' @
              (case dict_get d ''error'' of None \<Rightarrow> ''None'' | Some (JStr s) \<Rightarrow> s | Some v \<Rightarrow> py_text v)))
            else (case dict_get d ''outputs'' of
                Some (JObj outs) \<Rightarrow> decode_outputs outs
              | _ \<Rightarrow> Inl (PyError ''malformed response'')))
       | _ \<Rightarrow> Inl (PyError ''malformed response''))"


section \<open>The worker\<close>

text \<open>
  \<open>os_view\<close> is what the operating system shows one request: whether the current process is dead,
  the error of starting one, and what happens on the pipe; a watchdog that fires kills the
  process, which ends the read. \<open>wk_live\<close> lists the processes that were started and not yet
  seen dead or killed.
\<close>

datatype pipe = PipeBroken string | PipeEof string bool | PipeLine string

record os_view =
  ov_dead :: bool
  ov_spawn :: "string option"
  ov_pipe :: pipe

record worker =
  wk_proc :: "nat option"
  wk_next :: nat
  wk_live :: "nat list"

definition worker_start :: worker where
  "worker_start = \<lparr>wk_proc = None, wk_next = 0, wk_live = []\<rparr>"

definition ensure_started :: "string \<Rightarrow> os_view \<Rightarrow> worker \<Rightarrow> (py_exn + unit) \<times> worker" where
  "ensure_started name os w =
     (if wk_proc w = None \<or> ov_dead os then
        (let gone = (case wk_proc w of None \<Rightarrow> wk_live w | Some p \<Rightarrow> removeAll p (wk_live w)) in
         case ov_spawn os of
           Some e \<Rightarrow> (Inl (ModuleError (''failed to start worker for extension '' @ name @ '': '' @ e)), w\<lparr>wk_live := gone\<rparr>)
         | None \<Rightarrow> (Inr (), \<lparr>wk_proc = Some (wk_next w), wk_next = Suc (wk_next w), wk_live = gone @ [wk_next w]\<rparr>))
      else (Inr (), w))"

definition worker_stop :: "worker \<Rightarrow> worker" where
  "worker_stop w = (case wk_proc w of
     None \<Rightarrow> w | Some p \<Rightarrow> w\<lparr>wk_proc := None, wk_live := removeAll p (wk_live w)\<rparr>)"

definition request_line :: "json \<Rightarrow> string" where
  "request_line req = dumps '', '' '': '' req @ [CHR 0x0A]"

definition worker_request ::
  "(string \<Rightarrow> string) \<Rightarrow> string \<Rightarrow> string \<Rightarrow> os_view \<Rightarrow> worker \<Rightarrow> (py_exn + json) \<times> worker" where
  "worker_request fc name context os w = (case ensure_started name os w of
     (Inl e, w1) \<Rightarrow> (Inl e, w1)
   | (Inr u, w1) \<Rightarrow>
       (case ov_pipe os of
          PipeBroken e \<Rightarrow> (Inl (ModuleError (context @ '': worker pipe failed: '' @ e)), worker_stop w1)
        | PipeEof code timed_out \<Rightarrow>
            (Inl (ModuleError (if timed_out then context @ '': timed out after 600s''
               else context @ '': worker exited with '' @ code)), worker_stop w1)
        | PipeLine line \<Rightarrow>
            (case loads fc line of
               None \<Rightarrow> (Inl (ModuleError (context @ '': worker returned invalid output'')), worker_stop w1)
             | Some v \<Rightarrow> (Inr v, w1))))"

definition worker_ok :: "worker \<Rightarrow> bool" where
  "worker_ok w \<longleftrightarrow> set (wk_live w) \<subseteq> set_option (wk_proc w) \<and> distinct (wk_live w) \<and> (\<forall>p \<in> set_option (wk_proc w). p < wk_next w)"

lemma worker_ok_start: "worker_ok worker_start"
  by (simp add: worker_ok_def worker_start_def)

lemma removeAll_only: "set xs \<subseteq> {a} \<Longrightarrow> removeAll a xs = []"
  by (induction xs) auto

lemma worker_ok_stop: "worker_ok w \<Longrightarrow> worker_ok (worker_stop w) \<and> wk_live (worker_stop w) = []"
  by (cases "wk_proc w") (auto simp: worker_ok_def worker_stop_def removeAll_only)

lemma worker_ok_started:
  assumes "worker_ok w" and "ensure_started name os w = (r, w')"
  shows "worker_ok w'" and "r = Inr () \<Longrightarrow> wk_proc w' \<noteq> None"
proof -
  have "(case wk_proc w of None \<Rightarrow> wk_live w | Some p \<Rightarrow> removeAll p (wk_live w)) = []"
    using assms(1) by (cases "wk_proc w") (auto simp: worker_ok_def removeAll_only)
  then show "worker_ok w'" "r = Inr () \<Longrightarrow> wk_proc w' \<noteq> None"
    using assms by (auto simp: ensure_started_def worker_ok_def Let_def split: if_splits option.splits)
qed

theorem worker_ok_request:
  assumes "worker_ok w" and "worker_request fc name context os w = (r, w')"
  shows "worker_ok w' \<and> (\<forall>e. r = Inl e \<longrightarrow> wk_live w' = []) \<and> (\<forall>v. r = Inr v \<longrightarrow> wk_proc w' \<noteq> None)"
proof -
  obtain r1 w1 where st: "ensure_started name os w = (r1, w1)" by fastforce
  note ok = worker_ok_started [OF assms(1) st]
  have stop: "worker_ok (worker_stop w1) \<and> wk_live (worker_stop w1) = []" by (rule worker_ok_stop [OF ok(1)])
  show ?thesis
  proof (cases r1)
    case (Inl e)
    have "(case wk_proc w of None \<Rightarrow> wk_live w | Some p \<Rightarrow> removeAll p (wk_live w)) = []"
      using assms(1) by (cases "wk_proc w") (auto simp: worker_ok_def removeAll_only)
    then have "wk_live w1 = []"
      using st Inl by (auto simp: ensure_started_def Let_def split: if_splits option.splits)
    then show ?thesis using assms(2) st Inl ok(1) by (auto simp: worker_request_def)
  next
    case (Inr u)
    then show ?thesis using assms(2) st stop ok
      by (auto simp: worker_request_def split: pipe.splits option.splits)
  qed
qed

section \<open>The extension as seen through the pipe\<close>

lemma loads_dumps_ws:
  assumes wf: "wf_json fc v" and sep: "sep_ok CHR '','' isep" "sep_ok CHR '':'' ksep" and w: "list_all is_ws w"
  shows "loads fc (dumps isep ksep v @ w) = Some v"
proof -
  let ?t = "dumps isep ksep v @ w"
  have d: "delimited w" using w by (cases w) (auto simp: delimited_def is_ws_def num_char_def is_digit_def)
  obtain n0 where n0: "\<And>n. n0 \<le> n \<Longrightarrow> parse_value fc n ?t = Some (v, w)"
    using reads_dumps [OF sep wf] d unfolding reads_def by metis
  have "parse_value fc (2 * length ?t + 1) ?t = parse_value fc (max n0 (2 * length ?t + 1)) ?t"
    by (rule parse_value_stable) auto
  moreover have "skip_ws w = []" using skip_ws_append [OF w, of "[]"] by simp
  ultimately show ?thesis
    using n0 [of "max n0 (2 * length ?t + 1)"] skip_ws_dumps [OF wf, of isep ksep w]
    by (simp add: loads_def Let_def del: parse_value.simps)
qed

definition runner_os ::
  "(string \<Rightarrow> string) \<Rightarrow> (json \<Rightarrow> string) \<Rightarrow> (string \<Rightarrow> string \<Rightarrow> string \<Rightarrow> string + entry) \<Rightarrow> bool \<Rightarrow> json \<Rightarrow> os_view" where
  "runner_os fc xt entries dead req = \<lparr>ov_dead = dead, ov_spawn = None,
     ov_pipe = (case serve fc xt entries [request_line req] of [] \<Rightarrow> PipeEof ''0'' False | l # ls \<Rightarrow> PipeLine l)\<rparr>"

text \<open>What the extension's entry gives, with the results as the engine's.\<close>

definition entry_results :: "(string \<times> string \<times> out_value) list \<Rightarrow> string + results" where
  "entry_results outs = ebind (encode_outputs outs) (\<lambda>js. Inr (map (\<lambda>(port, ty, v).
     (port, \<lparr>r_type = ty, r_data = (case v of OutBytes b \<Rightarrow> b | OutOther cls \<Rightarrow> [])\<rparr>)) outs))"

definition entry_run ::
  "(string \<Rightarrow> string \<Rightarrow> string \<Rightarrow> string + entry) \<Rightarrow> string \<Rightarrow> string \<Rightarrow> (string, bytes) dict \<Rightarrow> params \<Rightarrow> bool \<Rightarrow> string + results" where
  "entry_run entries src e inputs ps draft = (case split_entry e of (md, attr) \<Rightarrow>
     ebind (entries src md attr) (\<lambda>f. ebind (f inputs ps draft) entry_results))"

lemma decode_inputs_encode: "decode_inputs (map (\<lambda>(port, b). (port, JStr (b64encode b))) inputs) = Some inputs"
  by (induction inputs) (auto simp: b64_roundtrip)

lemma encode_outputs_keys: "encode_outputs outs = Inr js \<Longrightarrow> map fst js = map fst outs"
  by (induction outs arbitrary: js rule: encode_outputs.induct) (auto simp: ebind_Inr split: out_value.splits)

lemma encode_outputs_wf: "encode_outputs outs = Inr js \<Longrightarrow> list_all (\<lambda>(k, v). wf_json fc v) js"
  by (induction outs arbitrary: js rule: encode_outputs.induct) (auto simp: ebind_Inr split: out_value.splits)

lemma decode_outputs_encode:
  "encode_outputs outs = Inr js \<Longrightarrow> decode_outputs js = Inr (map (\<lambda>(port, ty, v).
     (port, \<lparr>r_type = ty, r_data = (case v of OutBytes b \<Rightarrow> b | OutOther cls \<Rightarrow> [])\<rparr>)) outs)"
  by (induction outs arbitrary: js rule: encode_outputs.induct)
    (auto simp: ebind_Inr b64_roundtrip split: out_value.splits)

definition runner_response :: "string + json \<Rightarrow> json" where
  "runner_response r = (case r of Inl e \<Rightarrow> JObj [(''ok'', JBool False), (''error'', JStr e)] | Inr v \<Rightarrow> v)"

lemma runner_run_request:
  "runner_run xt entries (isolated_request src e inputs ps draft) =
    (case split_entry e of (md, attr) \<Rightarrow> ebind (entries src md attr) (\<lambda>f. ebind (f inputs ps draft) (\<lambda>outs.
       ebind (encode_outputs outs) (\<lambda>js. Inr (JObj [(''ok'', JBool True), (''outputs'', JObj js)])))))"
  by (simp add: runner_run_def isolated_request_def decode_inputs_encode json_truthy_def split: prod.splits)

theorem isolated_run_entry:
  assumes ok: "dict_ok inputs" and wf: "wf_json fc (JObj ps)"
    and outs: "\<And>md attr f os. entries src md attr = Inr f \<Longrightarrow> f inputs ps draft = Inr os \<Longrightarrow> distinct (map fst os)"
  shows "isolated_run pt name e src
      (\<lambda>req. fst (worker_request fc ext context (runner_os fc xt entries dead req) w)) inputs ps draft =
    (case entry_run entries src e inputs ps draft of
       Inl msg \<Rightarrow> Inl (ModuleError (''module '' @ name @ '' failed: '' @ msg)) | Inr rs \<Rightarrow> Inr rs)"
proof -
  let ?req = "isolated_request src e inputs ps draft"
  let ?res = "runner_run xt entries ?req" and ?v = "runner_response (runner_run xt entries ?req)"
  have wreq: "wf_json fc ?req"
    using ok wf by (auto simp: isolated_request_def dict_ok_def list_all_iff comp_def case_prod_beta)
  have nl: "list_all is_ws [CHR 0x0A]" by (simp add: is_ws_def)
  have l1: "loads fc (request_line ?req) = Some ?req"
    unfolding request_line_def by (intro loads_dumps_ws wreq nl) simp_all
  have nb: "\<not> list_all py_space (request_line ?req)"
    by (simp add: request_line_def isolated_request_def py_space_def)
  have wv: "wf_json fc ?v"
    unfolding runner_run_request runner_response_def
    using outs encode_outputs_keys encode_outputs_wf
    by (auto split: prod.splits sum.splits simp: ebind_def)
  have "runner_reply fc xt entries (request_line ?req) = Some (dumps '', '' '': '' ?v @ [CHR 0x0A])"
    using nb l1 by (simp add: runner_reply_def runner_response_def)
  moreover have "loads fc (dumps '', '' '': '' ?v @ [CHR 0x0A]) = Some ?v"
    by (intro loads_dumps_ws wv nl) simp_all
  moreover have "\<exists>w1. ensure_started ext (runner_os fc xt entries dead ?req) w = (Inr (), w1)"
    by (auto simp: ensure_started_def runner_os_def Let_def)
  ultimately have send: "fst (worker_request fc ext context (runner_os fc xt entries dead ?req) w) = Inr ?v"
    by (auto simp: worker_request_def) (simp add: runner_os_def)
  show ?thesis
    unfolding isolated_run_def send
    by (auto simp: runner_run_request runner_response_def entry_run_def entry_results_def ebind_def json_truthy_def
        decode_outputs_encode split: sum.splits prod.splits)
qed

end
