(* ===== verification/EventLog.thy ===== *)
theory EventLog
  imports Registry "HOL-Library.Sublist"
begin

text \<open>
  \<^verbatim>\<open>jobs.py\<close> (\<open>Event\<close>, \<open>EventLog\<close>) and the \<open>stream\<close> generator of \<^verbatim>\<open>app.py\<close>: the append-only log of a
  session and its event-stream frames. The generator's clock counts milliseconds; in the
  code's binary floats the sum of the polls of 0.05 s also reaches 15.0 at the 300th poll.
  \<open>sse_read\<close> is a client that reads the format as the event-stream standard says; it is what the
  frames are measured against, not code of the server.
\<close>

section \<open>Events and the log\<close>

record event =
  ev_index :: nat
  ev_type :: string
  ev_data :: params

definition newline :: char where
  "newline = CHR 0x0A"

definition event_sse :: "event \<Rightarrow> string" where
  "event_sse e = ''id: '' @ show_nat (ev_index e) @ newline # ''event: '' @ ev_type e @ newline #
     ''data: '' @ dumps '','' '':'' (JObj (ev_data e)) @ [newline, newline]"

type_synonym event_log = "event list"

definition log_append :: "string \<Rightarrow> params \<Rightarrow> event_log \<Rightarrow> event_log" where
  "log_append ty data l = l @ [\<lparr>ev_index = length l, ev_type = ty, ev_data = data\<rparr>]"

definition log_since :: "event_log \<Rightarrow> nat \<Rightarrow> event list" where
  "log_since l i = drop i l"

text \<open>An event's index is its position, its type is one line and its data are a JSON object.\<close>

definition event_ok :: "(string \<Rightarrow> string) \<Rightarrow> event \<Rightarrow> bool" where
  "event_ok fc e \<longleftrightarrow> newline \<notin> set (ev_type e) \<and> wf_json fc (JObj (ev_data e))"

definition log_ok :: "event_log \<Rightarrow> bool" where
  "log_ok l \<longleftrightarrow> map ev_index l = [0..<length l]"

lemma log_ok_Nil [simp]: "log_ok []"
  by (simp add: log_ok_def)

lemma log_ok_append [simp, intro]: "log_ok l \<Longrightarrow> log_ok (log_append ty data l)"
  by (simp add: log_ok_def log_append_def)

lemma log_ok_last: "log_ok l \<Longrightarrow> i < length l \<Longrightarrow> ev_index (last (drop i l)) = length l - 1"
  unfolding log_ok_def using nth_map [of "length l - 1" l ev_index]
  by (simp add: last_drop last_conv_nth)

section \<open>The contract of an append-only log\<close>

locale append_log =
  fixes contents :: "'l \<Rightarrow> 'e list"
    and append_to :: "'x \<Rightarrow> 'l \<Rightarrow> 'l"
    and since :: "'l \<Rightarrow> nat \<Rightarrow> 'e list"
  assumes append_contents: "\<exists>e. contents (append_to x l) = contents l @ [e]"
    and since_contents: "since l i = drop i (contents l)"
begin

lemma append_all: "\<exists>es. contents (fold append_to xs l) = contents l @ es \<and> length es = length xs"
proof (induction xs arbitrary: l)
  case (Cons x xs)
  obtain e where "contents (append_to x l) = contents l @ [e]" using append_contents by blast
  with Cons [of "append_to x l"] show ?case by auto
qed simp

lemma reads_join:
  "contents l' = contents l @ es \<Longrightarrow> i \<le> length (contents l) \<Longrightarrow>
     since l i @ since l' (length (contents l)) = since l' i"
  by (simp add: since_contents)

lemma append_since: "i \<le> length (contents l) \<Longrightarrow> since l i = es \<Longrightarrow> \<exists>e. since (append_to x l) i = es @ [e]"
  using append_contents [of x l] by (auto simp: since_contents)

end

interpretation event_log: append_log "\<lambda>l. l" "\<lambda>(ty, data). log_append ty data" log_since
  by unfold_locales (auto simp: log_append_def log_since_def)

section \<open>The stream generator\<close>

definition poll_ms :: nat where
  "poll_ms = 50"

definition keepalive_ms :: nat where
  "keepalive_ms = 15000"

definition keepalive :: string where
  "keepalive = '': keepalive'' @ [newline, newline]"

record stream_state =
  ss_cursor :: nat
  ss_idle :: nat

definition stream_start :: stream_state where
  "stream_start = \<lparr>ss_cursor = 0, ss_idle = 0\<rparr>"

definition stream_poll :: "event_log \<Rightarrow> stream_state \<Rightarrow> string list \<times> stream_state" where
  "stream_poll l ss =
     (let fresh = log_since l (ss_cursor ss) in
      if fresh \<noteq> [] then (map event_sse fresh, \<lparr>ss_cursor = ev_index (last fresh) + 1, ss_idle = 0\<rparr>)
      else
        (let idle = ss_idle ss + poll_ms in
         if keepalive_ms \<le> idle then ([keepalive], ss\<lparr>ss_idle := 0\<rparr>) else ([], ss\<lparr>ss_idle := idle\<rparr>)))"

text \<open>The generator run over the log as each of its polls finds it.\<close>

fun stream_run :: "event_log list \<Rightarrow> stream_state \<Rightarrow> string list \<times> stream_state" where
  "stream_run [] ss = ([], ss)"
| "stream_run (l # ls) ss =
     (case stream_poll l ss of (out, ss') \<Rightarrow>
      case stream_run ls ss' of (outs, ss'') \<Rightarrow> (out @ outs, ss''))"

section \<open>A client of the stream\<close>

fun cut_lines :: "string \<Rightarrow> string \<Rightarrow> string list" where
  "cut_lines cur [] = []"
| "cut_lines cur (c # cs) = (if c = newline then cur # cut_lines [] cs else cut_lines (cur @ [c]) cs)"

fun dispatch :: "string list \<Rightarrow> string \<Rightarrow> string \<Rightarrow> string \<Rightarrow> (string \<times> string \<times> string) list" where
  "dispatch [] i t d = []"
| "dispatch (l # ls) i t d =
     (if l = [] then (if d = [] then dispatch ls i [] [] else (i, t, d) # dispatch ls i [] [])
      else (case strip_prefix ''id: '' l of
        Some v \<Rightarrow> dispatch ls v t d
      | None \<Rightarrow> (case strip_prefix ''event: '' l of
          Some v \<Rightarrow> dispatch ls i v d
        | None \<Rightarrow> (case strip_prefix ''data: '' l of
            Some v \<Rightarrow> dispatch ls i t (if d = [] then v else d @ newline # v)
          | None \<Rightarrow> dispatch ls i t d))))"

definition sse_read_from :: "string \<Rightarrow> string \<Rightarrow> (string \<times> string \<times> string) list" where
  "sse_read_from i s = dispatch (cut_lines [] s) i [] []"

definition sse_read :: "string \<Rightarrow> (string \<times> string \<times> string) list" where
  "sse_read s = sse_read_from [] s"

definition frame_of :: "event \<Rightarrow> string \<times> string \<times> string" where
  "frame_of e = (show_nat (ev_index e), ev_type e, dumps '','' '':'' (JObj (ev_data e)))"

lemma cut_lines_line: "newline \<notin> set l \<Longrightarrow> cut_lines cur (l @ newline # s) = (cur @ l) # cut_lines [] s"
  by (induction l arbitrary: cur) auto

lemma printable_newline: "list_all printable s \<Longrightarrow> newline \<notin> set s"
  by (auto simp: newline_def printable_def list_all_iff)

lemma newline_data: "wf_json fc (JObj d) \<Longrightarrow> newline \<notin> set (dumps '','' '':'' (JObj d))"
  by (rule printable_newline, rule printable_dumps [where fc = fc]) (simp_all add: printable_def)

lemma newline_nat: "newline \<notin> set (show_nat n)"
  using printable_show_int [of "int n"] by (auto simp: show_int_def dest!: printable_newline)

lemma read_event:
  assumes "event_ok fc e"
  shows "sse_read_from i (event_sse e @ s) = frame_of e # sse_read_from (show_nat (ev_index e)) s"
proof -
  let ?i = "''id: '' @ show_nat (ev_index e)" and ?t = "''event: '' @ ev_type e"
  let ?d = "''data: '' @ dumps '','' '':'' (JObj (ev_data e))"
  have n: "newline \<notin> set ?i" "newline \<notin> set ?t" "newline \<notin> set ?d"
    using assms newline_nat [of "ev_index e"] newline_data [of fc "ev_data e"]
    by (auto simp: event_ok_def, simp_all add: newline_def)
  have s: "event_sse e @ s = ?i @ newline # ?t @ newline # ?d @ newline # [] @ newline # s"
    by (simp add: event_sse_def)
  have "cut_lines [] (event_sse e @ s) = [?i, ?t, ?d, []] @ cut_lines [] s"
    unfolding s cut_lines_line [OF n(1)] cut_lines_line [OF n(2)] cut_lines_line [OF n(3)] by simp
  then show ?thesis
    by (simp add: sse_read_from_def frame_of_def strip_prefix_def)
qed

lemma read_keepalive: "sse_read_from i (keepalive @ s) = sse_read_from i s"
  by (simp add: sse_read_from_def keepalive_def newline_def strip_prefix_def)

lemma read_events:
  "list_all (event_ok fc) es \<Longrightarrow>
     \<exists>j. sse_read_from i (concat (map event_sse es) @ s) = map frame_of es @ sse_read_from j s"
  by (induction es arbitrary: i) (auto simp: read_event)

text \<open>One poll: what the client reads is what is new, and the cursor is at the end of the log.\<close>

lemma poll_reads:
  assumes "log_ok l" and "list_all (event_ok fc) l" and "ss_cursor ss \<le> length l"
    and "stream_poll l ss = (out, ss')"
  shows "ss_cursor ss' = length l \<and>
    (\<exists>j. sse_read_from i (concat out @ s) = map frame_of (log_since l (ss_cursor ss)) @ sse_read_from j s)"
proof (cases "ss_cursor ss < length l")
  case True
  have "list_all (event_ok fc) (drop (ss_cursor ss) l)"
    using assms(2) by (auto simp: list_all_iff dest: in_set_dropD)
  from read_events [OF this, of i s] show ?thesis
    using True assms(4) log_ok_last [OF assms(1) True]
    by (auto simp: stream_poll_def log_since_def Let_def)
next
  case False
  then show ?thesis using assms(3,4)
    by (auto simp: stream_poll_def log_since_def Let_def read_keepalive split: if_splits)
qed

text \<open>Over a growing log the client reads the log, from the cursor on, without a gap.\<close>

theorem stream_reads:
  assumes "\<forall>l \<in> set ls. log_ok l \<and> list_all (event_ok fc) l"
    and "sorted_wrt prefix ls" and "ls \<noteq> []" and "ss_cursor ss \<le> length (hd ls)"
    and "stream_run ls ss = (out, ss')"
  shows "ss_cursor ss' = length (last ls) \<and>
    sse_read_from i (concat out) = map frame_of (log_since (last ls) (ss_cursor ss))"
  using assms
proof (induction ls arbitrary: ss i out)
  case (Cons l ls)
  obtain o1 s1 where p: "stream_poll l ss = (o1, s1)" by fastforce
  obtain o2 where o2: "stream_run ls s1 = (o2, ss')" "out = o1 @ o2"
    using Cons.prems(5) p by (auto split: prod.splits)
  obtain j where j: "ss_cursor s1 = length l"
      "sse_read_from i (concat o1 @ concat o2) = map frame_of (log_since l (ss_cursor ss)) @ sse_read_from j (concat o2)"
    using poll_reads [OF _ _ _ p, of fc i "concat o2"] Cons.prems(1,4) by auto
  show ?case
  proof (cases "ls = []")
    case True
    then show ?thesis using j o2 by (auto simp: sse_read_from_def)
  next
    case False
    have pre: "prefix l (hd ls)" "prefix l (last ls)" using Cons.prems(2) False by auto
    then have "length l \<le> length (hd ls)" by (simp add: prefix_length_le)
    then have IH: "ss_cursor ss' = length (last ls)"
        "sse_read_from j (concat o2) = map frame_of (log_since (last ls) (length l))"
      using Cons.IH [of s1 o2 j] Cons.prems(1,2) False j(1) o2(1) by auto
    from pre(2) obtain es where "last ls = l @ es" by (auto simp: prefix_def)
    then show ?thesis
      using IH j(2) o2(2) False event_log.reads_join [of "last ls" l es "ss_cursor ss"] Cons.prems(4)
      by (simp flip: map_append)
  qed
qed simp

end
