(* ===== verification/ExtManifest.thy ===== *)
theory ExtManifest
  imports Worker EventLog
begin

text \<open>
  The manifest of an extension: \<open>parse_extension_manifest\<close> of \<^verbatim>\<open>extensions.py\<close> with its data. A
  parsed TOML document is a \<open>toml\<close> value, as \<open>tomllib\<close> returns it; \<open>str\<close> of a value that is neither a
  string, an integer nor a boolean is the parameter \<open>render\<close>.
\<close>

section \<open>The manifest\<close>

datatype toml =
    TStr string | TInt int | TFloat string | TBool bool | TTime string
  | TArr "toml list" | TTab "(string \<times> toml) list"

type_synonym toml_table = "(string \<times> toml) list"

text \<open>The file \<^verbatim>\<open>extension.toml\<close> of a directory: absent, unreadable, not TOML, not UTF-8, or a document.\<close>

datatype toml_file = NoToml | Unreadable string | BadToml string | NotUtf8 string | Toml toml_table

datatype ext_error =
    NoManifest
  | CannotRead string
  | DecodeError string
  | NoHeader
  | BadName string
  | NoVersion string
  | BadIsolation string string
  | BadRequirements string
  | NoModules string
  | ModuleNotTable string
  | ModuleNoName string
  | DuplicateModule string string
  | BadEntry string string
  | NoPorts string string
  | BadPort string string
  | NotADirectory
  | AlreadyInstalled string
  | ModuleTaken string
  | RootExists string
  | VenvFailed string
  | PipTimedOut
  | PipExited string
  | NotInstalled string
  | RegistryRaised registry_error

definition is_conflict :: "ext_error \<Rightarrow> bool" where
  "is_conflict e = (case e of AlreadyInstalled n \<Rightarrow> True | ModuleTaken n \<Rightarrow> True | RootExists r \<Rightarrow> True | _ \<Rightarrow> False)"

text \<open>The exceptions that are not an \<open>ExtensionError\<close>: a decoding error and an unknown isolation.\<close>

definition is_extension_error :: "ext_error \<Rightarrow> bool" where
  "is_extension_error e = (case e of DecodeError t \<Rightarrow> False | BadIsolation n i \<Rightarrow> False | RegistryRaised r \<Rightarrow> False | _ \<Rightarrow> True)"

record ext_module_spec =
  xm_manifest :: manifest
  xm_entry :: string

record ext_manifest =
  xe_name :: string
  xe_version :: string
  xe_description :: string
  xe_isolation :: string
  xe_requirements :: "string list"
  xe_modules :: "ext_module_spec list"

definition toml_truthy :: "toml \<Rightarrow> bool" where
  "toml_truthy v = (case v of TStr s \<Rightarrow> s \<noteq> [] | TInt i \<Rightarrow> i \<noteq> 0 | TFloat t \<Rightarrow> t \<notin> {''0.0'', ''-0.0''}
     | TBool b \<Rightarrow> b | TTime t \<Rightarrow> True | TArr xs \<Rightarrow> xs \<noteq> [] | TTab kvs \<Rightarrow> kvs \<noteq> [])"

definition toml_str :: "(toml \<Rightarrow> string) \<Rightarrow> toml \<Rightarrow> string" where
  "toml_str render v = (case v of TStr s \<Rightarrow> s | TInt i \<Rightarrow> show_int i
     | TBool b \<Rightarrow> (if b then ''True'' else ''False'') | _ \<Rightarrow> render v)"

definition get_str :: "(toml \<Rightarrow> string) \<Rightarrow> toml_table \<Rightarrow> string \<Rightarrow> string \<Rightarrow> string" where
  "get_str render t k d = (case dict_get t k of None \<Rightarrow> d | Some v \<Rightarrow> toml_str render v)"

definition is_lower :: "char \<Rightarrow> bool" where
  "is_lower c \<longleftrightarrow> CHR ''a'' \<le> c \<and> c \<le> CHR ''z''"

definition is_upper :: "char \<Rightarrow> bool" where
  "is_upper c \<longleftrightarrow> CHR ''A'' \<le> c \<and> c \<le> CHR ''Z''"

text \<open>The dollar of a Python regex also matches before a newline that ends the string.\<close>

definition drop_newline :: "string \<Rightarrow> string" where
  "drop_newline s = (if s \<noteq> [] \<and> last s = newline then butlast s else s)"

definition name_matches :: "string \<Rightarrow> bool" where
  "name_matches s = (case drop_newline s of
     [] \<Rightarrow> False
   | c # cs \<Rightarrow> (is_lower c \<or> is_digit c) \<and> list_all (\<lambda>c. is_lower c \<or> is_digit c \<or> c \<in> set ''._-'') cs)"

definition word_start :: "char \<Rightarrow> bool" where
  "word_start c \<longleftrightarrow> is_lower c \<or> is_upper c \<or> c = CHR ''_''"

definition entry_matches :: "string \<Rightarrow> bool" where
  "entry_matches s = (case split_entry (drop_newline s) of (md, attr) \<Rightarrow>
     CHR '':'' \<in> set s \<and>
     (case md of [] \<Rightarrow> False | c # cs \<Rightarrow> word_start c \<and> list_all (\<lambda>c. word_start c \<or> is_digit c \<or> c = CHR ''.'') cs) \<and>
     (case attr of [] \<Rightarrow> False | c # cs \<Rightarrow> word_start c \<and> list_all (\<lambda>c. word_start c \<or> is_digit c) cs))"

fun port_list :: "(toml \<Rightarrow> string) \<Rightarrow> string \<Rightarrow> string \<Rightarrow> toml list \<Rightarrow> ext_error + port_spec list" where
  "port_list render md direction [] = Inr []"
| "port_list render md direction (v # vs) = (case v of
     TTab t \<Rightarrow>
       (case (dict_get t ''name'', dict_get t ''type'') of
          (Some n, Some ty) \<Rightarrow>
            (if toml_truthy n \<and> toml_truthy ty
             then ebind (port_list render md direction vs)
               (\<lambda>ps. Inr (\<lparr>port_name = toml_str render n, port_type = toml_str render ty\<rparr> # ps))
             else Inl (BadPort md direction))
        | _ \<Rightarrow> Inl (BadPort md direction))
   | _ \<Rightarrow> Inl (BadPort md direction))"

definition parse_ports :: "(toml \<Rightarrow> string) \<Rightarrow> string \<Rightarrow> string \<Rightarrow> toml option \<Rightarrow> ext_error + port_spec list" where
  "parse_ports render md direction raw = (case raw of
     Some (TArr (v # vs)) \<Rightarrow> port_list render md direction (v # vs)
   | _ \<Rightarrow> Inl (NoPorts md direction))"

fun parse_modules ::
  "(toml \<Rightarrow> string) \<Rightarrow> string \<Rightarrow> string \<Rightarrow> string list \<Rightarrow> toml list \<Rightarrow> ext_error + ext_module_spec list" where
  "parse_modules render ext version seen [] = Inr []"
| "parse_modules render ext version seen (raw # raws) = (case raw of
     TTab t \<Rightarrow>
       (let md = get_str render t ''name'' []; entry = get_str render t ''entry'' [] in
        if md = [] then Inl (ModuleNoName ext)
        else if md \<in> set seen then Inl (DuplicateModule ext md)
        else if \<not> entry_matches entry then Inl (BadEntry md entry)
        else ebind (parse_ports render md ''input'' (dict_get t ''inputs'')) (\<lambda>ins.
          ebind (parse_ports render md ''output'' (dict_get t ''outputs'')) (\<lambda>outs.
          ebind (parse_modules render ext version (md # seen) raws) (\<lambda>specs.
            Inr (\<lparr>xm_manifest = \<lparr>m_name = md, m_version = version,
                m_description = get_str render t ''description'' [], m_inputs = ins, m_outputs = outs,
                m_isolation = ''isolated''\<rparr>, xm_entry = entry\<rparr> # specs)))))
   | _ \<Rightarrow> Inl (ModuleNotTable ext))"

definition requirement_list :: "toml option \<Rightarrow> string list option" where
  "requirement_list v = (case v of
     None \<Rightarrow> Some []
   | Some (TArr xs) \<Rightarrow>
       (if list_all (\<lambda>x. case x of TStr s \<Rightarrow> True | _ \<Rightarrow> False) xs
        then Some (map (\<lambda>x. case x of TStr s \<Rightarrow> s | _ \<Rightarrow> []) xs) else None)
   | _ \<Rightarrow> None)"

definition parse_document :: "(toml \<Rightarrow> string) \<Rightarrow> toml_table \<Rightarrow> ext_error + ext_manifest" where
  "parse_document render data = (case dict_get data ''extension'' of
     Some (TTab header) \<Rightarrow>
       (let name = get_str render header ''name'' []; version = get_str render header ''version'' [];
            isolation = get_str render header ''isolation'' ''isolated'' in
        if \<not> name_matches name then Inl (BadName name)
        else if version = [] then Inl (NoVersion name)
        else if isolation \<noteq> ''isolated'' then Inl (BadIsolation name isolation)
        else (case requirement_list (dict_get header ''requirements'') of
            None \<Rightarrow> Inl (BadRequirements name)
          | Some reqs \<Rightarrow>
              (case dict_get data ''modules'' of
                 Some (TArr (m # ms)) \<Rightarrow>
                   ebind (parse_modules render name version [] (m # ms)) (\<lambda>specs.
                     Inr \<lparr>xe_name = name, xe_version = version,
                       xe_description = get_str render header ''description'' [], xe_isolation = isolation,
                       xe_requirements = reqs, xe_modules = specs\<rparr>)
               | _ \<Rightarrow> Inl (NoModules name))))
   | _ \<Rightarrow> Inl NoHeader)"

definition parse_extension_manifest :: "(toml \<Rightarrow> string) \<Rightarrow> toml_file \<Rightarrow> ext_error + ext_manifest" where
  "parse_extension_manifest render f = (case f of
     NoToml \<Rightarrow> Inl NoManifest
   | Unreadable e \<Rightarrow> Inl (CannotRead e)
   | BadToml e \<Rightarrow> Inl (CannotRead e)
   | NotUtf8 e \<Rightarrow> Inl (DecodeError e)
   | Toml data \<Rightarrow> parse_document render data)"

section \<open>What an accepted manifest guarantees\<close>

definition module_wf :: "string \<Rightarrow> ext_module_spec \<Rightarrow> bool" where
  "module_wf version s \<longleftrightarrow> (let m = xm_manifest s in m_name m \<noteq> [] \<and> m_version m = version \<and>
     m_isolation m = ''isolated'' \<and> m_inputs m \<noteq> [] \<and> m_outputs m \<noteq> [] \<and> entry_matches (xm_entry s))"

definition ext_wf :: "ext_manifest \<Rightarrow> bool" where
  "ext_wf m \<longleftrightarrow> name_matches (xe_name m) \<and> xe_version m \<noteq> [] \<and> xe_isolation m = ''isolated'' \<and>
     xe_modules m \<noteq> [] \<and> distinct (map (\<lambda>s. m_name (xm_manifest s)) (xe_modules m)) \<and>
     list_all (module_wf (xe_version m)) (xe_modules m)"

lemma parse_ports_nonempty: "parse_ports render md dir raw = Inr ps \<Longrightarrow> ps \<noteq> []"
  by (auto simp: parse_ports_def ebind_Inr split: option.splits toml.splits list.splits if_splits prod.splits)

lemma parse_modules_wf:
  "parse_modules render ext version seen raws = Inr specs \<Longrightarrow>
     list_all (module_wf version) specs \<and> distinct (map (\<lambda>s. m_name (xm_manifest s)) specs) \<and>
     set (map (\<lambda>s. m_name (xm_manifest s)) specs) \<inter> set seen = {} \<and> length specs = length raws"
proof (induction raws arbitrary: seen specs)
  case (Cons raw raws)
  from Cons.prems obtain t where t: "raw = TTab t" by (cases raw) auto
  let ?md = "get_str render t ''name'' []"
  from Cons.prems obtain ins outs rest where p: "?md \<noteq> []" "?md \<notin> set seen"
      "entry_matches (get_str render t ''entry'' [])"
      "parse_ports render ?md ''input'' (dict_get t ''inputs'') = Inr ins"
      "parse_ports render ?md ''output'' (dict_get t ''outputs'') = Inr outs"
      "parse_modules render ext version (?md # seen) raws = Inr rest"
      "specs = \<lparr>xm_manifest = \<lparr>m_name = ?md, m_version = version, m_description = get_str render t ''description'' [],
         m_inputs = ins, m_outputs = outs, m_isolation = ''isolated''\<rparr>, xm_entry = get_str render t ''entry'' []\<rparr> # rest"
    unfolding t by (auto simp: Let_def ebind_Inr split: if_splits)
  from Cons.IH [OF p(6)] p parse_ports_nonempty [OF p(4)] parse_ports_nonempty [OF p(5)]
  show ?case by (auto simp: module_wf_def)
qed simp

lemma parse_document_Inr:
  assumes "parse_document render data = Inr m"
  obtains header raws where "dict_get data ''extension'' = Some (TTab header)"
    and "dict_get data ''modules'' = Some (TArr raws)" and "raws \<noteq> []"
    and "name_matches (xe_name m)" and "xe_version m \<noteq> []" and "xe_isolation m = ''isolated''"
    and "xe_name m = get_str render header ''name'' []"
    and "requirement_list (dict_get header ''requirements'') = Some (xe_requirements m)"
    and "parse_modules render (xe_name m) (xe_version m) [] raws = Inr (xe_modules m)"
proof -
  from assms obtain header where h: "dict_get data ''extension'' = Some (TTab header)"
    by (auto simp: parse_document_def split: option.splits toml.splits)
  note d = assms [unfolded parse_document_def h option.case toml.case Let_def]
  from d obtain reqs where r: "requirement_list (dict_get header ''requirements'') = Some reqs"
    by (cases "requirement_list (dict_get header ''requirements'')") (simp_all split: if_splits)
  from d r obtain v where v: "dict_get data ''modules'' = Some v"
    by (cases "dict_get data ''modules''") (simp_all split: if_splits)
  from d r v obtain raw raws where w: "v = TArr (raw # raws)"
    by (cases v) (simp_all split: if_splits list.splits)
  have c: "name_matches (get_str render header ''name'' [])" "get_str render header ''version'' [] \<noteq> []"
      "get_str render header ''isolation'' ''isolated'' = ''isolated''"
    using d by (simp_all split: if_splits)
  from d r v w c obtain specs where
    "parse_modules render (get_str render header ''name'' []) (get_str render header ''version'' []) [] (raw # raws) = Inr specs"
    "m = \<lparr>xe_name = get_str render header ''name'' [], xe_version = get_str render header ''version'' [],
       xe_description = get_str render header ''description'' [],
       xe_isolation = get_str render header ''isolation'' ''isolated'',
       xe_requirements = reqs, xe_modules = specs\<rparr>"
    by (auto simp only: option.case toml.case list.case ebind_Inr not_True_eq_False not_False_eq_True if_True if_False
       simp_thms sum.inject)
  then show ?thesis using that [OF h, of "raw # raws"] v w r c by simp
qed

lemma parse_document_wf:
  assumes "parse_document render data = Inr m" shows "ext_wf m"
proof -
  from assms obtain header raws where d: "raws \<noteq> []" "name_matches (xe_name m)" "xe_version m \<noteq> []"
      "xe_isolation m = ''isolated''" "parse_modules render (xe_name m) (xe_version m) [] raws = Inr (xe_modules m)"
    by (rule parse_document_Inr)
  from parse_modules_wf [OF d(5)] d show ?thesis by (auto simp: ext_wf_def)
qed

lemma parse_extension_wf: "parse_extension_manifest render f = Inr m \<Longrightarrow> ext_wf m"
  by (auto simp: parse_extension_manifest_def parse_document_wf split: toml_file.splits)

section \<open>A manifest written as TOML is read back\<close>

definition port_toml :: "port_spec \<Rightarrow> toml" where
  "port_toml p = TTab [(''name'', TStr (port_name p)), (''type'', TStr (port_type p))]"

definition module_toml :: "ext_module_spec \<Rightarrow> toml" where
  "module_toml s = (let m = xm_manifest s in
     TTab [(''name'', TStr (m_name m)), (''entry'', TStr (xm_entry s)),
       (''description'', TStr (m_description m)), (''inputs'', TArr (map port_toml (m_inputs m))),
       (''outputs'', TArr (map port_toml (m_outputs m)))])"

definition ext_toml :: "ext_manifest \<Rightarrow> toml_table" where
  "ext_toml m = [(''extension'', TTab [(''name'', TStr (xe_name m)), (''version'', TStr (xe_version m)),
       (''description'', TStr (xe_description m)), (''isolation'', TStr (xe_isolation m)),
       (''requirements'', TArr (map TStr (xe_requirements m)))]),
     (''modules'', TArr (map module_toml (xe_modules m)))]"

definition ports_named :: "port_spec list \<Rightarrow> bool" where
  "ports_named ps \<longleftrightarrow> list_all (\<lambda>p. port_name p \<noteq> [] \<and> port_type p \<noteq> []) ps"

lemma port_list_toml: "ports_named ps \<Longrightarrow> port_list render md dir (map port_toml ps) = Inr ps"
  by (induction ps) (auto simp: ports_named_def port_toml_def toml_truthy_def toml_str_def)

lemma parse_ports_toml:
  "ports_named ps \<Longrightarrow> ps \<noteq> [] \<Longrightarrow> parse_ports render md dir (Some (TArr (map port_toml ps))) = Inr ps"
  using port_list_toml [of ps render md dir] by (cases ps) (auto simp: parse_ports_def)

lemma parse_modules_toml:
  "list_all (module_wf version) specs \<Longrightarrow> distinct (map (\<lambda>s. m_name (xm_manifest s)) specs) \<Longrightarrow>
   set (map (\<lambda>s. m_name (xm_manifest s)) specs) \<inter> set seen = {} \<Longrightarrow>
   list_all (\<lambda>s. ports_named (m_inputs (xm_manifest s)) \<and> ports_named (m_outputs (xm_manifest s))) specs \<Longrightarrow>
     parse_modules render ext version seen (map module_toml specs) = Inr specs"
proof (induction specs arbitrary: seen)
  case (Cons s specs)
  have "parse_modules render ext version (m_name (xm_manifest s) # seen) (map module_toml specs) = Inr specs"
    by (rule Cons.IH) (use Cons.prems in auto)
  then show ?case
    using Cons.prems unfolding list.map module_toml_def [of s] Let_def
    by (cases s; cases "xm_manifest s") (auto simp: module_wf_def get_str_def toml_str_def parse_ports_toml)
qed simp

lemma parse_ext_toml:
  assumes "ext_wf m"
    and "list_all (\<lambda>s. ports_named (m_inputs (xm_manifest s)) \<and> ports_named (m_outputs (xm_manifest s))) (xe_modules m)"
  shows "parse_extension_manifest render (Toml (ext_toml m)) = Inr m"
proof -
  obtain s ss where s: "xe_modules m = s # ss" using assms(1) by (cases "xe_modules m") (auto simp: ext_wf_def)
  have "parse_modules render (xe_name m) (xe_version m) [] (map module_toml (xe_modules m)) = Inr (xe_modules m)"
    by (rule parse_modules_toml) (use assms in \<open>auto simp: ext_wf_def\<close>)
  moreover have "requirement_list (Some (TArr (map TStr rs))) = Some rs" for rs
    by (auto simp: requirement_list_def list_all_iff comp_def)
  ultimately show ?thesis
    using assms(1) s
    by (simp add: parse_extension_manifest_def parse_document_def ext_toml_def get_str_def toml_str_def ext_wf_def
        Let_def del: parse_modules.simps)
qed

end
