(* ===== verification/Extensions.thy ===== *)
theory Extensions
  imports ExtManifest
begin

text \<open>
  \<^verbatim>\<open>extensions.py\<close>: the installation transaction, the registration with its rollback and the loading
  at start-up. The extensions directory maps a name to what its subdirectory holds; what the
  operating system makes of the steps of one installation is the record \<open>os_install\<close>. A module
  of an extension is \<open>mk root spec\<close>, for the server \<open>isolated_module\<close>, whose \<open>send root\<close> is the
  request to the worker of that extension.
\<close>

section \<open>The manager\<close>

text \<open>
  A directory: the manifest file of its source, whether its venv is complete, and whether it holds
  \<^verbatim>\<open>installed.json\<close>, which is all that \<open>load_installed\<close> asks of it.
\<close>

record installed_ext =
  ie_manifest :: ext_manifest
  ie_root :: string

record ext_dir =
  xd_src :: "toml_file option"
  xd_venv :: bool
  xd_state :: bool

record ext_state =
  es_registry :: registry
  es_installed :: "(string, installed_ext) dict"
  es_disk :: "(string, ext_dir) dict"

datatype pip_result = PipOk | PipTimeout | PipExit string | PipNotRun string

text \<open>What \<open>rmtree(ignore_errors=True)\<close> leaves: nothing, or the source, the venv, the state file or not.\<close>

datatype leftover = Removed | LeftBehind bool bool bool

text \<open>
  Each step may fail with the text of its exception. A copy that fails may have copied the manifest
  before, and \<open>write_text\<close> opens the file before it writes, so that a write that fails may leave
  the state file (\<open>os_state = Some (True, e)\<close>) or not.
\<close>

record os_install =
  os_is_dir :: bool
  os_file :: toml_file
  os_mkdir :: "string option"
  os_copy :: "(toml_file option \<times> string) option"
  os_venv :: "string option"
  os_pip :: pip_result
  os_state :: "(bool \<times> string) option"
  os_left :: leftover

definition isolated_module ::
  "(json \<Rightarrow> string) \<Rightarrow> (string \<Rightarrow> json \<Rightarrow> py_exn + json) \<Rightarrow> string \<Rightarrow> string \<Rightarrow> ext_module_spec \<Rightarrow> pymodule" where
  "isolated_module pt send base root spec = \<lparr>mod_manifest = xm_manifest spec,
     mod_run = isolated_run pt (m_name (xm_manifest spec)) (xm_entry spec)
       (base @ ''/'' @ root @ ''/src'') (send root)\<rparr>"

text \<open>\<open>_register\<close>: on an exception the modules registered so far are removed again.\<close>

fun register_specs ::
  "(ext_module_spec \<Rightarrow> pymodule) \<Rightarrow> ext_module_spec list \<Rightarrow> string list \<Rightarrow> registry \<Rightarrow> (registry_error + unit) \<times> registry" where
  "register_specs mk [] done reg = (Inr (), reg)"
| "register_specs mk (s # ss) done reg = (case register_isolated (mk s) reg of
     Inl e \<Rightarrow> (Inl e, fold unregister done reg)
   | Inr reg' \<Rightarrow> register_specs mk ss (done @ [m_name (xm_manifest s)]) reg')"

definition ext_register ::
  "(string \<Rightarrow> ext_module_spec \<Rightarrow> pymodule) \<Rightarrow> ext_manifest \<Rightarrow> string \<Rightarrow> ext_state \<Rightarrow> (ext_error + installed_ext) \<times> ext_state" where
  "ext_register mk m root st = (case register_specs (mk root) (xe_modules m) [] (es_registry st) of
     (Inl e, reg) \<Rightarrow> (Inl (RegistryRaised e), st\<lparr>es_registry := reg\<rparr>)
   | (Inr u, reg) \<Rightarrow>
       (let ie = \<lparr>ie_manifest = m, ie_root = root\<rparr> in
        (Inr ie, st\<lparr>es_registry := reg, es_installed := dict_set (xe_name m) ie (es_installed st)\<rparr>)))"

definition create_venv :: "ext_manifest \<Rightarrow> os_install \<Rightarrow> ext_error option" where
  "create_venv m os = (case os_venv os of
     Some e \<Rightarrow> Some (VenvFailed e)
   | None \<Rightarrow>
       (if xe_requirements m = [] then None
        else (case os_pip os of
            PipOk \<Rightarrow> None | PipTimeout \<Rightarrow> Some PipTimedOut | PipExit e \<Rightarrow> Some (PipExited e)
          | PipNotRun e \<Rightarrow> Some (NotInstalled e))))"

text \<open>The body of the \<open>try\<close> of \<open>_install_locked\<close>, on the disk and then in the registry.\<close>

definition install_steps ::
  "(string \<Rightarrow> ext_module_spec \<Rightarrow> pymodule) \<Rightarrow> os_install \<Rightarrow> ext_manifest \<Rightarrow> ext_state \<Rightarrow> (ext_error + installed_ext) \<times> ext_state" where
  "install_steps mk os m st = (case os_mkdir os of
     Some e \<Rightarrow> (Inl (NotInstalled e), st)
   | None \<Rightarrow> (case os_copy os of
       Some (left, e) \<Rightarrow> (Inl (NotInstalled e),
         st\<lparr>es_disk := dict_set (xe_name m) \<lparr>xd_src = left, xd_venv = False, xd_state = False\<rparr> (es_disk st)\<rparr>)
     | None \<Rightarrow>
         (let dir = \<lparr>xd_src = Some (os_file os), xd_venv = False, xd_state = False\<rparr>;
              st1 = st\<lparr>es_disk := dict_set (xe_name m) dir (es_disk st)\<rparr> in
          case create_venv m os of
            Some e \<Rightarrow> (Inl e, st1)
          | None \<Rightarrow>
              (let marked = (\<lambda>b. st\<lparr>es_disk := dict_set (xe_name m) (dir\<lparr>xd_venv := True, xd_state := b\<rparr>) (es_disk st)\<rparr>) in
               case os_state os of
                 Some (created, e) \<Rightarrow> (Inl (NotInstalled e), marked created)
               | None \<Rightarrow> ext_register mk m (xe_name m) (marked True)))))"

definition remove_tree :: "string \<Rightarrow> os_install \<Rightarrow> ext_state \<Rightarrow> ext_state" where
  "remove_tree root os st = (case dict_get (es_disk st) root of
     None \<Rightarrow> st
   | Some d \<Rightarrow> st\<lparr>es_disk := (case os_left os of
       Removed \<Rightarrow> dict_pop root (es_disk st)
     | LeftBehind src env state \<Rightarrow> dict_set root
         \<lparr>xd_src = (if src then xd_src d else None), xd_venv = (env \<and> xd_venv d), xd_state = (state \<and> xd_state d)\<rparr>
         (es_disk st))\<rparr>)"

text \<open>\<open>ExtensionError\<close>, \<open>OSError\<close> and \<open>ValueError\<close> are caught; a \<open>NotImplementedError\<close> is not.\<close>

definition caught :: "ext_error \<Rightarrow> ext_error option" where
  "caught e = (case e of
     RegistryRaised (AlreadyRegistered n) \<Rightarrow> Some (NotInstalled n)
   | RegistryRaised (NotImplementedIsolation n i) \<Rightarrow> None
   | _ \<Rightarrow> Some e)"

definition install ::
  "(toml \<Rightarrow> string) \<Rightarrow> (string \<Rightarrow> ext_module_spec \<Rightarrow> pymodule) \<Rightarrow> os_install \<Rightarrow> ext_state \<Rightarrow> (ext_error + installed_ext) \<times> ext_state" where
  "install render mk os st =
     (if \<not> os_is_dir os then (Inl NotADirectory, st)
      else (case parse_extension_manifest render (os_file os) of
          Inl e \<Rightarrow> (Inl e, st)
        | Inr m \<Rightarrow>
            (if dict_get (es_installed st) (xe_name m) \<noteq> None then (Inl (AlreadyInstalled (xe_name m)), st)
             else (case find (\<lambda>s. registry_get (es_registry st) (m_name (xm_manifest s)) \<noteq> None) (xe_modules m) of
                 Some s \<Rightarrow> (Inl (ModuleTaken (m_name (xm_manifest s))), st)
               | None \<Rightarrow>
                   (if dict_get (es_disk st) (xe_name m) \<noteq> None then (Inl (RootExists (xe_name m)), st)
                    else (case install_steps mk os m st of
                        (Inr ie, st') \<Rightarrow> (Inr ie, st')
                      | (Inl e, st') \<Rightarrow>
                          (case caught e of
                             None \<Rightarrow> (Inl e, st')
                           | Some e' \<Rightarrow> (Inl e', remove_tree (xe_name m) os st'))))))))"

section \<open>Start-up\<close>

fun load_dirs ::
  "(toml \<Rightarrow> string) \<Rightarrow> (string \<Rightarrow> ext_module_spec \<Rightarrow> pymodule) \<Rightarrow> (string \<times> ext_dir) list \<Rightarrow> installed_ext list \<Rightarrow>
     ext_state \<Rightarrow> (ext_error + installed_ext list) \<times> ext_state" where
  "load_dirs render mk [] loaded st = (Inr loaded, st)"
| "load_dirs render mk ((root, d) # ds) loaded st =
     (if dict_get (es_installed st) root \<noteq> None \<or> \<not> xd_state d then load_dirs render mk ds loaded st
      else (case parse_extension_manifest render (case xd_src d of None \<Rightarrow> NoToml | Some f \<Rightarrow> f) of
          Inl e \<Rightarrow> (Inl e, st)
        | Inr m \<Rightarrow>
            (case ext_register mk m root st of
               (Inl e, st') \<Rightarrow> (Inl e, st')
             | (Inr ie, st') \<Rightarrow> load_dirs render mk ds (loaded @ [ie]) st')))"

definition load_installed ::
  "(toml \<Rightarrow> string) \<Rightarrow> (string \<Rightarrow> ext_module_spec \<Rightarrow> pymodule) \<Rightarrow> ext_state \<Rightarrow> (ext_error + installed_ext list) \<times> ext_state" where
  "load_installed render mk st = load_dirs render mk (sort_key fst (es_disk st)) [] st"

section \<open>Registration and its rollback\<close>

definition spec_name :: "ext_module_spec \<Rightarrow> string" where
  "spec_name s = m_name (xm_manifest s)"

definition ext_entries :: "(string \<Rightarrow> ext_module_spec \<Rightarrow> pymodule) \<Rightarrow> installed_ext \<Rightarrow> (string \<times> pymodule) list" where
  "ext_entries mk ie = map (\<lambda>s. (spec_name s, mk (ie_root ie) s)) (xe_modules (ie_manifest ie))"

text \<open>The installation leaves a state file behind although it failed.\<close>

definition leaves_mark :: "os_install \<Rightarrow> bool" where
  "leaves_mark os \<longleftrightarrow> (\<exists>e src env. os_state os = Some (True, e) \<and> os_left os = LeftBehind src env True)"

definition complete_dir :: "toml_file \<Rightarrow> ext_dir" where
  "complete_dir f = \<lparr>xd_src = Some f, xd_venv = True, xd_state = True\<rparr>"

lemma ext_wf_specs:
  "ext_wf m \<Longrightarrow> distinct (map spec_name (xe_modules m)) \<and>
     list_all (\<lambda>s. m_isolation (xm_manifest s) = ''isolated'') (xe_modules m)"
  by (auto simp: ext_wf_def spec_name_def [abs_def] module_wf_def Let_def list_all_iff)

lemma dict_last:
  assumes "dict_get d k = None"
  shows "dict_get (d @ [(k, v)]) k = Some v" "dict_pop k (d @ [(k, v)]) = d" "dict_set k v' (d @ [(k, v)]) = d @ [(k, v')]"
  using assms by (induction d) (auto split: if_splits)

lemma fold_dict_pop: "fold dict_pop ks d = filter (\<lambda>x. fst x \<notin> set ks) d"
  by (induction ks arbitrary: d) (auto simp: AList.delete_eq intro!: filter_cong)

lemma fold_unregister_appended:
  assumes "set (map fst xs) \<inter> set (map fst reg) = {}"
  shows "fold unregister (map fst xs) (reg @ xs) = reg"
proof -
  have "fold unregister ks d = fold dict_pop ks d" for ks and d :: registry
    by (induction ks arbitrary: d) (simp_all add: unregister_def)
  moreover have "filter (\<lambda>x. fst x \<notin> set (map fst xs)) reg = reg"
    using assms by (intro filter_True) auto
  moreover have "filter (\<lambda>x. fst x \<notin> set (map fst xs)) xs = []"
    by (rule filter_False) simp
  ultimately show ?thesis by (simp only: fold_dict_pop filter_append append_Nil2)
qed

locale module_maker =
  fixes mk :: "string \<Rightarrow> ext_module_spec \<Rightarrow> pymodule"
  assumes mk_manifest: "mod_manifest (mk root s) = xm_manifest s"
begin

lemma register_specs_ok:
  "list_all (\<lambda>s. m_isolation (xm_manifest s) = ''isolated'') ss \<Longrightarrow> distinct (map spec_name ss) \<Longrightarrow>
   \<forall>s \<in> set ss. registry_get reg (spec_name s) = None \<Longrightarrow>
     register_specs (mk root) ss ns reg = (Inr (), reg @ map (\<lambda>s. (spec_name s, mk root s)) ss)"
proof (induction ss arbitrary: ns reg)
  case (Cons s ss)
  then have "register_isolated (mk root s) reg = Inr (reg @ [(spec_name s, mk root s)])"
    by (simp add: register_isolated_Inr mk_manifest spec_name_def registry_get_def dict_set_fresh)
  moreover have "\<forall>s' \<in> set ss. registry_get (reg @ [(spec_name s, mk root s)]) (spec_name s') = None"
    using Cons.prems by (auto simp: registry_get_def map_add_def image_iff)
  ultimately show ?case using Cons by simp
qed simp

lemma register_specs_rollback:
  "register_specs (mk root) ss (map fst xs) (reg @ xs) = (Inl e, reg') \<Longrightarrow>
   set (map fst xs) \<inter> set (map fst reg) = {} \<Longrightarrow> reg' = reg"
proof (induction ss arbitrary: xs)
  case (Cons s ss)
  show ?case
  proof (cases "register_isolated (mk root s) (reg @ xs)")
    case (Inl e')
    then show ?thesis using Cons.prems fold_unregister_appended [of xs reg] by simp
  next
    case (Inr r)
    then have f: "registry_get (reg @ xs) (spec_name s) = None"
      and r: "r = reg @ (xs @ [(spec_name s, mk root s)])"
      by (auto simp: register_isolated_Inr mk_manifest spec_name_def registry_get_def dict_set_fresh)
    have "spec_name s \<notin> fst ` set reg" using f
      by (metis Un_iff image_Un map_of_eq_None_iff registry_get_def set_append)
    then show ?thesis
      using Cons.prems Inr r Cons.IH [of "xs @ [(spec_name s, mk root s)]"] by (simp add: spec_name_def)
  qed
qed simp

lemma ext_register_rollback:
  "ext_register mk m root st = (Inl e, st') \<Longrightarrow> st' = st"
  using register_specs_rollback [where xs = "[]"]
  by (auto simp: ext_register_def Let_def split: prod.splits sum.splits)

lemma ext_register_ok:
  assumes "ext_wf m" and "\<forall>s \<in> set (xe_modules m). registry_get (es_registry st) (spec_name s) = None"
    and "dict_get (es_installed st) (xe_name m) = None" and "ie = \<lparr>ie_manifest = m, ie_root = root\<rparr>"
  shows "ext_register mk m root st = (Inr ie, st\<lparr>es_registry := es_registry st @ ext_entries mk ie,
     es_installed := es_installed st @ [(xe_name m, ie)]\<rparr>)"
  using register_specs_ok [OF conjunct2 [OF ext_wf_specs [OF assms(1)]] conjunct1 [OF ext_wf_specs [OF assms(1)]] assms(2)]
    assms(3,4)
  by (simp add: ext_register_def Let_def ext_entries_def dict_set_fresh)

lemma install_steps_result:
  assumes wf: "ext_wf m" and free: "\<forall>s \<in> set (xe_modules m). registry_get (es_registry st) (spec_name s) = None"
    and inst: "dict_get (es_installed st) (xe_name m) = None" and disk: "dict_get (es_disk st) (xe_name m) = None"
    and r: "install_steps mk os m st = (r, st')" and ie: "ie = \<lparr>ie_manifest = m, ie_root = xe_name m\<rparr>"
  shows "r = Inr ie \<and> st' = \<lparr>es_registry = es_registry st @ ext_entries mk ie,
       es_installed = es_installed st @ [(xe_name m, ie)],
       es_disk = es_disk st @ [(xe_name m, complete_dir (os_file os))]\<rparr> \<or>
     (\<exists>e d. r = Inl e \<and> caught e = Some e \<and> (xd_state d \<longrightarrow> (\<exists>t. os_state os = Some (True, t))) \<and>
       (st' = st \<or> st' = st\<lparr>es_disk := es_disk st @ [(xe_name m, d)]\<rparr>))"
proof -
  have reg: "ext_register mk m (xe_name m) (st\<lparr>es_disk := dk\<rparr>) = (Inr ie, st\<lparr>es_disk := dk,
      es_registry := es_registry st @ ext_entries mk ie, es_installed := es_installed st @ [(xe_name m, ie)]\<rparr>)" for dk
    using ext_register_ok [OF wf, of "st\<lparr>es_disk := dk\<rparr>" ie "xe_name m"] free inst ie by simp
  have c: "\<exists>d. \<not> xd_state d" by (metis ext_dir.select_convs(3))
  have fail: ?thesis if "r = Inl e" "caught e = Some e" "xd_state d \<Longrightarrow> \<exists>t. os_state os = Some (True, t)" "st' = st\<lparr>es_disk := es_disk st @ [(xe_name m, d)]\<rparr>"
    for e d using that by blast
  consider e where "os_mkdir os = Some e" | left e where "os_mkdir os = None" "os_copy os = Some (left, e)"
    | e where "os_mkdir os = None" "os_copy os = None" "create_venv m os = Some e"
    | b e where "os_mkdir os = None" "os_copy os = None" "create_venv m os = None" "os_state os = Some (b, e)"
    | "os_mkdir os = None" "os_copy os = None" "create_venv m os = None" "os_state os = None"
    by fastforce
  then show ?thesis
  proof cases
    case 1
    then show ?thesis using r c by (auto simp: install_steps_def caught_def)
  next
    case 2
    then show ?thesis
      using r disk by (intro fail [of "NotInstalled e" "\<lparr>xd_src = left, xd_venv = False, xd_state = False\<rparr>"])
        (auto simp: install_steps_def caught_def dict_set_fresh)
  next
    case 3
    then have "caught e = Some e"
      by (auto simp: create_venv_def caught_def split: option.splits if_splits pip_result.splits)
    then show ?thesis
      using 3 r disk by (intro fail [of e "\<lparr>xd_src = Some (os_file os), xd_venv = False, xd_state = False\<rparr>"])
        (auto simp: install_steps_def dict_set_fresh)
  next
    case 4
    then show ?thesis
      using r disk by (intro fail [of "NotInstalled e" "\<lparr>xd_src = Some (os_file os), xd_venv = True, xd_state = b\<rparr>"])
        (auto simp: install_steps_def caught_def dict_set_fresh)
  next
    case 5
    then show ?thesis
      using r disk by (intro disjI1) (auto simp: install_steps_def reg dict_set_fresh complete_dir_def intro: ext_state.equality)
  qed
qed

text \<open>
  The installation is a transaction: it succeeds whole, or the registry and the table of
  installed extensions are as before and the disk holds at most one directory more, which has a
  state file only when the write of that file is what failed and the cleanup left it.
\<close>

lemma install_result:
  assumes "install render mk os st = (r, st')"
  shows "(\<exists>m ie. r = Inr ie \<and> parse_extension_manifest render (os_file os) = Inr m \<and>
       ie = \<lparr>ie_manifest = m, ie_root = xe_name m\<rparr> \<and> dict_get (es_installed st) (xe_name m) = None \<and>
       dict_get (es_disk st) (xe_name m) = None \<and>
       (\<forall>s \<in> set (xe_modules m). registry_get (es_registry st) (spec_name s) = None) \<and>
       st' = \<lparr>es_registry = es_registry st @ ext_entries mk ie,
         es_installed = es_installed st @ [(xe_name m, ie)],
         es_disk = es_disk st @ [(xe_name m, complete_dir (os_file os))]\<rparr>) \<or>
     (\<exists>e. r = Inl e \<and> (st' = st \<or> os_left os \<noteq> Removed \<and>
       (\<exists>n d. (xd_state d \<longrightarrow> leaves_mark os) \<and> dict_get (es_disk st) n = None \<and>
          st' = st\<lparr>es_disk := es_disk st @ [(n, d)]\<rparr>)))"
proof -
  consider (early) e where "(r, st') = (Inl e, st)"
    | (steps) m where "parse_extension_manifest render (os_file os) = Inr m"
        "dict_get (es_installed st) (xe_name m) = None" "dict_get (es_disk st) (xe_name m) = None"
        "\<forall>s \<in> set (xe_modules m). registry_get (es_registry st) (spec_name s) = None"
        "(r, st') = (case install_steps mk os m st of (Inr ie, s') \<Rightarrow> (Inr ie, s')
           | (Inl e, s') \<Rightarrow> (case caught e of None \<Rightarrow> (Inl e, s') | Some e' \<Rightarrow> (Inl e', remove_tree (xe_name m) os s')))"
    using assms
    by (auto simp: install_def spec_name_def find_None_iff split: if_splits sum.splits option.splits)
  then show ?thesis
  proof cases
    case early
    then show ?thesis by simp
  next
    case steps
    let ?ie = "\<lparr>ie_manifest = m, ie_root = xe_name m\<rparr>"
    have wf: "ext_wf m" by (rule parse_extension_wf [OF steps(1)])
    obtain r1 s1 where s1: "install_steps mk os m st = (r1, s1)" by fastforce
    from install_steps_result [OF wf steps(4,2,3) s1 refl] consider
        "r1 = Inr ?ie" "s1 = \<lparr>es_registry = es_registry st @ ext_entries mk ?ie,
           es_installed = es_installed st @ [(xe_name m, ?ie)],
           es_disk = es_disk st @ [(xe_name m, complete_dir (os_file os))]\<rparr>"
      | e where "r1 = Inl e" "caught e = Some e" "s1 = st"
      | e d where "r1 = Inl e" "caught e = Some e" "xd_state d \<longrightarrow> (\<exists>t. os_state os = Some (True, t))" "s1 = st\<lparr>es_disk := es_disk st @ [(xe_name m, d)]\<rparr>"
      by blast
    then show ?thesis
    proof cases
      case 1
      then show ?thesis using steps s1 by simp
    next
      case 2
      then show ?thesis using steps s1 by (simp add: remove_tree_def)
    next
      case 3
      then have st': "r = Inl e" "st' = remove_tree (xe_name m) os s1" using steps(5) s1 by auto
      show ?thesis
      proof (cases "os_left os")
        case Removed
        then show ?thesis using st' 3(4) dict_last [OF steps(3)] by (simp add: remove_tree_def)
      next
        case (LeftBehind src env state)
        then have "st' = st\<lparr>es_disk := es_disk st @ [(xe_name m, \<lparr>xd_src = (if src then xd_src d else None),
            xd_venv = (env \<and> xd_venv d), xd_state = (state \<and> xd_state d)\<rparr>)]\<rparr>"
          using st' 3(4) dict_last [OF steps(3)] by (simp add: remove_tree_def)
        moreover have "xd_state \<lparr>xd_src = (if src then xd_src d else None),
            xd_venv = (env \<and> xd_venv d), xd_state = (state \<and> xd_state d)\<rparr> \<longrightarrow> leaves_mark os"
          using 3(3) LeftBehind by (auto simp: leaves_mark_def)
        moreover have "os_left os \<noteq> Removed" using LeftBehind by simp
        ultimately show ?thesis using st'(1) steps(3) by blast
      qed
    qed
  qed
qed

end

section \<open>Restart\<close>

text \<open>What a listing of the directory holds that was installed to completion.\<close>

definition ext_of :: "(toml \<Rightarrow> string) \<Rightarrow> string \<times> ext_dir \<Rightarrow> (string \<times> installed_ext) option" where
  "ext_of render nd = (case nd of (n, d) \<Rightarrow>
     (if xd_state d then
        (case parse_extension_manifest render (case xd_src d of None \<Rightarrow> NoToml | Some f \<Rightarrow> f) of
           Inl e \<Rightarrow> None | Inr m \<Rightarrow> Some (n, \<lparr>ie_manifest = m, ie_root = n\<rparr>))
      else None))"

definition all_entries :: "(string \<Rightarrow> ext_module_spec \<Rightarrow> pymodule) \<Rightarrow> (string \<times> installed_ext) list \<Rightarrow> registry" where
  "all_entries mk exts = concat (map (\<lambda>x. ext_entries mk (snd x)) exts)"

text \<open>The state agrees with the directory and with the modules the server started with.\<close>

definition ext_inv ::
  "(toml \<Rightarrow> string) \<Rightarrow> (string \<Rightarrow> ext_module_spec \<Rightarrow> pymodule) \<Rightarrow> registry \<Rightarrow> ext_state \<Rightarrow> bool" where
  "ext_inv render mk reg0 st \<longleftrightarrow> dict_ok (es_disk st) \<and> dict_ok (es_installed st) \<and> dict_ok (es_registry st) \<and>
     es_registry st = reg0 @ all_entries mk (es_installed st) \<and>
     set (es_installed st) = {x. \<exists>nd \<in> set (es_disk st). ext_of render nd = Some x} \<and>
     (\<forall>nd \<in> set (es_disk st). xd_state (snd nd) \<longrightarrow>
        (\<exists>x. ext_of render nd = Some x \<and> xe_name (ie_manifest (snd x)) = fst nd))"

datatype ext_event = Install os_install | Restart

primrec clean_event :: "ext_event \<Rightarrow> bool" where
  "clean_event (Install os) \<longleftrightarrow> \<not> leaves_mark os"
| "clean_event Restart \<longleftrightarrow> True"

definition ext_event_step ::
  "(toml \<Rightarrow> string) \<Rightarrow> (string \<Rightarrow> ext_module_spec \<Rightarrow> pymodule) \<Rightarrow> registry \<Rightarrow> ext_event \<Rightarrow> ext_state \<Rightarrow> ext_state" where
  "ext_event_step render mk reg0 ev st = (case ev of
     Install os \<Rightarrow> snd (install render mk os st)
   | Restart \<Rightarrow> snd (load_installed render mk \<lparr>es_registry = reg0, es_installed = [], es_disk = es_disk st\<rparr>))"

definition ext_run ::
  "(toml \<Rightarrow> string) \<Rightarrow> (string \<Rightarrow> ext_module_spec \<Rightarrow> pymodule) \<Rightarrow> registry \<Rightarrow> ext_event list \<Rightarrow> ext_state" where
  "ext_run render mk reg0 evs = fold (ext_event_step render mk reg0) evs \<lparr>es_registry = reg0, es_installed = [], es_disk = []\<rparr>"

context module_maker
begin

lemma ext_of_root: "ext_of render nd = Some x \<Longrightarrow> fst x = fst nd \<and> xd_state (snd nd)"
  by (cases nd) (auto simp: ext_of_def split: if_splits sum.splits)

lemma load_dirs_ok:
  "\<forall>nd \<in> set ds. xd_state (snd nd) \<longrightarrow> (\<exists>x. ext_of render nd = Some x \<and> xe_name (ie_manifest (snd x)) = fst nd) \<Longrightarrow>
   dict_ok ds \<Longrightarrow> \<forall>nd \<in> set ds. dict_get (es_installed st) (fst nd) = None \<Longrightarrow>
   dict_ok (es_registry st @ all_entries mk (List.map_filter (ext_of render) ds)) \<Longrightarrow>
     load_dirs render mk ds loaded st = (Inr (loaded @ map snd (List.map_filter (ext_of render) ds)),
       st\<lparr>es_registry := es_registry st @ all_entries mk (List.map_filter (ext_of render) ds),
          es_installed := es_installed st @ List.map_filter (ext_of render) ds\<rparr>)"
proof (induction ds arbitrary: loaded st)
  case (Cons nd ds)
  obtain n d where nd: "nd = (n, d)" by (cases nd)
  show ?case
  proof (cases "xd_state d")
    case False
    then have "ext_of render nd = None" by (simp add: ext_of_def nd)
    then show ?thesis using Cons False by (simp add: nd map_filter_simps dict_ok_def)
  next
    case True
    with Cons.prems(1) nd obtain x where x: "ext_of render (n, d) = Some x" "xe_name (ie_manifest (snd x)) = n" by auto
    then obtain m where m: "parse_extension_manifest render (case xd_src d of None \<Rightarrow> NoToml | Some f \<Rightarrow> f) = Inr m"
        "x = (n, \<lparr>ie_manifest = m, ie_root = n\<rparr>)"
      by (auto simp: ext_of_def simp del: split_paired_All split: if_splits sum.splits)
    have name: "xe_name m = n" using x m by simp
    let ?ie = "\<lparr>ie_manifest = m, ie_root = n\<rparr>" and ?rest = "List.map_filter (ext_of render) ds"
    let ?st = "st\<lparr>es_registry := es_registry st @ ext_entries mk ?ie, es_installed := es_installed st @ [(n, ?ie)]\<rparr>"
    have reg: "dict_ok (es_registry st @ ext_entries mk ?ie @ all_entries mk ?rest)"
      using Cons.prems(4) x m by (simp add: nd map_filter_simps all_entries_def)
    then have "\<forall>s \<in> set (xe_modules m). registry_get (es_registry st) (spec_name s) = None"
      by (auto simp: dict_ok_def ext_entries_def registry_get_def map_of_eq_None_iff)
    moreover have fresh: "dict_get (es_installed st) (xe_name m) = None" using Cons.prems(3) nd name by simp
    ultimately have step: "ext_register mk m n st = (Inr ?ie, ?st)"
      using ext_register_ok [OF parse_extension_wf [OF m(1)], of st ?ie n] name by simp
    have "n \<notin> set (map fst ds)" using Cons.prems(2) nd by (simp add: dict_ok_def)
    then have "\<forall>nd \<in> set ds. dict_get (es_installed ?st) (fst nd) = None"
      using Cons.prems(3) by (auto simp: map_add_def image_iff)
    then have "load_dirs render mk ds (loaded @ [?ie]) ?st = (Inr ((loaded @ [?ie]) @ map snd ?rest),
        ?st\<lparr>es_registry := es_registry ?st @ all_entries mk ?rest, es_installed := es_installed ?st @ ?rest\<rparr>)"
      by (intro Cons.IH) (use Cons.prems reg in \<open>auto simp: dict_ok_def\<close>)
    then show ?thesis
      using True step fresh m x name by (simp add: nd map_filter_simps all_entries_def)
  qed
qed (simp add: map_filter_simps all_entries_def)

lemma ext_inv_start: "dict_ok reg0 \<Longrightarrow> ext_inv render mk reg0 \<lparr>es_registry = reg0, es_installed = [], es_disk = []\<rparr>"
  by (simp add: ext_inv_def all_entries_def)

lemma dict_ok_last: "dict_ok (d @ [(k, v)]) \<longleftrightarrow> dict_ok d \<and> dict_get d k = None"
  by (auto simp: dict_ok_def map_of_eq_None_iff)

lemma ext_inv_install:
  assumes inv: "ext_inv render mk reg0 st" and r: "install render mk os st = (r, st')" and clean: "\<not> leaves_mark os"
  shows "ext_inv render mk reg0 st'"
proof -
  note inv' = inv [unfolded ext_inv_def]
  from install_result [OF r] consider
      (ok) m ie where "r = Inr ie" "parse_extension_manifest render (os_file os) = Inr m"
        "ie = \<lparr>ie_manifest = m, ie_root = xe_name m\<rparr>" "dict_get (es_installed st) (xe_name m) = None"
        "dict_get (es_disk st) (xe_name m) = None"
        "\<forall>s \<in> set (xe_modules m). registry_get (es_registry st) (spec_name s) = None"
        "st' = \<lparr>es_registry = es_registry st @ ext_entries mk ie, es_installed = es_installed st @ [(xe_name m, ie)],
           es_disk = es_disk st @ [(xe_name m, complete_dir (os_file os))]\<rparr>"
    | (same) "st' = st"
    | (junk) n d where "\<not> xd_state d" "dict_get (es_disk st) n = None" "st' = st\<lparr>es_disk := es_disk st @ [(n, d)]\<rparr>"
    using clean by blast
  then show ?thesis
  proof cases
    case ok
    have new: "ext_of render (xe_name m, complete_dir (os_file os)) = Some (xe_name m, ie)"
      using ok(2,3) by (simp add: ext_of_def complete_dir_def)
    have "dict_ok (es_registry st)" using inv' by blast
    moreover have "dict_ok (ext_entries mk ie)"
      using ok(3) ext_wf_specs [OF parse_extension_wf [OF ok(2)]] by (simp add: dict_ok_def ext_entries_def comp_def)
    moreover have "fst ` set (es_registry st) \<inter> fst ` set (ext_entries mk ie) = {}"
    proof -
      have "\<forall>k \<in> fst ` set (ext_entries mk ie). k \<notin> fst ` set (es_registry st)"
        using ok(3,6) by (simp add: ext_entries_def registry_get_def map_of_eq_None_iff)
      then show ?thesis by blast
    qed
    ultimately have "dict_ok (es_registry st @ ext_entries mk ie)" by (simp add: dict_ok_def)
    moreover have "all_entries mk (es_installed st @ [(xe_name m, ie)]) = all_entries mk (es_installed st) @ ext_entries mk ie"
      by (simp add: all_entries_def)
    moreover have "set (es_installed st @ [(xe_name m, ie)]) =
        {x. \<exists>nd \<in> set (es_disk st @ [(xe_name m, complete_dir (os_file os))]). ext_of render nd = Some x}"
      using inv' new by auto
    moreover have "xe_name (ie_manifest (snd (xe_name m, ie))) = fst (xe_name m, complete_dir (os_file os))" using ok(3) by simp
    ultimately show ?thesis using inv' new ok(4,5)
      unfolding ext_inv_def ok(7) by (auto simp: dict_ok_last)
  next
    case same
    then show ?thesis using inv by simp
  next
    case junk
    have "ext_of render (n, d) = None" using junk(1) by (simp add: ext_of_def)
    then show ?thesis using inv' junk(1,2) unfolding ext_inv_def junk(3) by (auto simp: dict_ok_last)
  qed
qed

lemma set_map_filter: "set (List.map_filter f xs) = {y. \<exists>x \<in> set xs. f x = Some y}"
  by (induction xs) (auto simp: map_filter_simps split: option.splits)

lemma map_filter_ext_keys:
  "dict_ok ds \<Longrightarrow> dict_ok (List.map_filter (ext_of render) ds)"
proof (induction ds)
  case (Cons nd ds)
  have "fst nd \<notin> set (map fst (List.map_filter (ext_of render) ds))"
    using Cons.prems by (auto simp: set_map_filter dict_ok_def dest!: ext_of_root) (metis fst_conv image_eqI)
  then show ?case
    using Cons ext_of_root [of render nd]
    by (cases "ext_of render nd") (simp_all add: map_filter_simps dict_ok_def)
qed (simp add: map_filter_simps)

lemma all_entries_mset: "mset xs = mset ys \<Longrightarrow> mset (all_entries mk xs) = mset (all_entries mk ys)"
proof -
  assume "mset xs = mset ys"
  then have "mset (map (\<lambda>x. mset (ext_entries mk (snd x))) xs) = mset (map (\<lambda>x. mset (ext_entries mk (snd x))) ys)"
    by simp
  then show ?thesis unfolding all_entries_def mset_concat by (metis (mono_tags, lifting) list.map_comp comp_apply map_eq_conv sum_mset_sum_list)
qed

lemma dict_ok_mset: "mset xs = mset ys \<Longrightarrow> dict_ok xs \<longleftrightarrow> dict_ok ys"
  unfolding dict_ok_def by (metis mset_eq_imp_distinct_iff mset_map)

lemma dict_get_mset: "mset xs = mset ys \<Longrightarrow> dict_ok xs \<Longrightarrow> dict_get xs = dict_get ys"
  by (metis dict_ok_def dict_ok_mset map_of_inject_set set_mset_mset)

lemma load_installed_restores:
  assumes inv: "ext_inv render mk reg0 st" and st0: "st0 = \<lparr>es_registry = reg0, es_installed = [], es_disk = es_disk st\<rparr>"
  shows "\<exists>loaded st'. load_installed render mk st0 = (Inr loaded, st') \<and> ext_inv render mk reg0 st' \<and>
    mset loaded = mset (dict_values (es_installed st)) \<and> es_disk st' = es_disk st \<and>
    dict_get (es_installed st') = dict_get (es_installed st) \<and>
    registry_get (es_registry st') = registry_get (es_registry st)"
proof -
  note inv' = inv [unfolded ext_inv_def]
  let ?ds = "sort_key fst (es_disk st)"
  let ?xs = "List.map_filter (ext_of render) ?ds"
  have ms: "mset ?ds = mset (es_disk st)" by simp
  have ok: "dict_ok ?ds" using inv' dict_ok_mset [OF ms] by blast
  have okx: "dict_ok ?xs" by (rule map_filter_ext_keys [OF ok])
  have "set ?xs = set (es_installed st)" using inv' by (simp add: set_map_filter)
  then have mx: "mset ?xs = mset (es_installed st)"
    using okx inv' by (metis dict_ok_def distinct_map set_eq_iff_mset_eq_distinct)
  have ma: "mset (reg0 @ all_entries mk ?xs) = mset (es_registry st)"
    using inv' all_entries_mset [OF mx] by simp
  have okr: "dict_ok (reg0 @ all_entries mk ?xs)" using inv' dict_ok_mset [OF ma] by blast
  let ?st' = "st0\<lparr>es_registry := reg0 @ all_entries mk ?xs, es_installed := ?xs\<rparr>"
  have load: "load_installed render mk st0 = (Inr (map snd ?xs), ?st')"
    unfolding load_installed_def st0
    using load_dirs_ok [of ?ds render "\<lparr>es_registry = reg0, es_installed = [], es_disk = es_disk st\<rparr>" "[]"] inv' ok okr
    by simp
  have "ext_inv render mk reg0 ?st'"
    using inv' okx okr \<open>set ?xs = set (es_installed st)\<close> by (simp add: ext_inv_def st0)
  moreover have "mset (map snd ?xs) = mset (map snd (es_installed st))" using mx by (metis mset_map)
  moreover have "dict_get ?xs = dict_get (es_installed st)" by (rule dict_get_mset [OF mx okx])
  moreover have "registry_get (reg0 @ all_entries mk ?xs) = registry_get (es_registry st)"
    using dict_get_mset [OF ma okr] by (intro ext) (simp add: registry_get_def)
  ultimately show ?thesis using load by (simp add: st0)
qed

lemma ext_inv_run:
  "dict_ok reg0 \<Longrightarrow> list_all clean_event evs \<Longrightarrow> ext_inv render mk reg0 (ext_run render mk reg0 evs)"
proof (induction evs rule: rev_induct)
  case Nil
  then show ?case by (simp add: ext_run_def ext_inv_start)
next
  case (snoc ev evs)
  let ?st = "ext_run render mk reg0 evs"
  have inv: "ext_inv render mk reg0 ?st" using snoc by simp
  have "ext_run render mk reg0 (evs @ [ev]) = ext_event_step render mk reg0 ev ?st" by (simp add: ext_run_def)
  then show ?case
    using load_installed_restores [OF inv refl] ext_inv_install [OF inv prod.collapse [symmetric]] snoc.prems(2)
    by (cases ev) (auto simp: ext_event_step_def)
qed

end

lemma isolated_module_maker: "module_maker (isolated_module pt send base)"
  by unfold_locales (simp add: isolated_module_def)

interpretation isolated: module_maker "isolated_module pt send base" for pt send base
  by (rule isolated_module_maker)

end
