(* ===== verification/Sessions.thy ===== *)
theory Sessions
  imports Prelude
begin

text \<open>
  \<^verbatim>\<open>sessions.py\<close>: payloads, sessions and the session store.

  Identifiers come from \<open>secrets.token_urlsafe(16)\<close>; each operation that makes one takes it as
  an argument, and the lemmas say what they need of it (that it is not in use). The store
  and a session's payload table are dicts.
\<close>

record payload =
  pl_id :: string
  pl_type :: string
  pl_data :: bytes

record session =
  ses_id :: string
  ses_payloads :: "(string, payload) dict"

type_synonym session_store = "(string, session) dict"

definition add_payload :: "string \<Rightarrow> string \<Rightarrow> bytes \<Rightarrow> session \<Rightarrow> payload \<times> session" where
  "add_payload new_id ty data s =
     (let p = \<lparr>pl_id = new_id, pl_type = ty, pl_data = data\<rparr>
      in (p, s\<lparr>ses_payloads := dict_set (pl_id p) p (ses_payloads s)\<rparr>))"

definition get_payload :: "session \<Rightarrow> string \<Rightarrow> payload option" where
  "get_payload s pid = dict_get (ses_payloads s) pid"

definition store_create :: "string \<Rightarrow> session_store \<Rightarrow> session \<times> session_store" where
  "store_create new_id st =
     (let s = \<lparr>ses_id = new_id, ses_payloads = []\<rparr> in (s, dict_set (ses_id s) s st))"

definition store_get :: "session_store \<Rightarrow> string \<Rightarrow> session option" where
  "store_get st sid = dict_get st sid"

definition store_delete :: "string \<Rightarrow> session_store \<Rightarrow> bool \<times> session_store" where
  "store_delete sid st = (dict_get st sid \<noteq> None, dict_pop sid st)"

text \<open>Every entry is filed under its own id.\<close>

definition session_ok :: "session \<Rightarrow> bool" where
  "session_ok s \<longleftrightarrow> dict_ok (ses_payloads s) \<and> (\<forall>(pid, p) \<in> set (ses_payloads s). pl_id p = pid)"

definition store_ok :: "session_store \<Rightarrow> bool" where
  "store_ok st \<longleftrightarrow> dict_ok st \<and> (\<forall>(sid, s) \<in> set st. ses_id s = sid \<and> session_ok s)"

lemmas session_defs = add_payload_def get_payload_def store_create_def store_get_def
  store_delete_def Let_def

lemma session_ok_add: "session_ok s \<Longrightarrow> session_ok (snd (add_payload i ty b s))"
  by (auto simp: session_ok_def session_defs set_dict_set)

lemma store_ok_create: "store_ok st \<Longrightarrow> store_ok (snd (store_create i st))"
  by (auto simp: store_ok_def session_ok_def session_defs set_dict_set)

lemma store_ok_delete: "store_ok st \<Longrightarrow> store_ok (snd (store_delete i st))"
  by (auto simp: store_ok_def session_defs set_dict_pop)

lemma add_payload_get:
  "get_payload (snd (add_payload i ty b s)) j =
     (if j = i then Some \<lparr>pl_id = i, pl_type = ty, pl_data = b\<rparr> else get_payload s j)"
  by (simp add: session_defs)

lemma add_payload_id [simp]: "ses_id (snd (add_payload i ty b s)) = ses_id s"
  by (simp add: session_defs)

interpretation payloads: keyed_store get_payload
  "\<lambda>k p s. s\<lparr>ses_payloads := dict_set k p (ses_payloads s)\<rparr>" "\<lambda>s. dict_ok (ses_payloads s)"
  by unfold_locales (auto simp: get_payload_def)

interpretation sessions: keyed_store_del store_get dict_set dict_ok "\<lambda>sid st. snd (store_delete sid st)"
  by unfold_locales (auto simp: store_get_def store_delete_def)

end
