(* ===== verification/Toposort.thy ===== *)
theory Toposort
  imports Prelude
begin

text \<open>
  The standard library's \<open>graphlib.TopologicalSorter\<close>, as \<open>topological_order\<close> uses it: \<open>add\<close>
  records a node and its predecessors (the node table keeps insertion order, a repeated
  predecessor counts twice), and \<open>static_order\<close> passes out groups of nodes whose
  predecessors are all done. \<open>CycleError\<close> is the value \<open>None\<close>: it is raised before anything
  is passed out, exactly when some nodes could never be passed out.

  The results: \<open>static_order_Some\<close> (the order lists every node once, sources before targets),
  \<open>static_order_None_iff\<close> (\<open>None\<close> exactly on cyclic graphs), and the loop's termination.
\<close>

record 'a node_info =
  npred :: int
  succs :: "'a list"

type_synonym 'a sorter = "('a, 'a node_info) dict"

definition ensure_node :: "'a \<Rightarrow> 'a sorter \<Rightarrow> 'a sorter" where
  "ensure_node n s = (case dict_get s n of
     None \<Rightarrow> dict_set n \<lparr>npred = 0, succs = []\<rparr> s | Some _ \<Rightarrow> s)"

definition modify_node :: "'a \<Rightarrow> ('a node_info \<Rightarrow> 'a node_info) \<Rightarrow> 'a sorter \<Rightarrow> 'a sorter" where
  "modify_node n f s = (case dict_get s n of None \<Rightarrow> s | Some i \<Rightarrow> dict_set n (f i) s)"

definition sorter_add :: "'a \<Rightarrow> 'a list \<Rightarrow> 'a sorter \<Rightarrow> 'a sorter" where
  "sorter_add n preds s =
     (let s1 = modify_node n (\<lambda>i. i\<lparr>npred := npred i + int (length preds)\<rparr>) (ensure_node n s)
      in foldl (\<lambda>s p. modify_node p (\<lambda>i. i\<lparr>succs := succs i @ [n]\<rparr>) (ensure_node p s)) s1 preds)"

definition dec_succ :: "'a sorter \<times> 'a list \<Rightarrow> 'a \<Rightarrow> 'a sorter \<times> 'a list" where
  "dec_succ st n = (case st of (info, ready) \<Rightarrow>
     (case dict_get info n of
        None \<Rightarrow> (info, ready)
      | Some i \<Rightarrow>
          (dict_set n (i\<lparr>npred := npred i - 1\<rparr>) info,
           if npred i - 1 = 0 then ready @ [n] else ready)))"

definition mark_done :: "'a sorter \<times> 'a list \<Rightarrow> 'a \<Rightarrow> 'a sorter \<times> 'a list" where
  "mark_done st n = (case dict_get (fst st) n of
     None \<Rightarrow> st | Some i \<Rightarrow> foldl dec_succ st (succs i))"

definition positives :: "'a sorter \<Rightarrow> nat" where
  "positives s = length (filter (\<lambda>(n, i). 0 < npred i) s)"

lemma positives_set:
  "dict_get s n = Some i \<Longrightarrow>
     positives (dict_set n j s) + of_bool (0 < npred i) = positives s + of_bool (0 < npred j)"
  unfolding positives_def by (induction s) (auto split: if_splits)

lemma positives_dec_succ:
  "positives (fst (dec_succ st n)) + length (snd (dec_succ st n)) = positives (fst st) + length (snd st)"
proof -
  obtain info ready where st: "st = (info, ready)" by force
  show ?thesis
  proof (cases "dict_get info n")
    case None
    then show ?thesis by (simp add: dec_succ_def st)
  next
    case (Some i)
    then show ?thesis
      using positives_set [OF Some, of "i\<lparr>npred := npred i - 1\<rparr>"]
      by (cases "npred i = 1"; cases "0 < npred i") (auto simp: dec_succ_def st Some)
  qed
qed

lemma positives_foldl_dec:
  "positives (fst (foldl dec_succ st ns)) + length (snd (foldl dec_succ st ns)) =
     positives (fst st) + length (snd st)"
  by (induction ns arbitrary: st) (simp_all add: positives_dec_succ)

lemma positives_mark_done:
  "positives (fst (foldl mark_done st ns)) + length (snd (foldl mark_done st ns)) =
     positives (fst st) + length (snd st)"
  by (induction ns arbitrary: st) (simp_all add: mark_done_def positives_foldl_dec split: option.splits)

text \<open>The loop of \<open>static_order\<close>: \<open>get_ready\<close>, yield the group, \<open>done\<close>.\<close>

function kahn :: "'a sorter \<Rightarrow> 'a list \<Rightarrow> 'a list \<Rightarrow> 'a list" where
  "kahn info ready acc =
     (if ready = [] then acc
      else (case foldl mark_done (info, []) ready of (info', ready') \<Rightarrow> kahn info' ready' (acc @ ready)))"
  by pat_completeness auto
termination
proof (relation "measures [\<lambda>(info, ready, acc). positives info, \<lambda>(info, ready, acc). length ready]")
  show "wf (measures [\<lambda>(info :: 'a sorter, ready :: 'a list, acc :: 'a list). positives info,
      \<lambda>(info, ready, acc). length ready])"
    by simp
  fix info :: "'a sorter" and ready acc :: "'a list" and info' ready'
  assume "ready \<noteq> []" and st: "(info', ready') = foldl mark_done (info, []) ready"
  have "positives info' + length ready' = positives info"
    using positives_mark_done [of "(info, [])" ready] unfolding st [symmetric] by simp
  then show "((info', ready', acc @ ready), info, ready, acc) \<in>
      measures [\<lambda>(info, ready, acc). positives info, \<lambda>(info, ready, acc). length ready]"
    using \<open>ready \<noteq> []\<close> by (cases "ready'") auto
qed

declare kahn.simps [simp del]

definition static_order :: "'a sorter \<Rightarrow> 'a list option" where
  "static_order s =
     (let order = kahn s (map fst (filter (\<lambda>(n, i). npred i = 0) s)) []
      in if length order = length s then Some order else None)"

section \<open>The node table the calls of add build\<close>

text \<open>\<open>sorter_of ns es\<close>: \<open>add(n)\<close> for the nodes, then \<open>add(to, from)\<close> for the edges.\<close>

definition sorter_of :: "'a list \<Rightarrow> ('a \<times> 'a) list \<Rightarrow> 'a sorter" where
  "sorter_of ns es =
     foldl (\<lambda>s (f, t). sorter_add t [f] s) (foldl (\<lambda>s n. sorter_add n [] s) [] ns) es"

definition table_for :: "'a set \<Rightarrow> ('a \<times> 'a) list \<Rightarrow> 'a sorter \<Rightarrow> bool" where
  "table_for V es s \<longleftrightarrow> dict_ok s \<and> (\<forall>n. n \<in> V \<longleftrightarrow> dict_get s n \<noteq> None) \<and>
     (\<forall>(f, t) \<in> set es. f \<in> V \<and> t \<in> V) \<and>
     (\<forall>n i. dict_get s n = Some i \<longrightarrow>
        npred i = int (length (filter (\<lambda>(f, t). t = n) es)) \<and>
        succs i = map snd (filter (\<lambda>(f, t). f = n) es))"

lemma ensure_node_get:
  "dict_get (ensure_node n s) m =
     (if m = n \<and> dict_get s n = None then Some \<lparr>npred = 0, succs = []\<rparr> else dict_get s m)"
  by (auto simp: ensure_node_def split: option.splits)

lemma modify_node_get:
  "dict_get (modify_node n f s) m = (if m = n then map_option f (dict_get s n) else dict_get s m)"
  by (auto simp: modify_node_def split: option.splits)

lemma ensure_node_ok [simp]: "dict_ok s \<Longrightarrow> dict_ok (ensure_node n s)"
  by (auto simp: ensure_node_def split: option.splits)

lemma modify_node_ok [simp]: "dict_ok s \<Longrightarrow> dict_ok (modify_node n f s)"
  by (auto simp: modify_node_def split: option.splits)

lemma table_for_Nil: "table_for {} [] []"
  by (simp add: table_for_def)

lemma table_for_ensure:
  assumes t: "table_for V es s"
  shows "table_for (insert n V) es (ensure_node n s)"
proof (cases "dict_get s n")
  case None
  then have "n \<notin> V" using t by (auto simp: table_for_def)
  then have "filter (\<lambda>(f, t). t = n) es = []" "filter (\<lambda>(f, t). f = n) es = []"
    using t by (force simp: table_for_def filter_empty_conv)+
  then show ?thesis using t None by (auto simp: table_for_def ensure_node_get)
next
  case (Some i)
  then have "insert n V = V" "ensure_node n s = s"
    using t by (auto simp: table_for_def ensure_node_def)
  then show ?thesis using t by simp
qed

lemma table_for_edge_existing:
  assumes t: "table_for V es s" and V: "f \<in> V" "t \<in> V"
  shows "table_for V (es @ [(f, t)])
    (modify_node f (\<lambda>i. i\<lparr>succs := succs i @ [t]\<rparr>) (modify_node t (\<lambda>i. i\<lparr>npred := npred i + 1\<rparr>) s))"
  using assms by (auto simp: table_for_def modify_node_get)

lemma modify_ensure_swap:
  assumes "dict_get s t \<noteq> None"
  shows "ensure_node f (modify_node t g s) = modify_node t g (ensure_node f s)"
proof (cases "dict_get s f")
  case None
  then have ft: "f \<noteq> t" using assms by auto
  obtain i where i: "dict_get s t = Some i" using assms by blast
  have "dict_set f x (dict_set t y s) = dict_set t y (dict_set f x s)" for x y
    using i None by (induction s) (auto split: if_splits)
  then show ?thesis using None ft i by (simp add: ensure_node_def modify_node_def)
next
  case (Some i)
  then show ?thesis by (auto simp: ensure_node_def modify_node_def split: option.splits)
qed

lemma table_for_edge:
  assumes "table_for V es s"
  shows "table_for (insert f (insert t V)) (es @ [(f, t)]) (sorter_add t [f] s)"
proof -
  have "sorter_add t [f] s = modify_node f (\<lambda>i. i\<lparr>succs := succs i @ [t]\<rparr>)
      (modify_node t (\<lambda>i. i\<lparr>npred := npred i + 1\<rparr>) (ensure_node f (ensure_node t s)))"
    by (simp add: sorter_add_def modify_ensure_swap ensure_node_get)
  then show ?thesis
    using table_for_edge_existing [OF table_for_ensure [OF table_for_ensure [OF assms]], of f f t t] by simp
qed

lemma table_for_sorter_of:
  "table_for (set ns \<union> fst ` set es \<union> snd ` set es) es (sorter_of ns es)"
proof -
  have nodes: "table_for V [] s \<Longrightarrow> table_for (V \<union> set ns) [] (foldl (\<lambda>s n. sorter_add n [] s) s ns)" for V s
  proof (induction ns arbitrary: V s)
    case (Cons n ns)
    have "sorter_add n [] s = ensure_node n s"
      by (auto simp: sorter_add_def modify_node_def dict_set_same split: option.splits)
    then have "table_for (insert n V) [] (sorter_add n [] s)"
      using table_for_ensure [OF Cons.prems] by simp
    from Cons.IH [OF this] show ?case by simp
  qed simp
  have edges: "table_for V es0 s \<Longrightarrow>
      table_for (V \<union> fst ` set es \<union> snd ` set es) (es0 @ es) (foldl (\<lambda>s (f, t). sorter_add t [f] s) s es)"
    for V es0 s
  proof (induction es arbitrary: V es0 s)
    case (Cons e es)
    obtain f t where e: "e = (f, t)" by force
    from Cons.IH [OF table_for_edge [OF Cons.prems, of f t]] show ?case
      by (simp add: e Un_commute insert_commute)
  qed simp
  show ?thesis
    using edges [OF nodes [OF table_for_Nil]] by (simp add: sorter_of_def)
qed


section \<open>The loop computes a topological order\<close>

text \<open>The predecessor edges of \<open>n\<close> whose source is not yet done.\<close>

definition pending :: "('a \<times> 'a) list \<Rightarrow> 'a set \<Rightarrow> 'a \<Rightarrow> nat" where
  "pending es D n = length (filter (\<lambda>(f, t). t = n \<and> f \<notin> D) es)"

lemma foldl_dec_npred:
  assumes "foldl dec_succ (info, r) ns = (info', r')"
  shows "dict_get info' n = map_option (\<lambda>i. i\<lparr>npred := npred i - int (count_list ns n)\<rparr>) (dict_get info n)"
  using assms
proof (induction ns arbitrary: info r)
  case Nil
  then show ?case by (cases "dict_get info n") auto
next
  case (Cons m ns)
  obtain info1 r1 where d: "dec_succ (info, r) m = (info1, r1)" by force
  have "dict_get info1 n = map_option (\<lambda>i. i\<lparr>npred := npred i - of_bool (m = n)\<rparr>) (dict_get info n)"
    using d by (cases "dict_get info m"; cases "dict_get info n") (auto simp: dec_succ_def)
  moreover have "dict_get info' n =
      map_option (\<lambda>i. i\<lparr>npred := npred i - int (count_list ns n)\<rparr>) (dict_get info1 n)"
    using Cons.IH [of info1 r1] Cons.prems d by simp
  ultimately show ?case
    by (cases "dict_get info n") (auto simp: algebra_simps)
qed

text \<open>A node enters the ready list when its last predecessor edge is taken off.\<close>

lemma foldl_dec_ready:
  assumes "foldl dec_succ (info, r) ns = (info', r')" and "distinct r"
    and "\<And>n i. n \<in> set r \<Longrightarrow> dict_get info n = Some i \<Longrightarrow> npred i \<le> 0"
  shows "distinct r' \<and> set r' = set r \<union>
    {n. \<exists>i. dict_get info n = Some i \<and> 0 < npred i \<and> npred i \<le> int (count_list ns n)}"
  using assms
proof (induction ns arbitrary: info r)
  case Nil
  then show ?case by auto
next
  case (Cons m ns)
  obtain info1 r1 where d: "dec_succ (info, r) m = (info1, r1)" by force
  have get1: "dict_get info1 n = map_option (\<lambda>i. i\<lparr>npred := npred i - of_bool (m = n)\<rparr>) (dict_get info n)" for n
    using d by (cases "dict_get info m"; cases "dict_get info n") (auto simp: dec_succ_def)
  have r1: "r1 = r \<and> (\<forall>i. dict_get info m = Some i \<longrightarrow> npred i \<noteq> 1) \<or>
      r1 = r @ [m] \<and> (\<exists>i. dict_get info m = Some i \<and> npred i = 1)"
    using d by (cases "dict_get info m") (auto simp: dec_succ_def split: if_splits)
  have dist: "distinct r1" using r1 Cons.prems(2,3) by fastforce
  have neg: "npred i \<le> 0" if "n \<in> set r1" "dict_get info1 n = Some i" for n i
    using that r1 get1 [of n] Cons.prems(3) [of n] by (fastforce split: if_splits)
  have "distinct r' \<and> set r' = set r1 \<union>
      {n. \<exists>i. dict_get info1 n = Some i \<and> 0 < npred i \<and> npred i \<le> int (count_list ns n)}"
    using Cons.IH [OF _ dist] Cons.prems(1) d neg by simp
  moreover have "set r1 \<union> {n. \<exists>i. dict_get info1 n = Some i \<and> 0 < npred i \<and> npred i \<le> int (count_list ns n)} =
      set r \<union> {n. \<exists>i. dict_get info n = Some i \<and> 0 < npred i \<and> npred i \<le> int (count_list (m # ns) n)}"
    using r1 by (auto simp: get1 split: if_splits)
  ultimately show ?case by simp
qed


lemma foldl_mark_done_flat:
  assumes "\<And>n. n \<in> set ready \<Longrightarrow> \<exists>i. dict_get info n = Some i \<and> succs i = S n"
  shows "foldl mark_done (info, r) ready = foldl dec_succ (info, r) (concat (map S ready))"
  using assms
proof (induction ready arbitrary: info r)
  case (Cons n ready)
  obtain i where i: "dict_get info n = Some i" "succs i = S n" using Cons.prems by auto
  obtain info1 r1 where d: "foldl dec_succ (info, r) (S n) = (info1, r1)" by force
  have "\<exists>i. dict_get info1 m = Some i \<and> succs i = S m" if "m \<in> set ready" for m
    using foldl_dec_npred [OF d, of m] Cons.prems [of m] that by auto
  from Cons.IH [of info1 r1, OF this] show ?case
    using i d by (simp add: mark_done_def)
qed simp

lemma count_list_map_snd:
  "count_list (map snd (filter (\<lambda>(a, b). a = f) es)) n = length (filter (\<lambda>(a, b). b = n \<and> a = f) es)"
  by (induction es) auto

lemma length_filter_disj:
  "(\<And>x. x \<in> set es \<Longrightarrow> \<not> (P x \<and> Q x)) \<Longrightarrow>
     length (filter (\<lambda>x. P x \<or> Q x) es) = length (filter P es) + length (filter Q es)"
  by (induction es) auto

lemma count_concat_succs:
  "distinct ready \<Longrightarrow>
     count_list (concat (map (\<lambda>f. map snd (filter (\<lambda>(a, b). a = f) es)) ready)) n =
       length (filter (\<lambda>(a, b). b = n \<and> a \<in> set ready) es)"
proof (induction ready)
  case (Cons f ready)
  have "filter (\<lambda>(a, b). b = n \<and> a \<in> set (f # ready)) es =
      filter (\<lambda>x. (case x of (a, b) \<Rightarrow> b = n \<and> a = f) \<or> (case x of (a, b) \<Rightarrow> b = n \<and> a \<in> set ready)) es"
    by (intro filter_cong) auto
  then show ?case
    using Cons length_filter_disj [of es "\<lambda>(a, b). b = n \<and> a = f" "\<lambda>(a, b). b = n \<and> a \<in> set ready"]
    by (auto simp: count_list_append count_list_map_snd)
qed simp

lemma pending_split:
  assumes "D \<inter> R = {}"
  shows "pending es D n = pending es (D \<union> R) n + length (filter (\<lambda>(a, b). b = n \<and> a \<in> R) es)"
proof -
  have "filter (\<lambda>(f, t). t = n \<and> f \<notin> D) es =
      filter (\<lambda>x. (case x of (f, t) \<Rightarrow> t = n \<and> f \<notin> D \<union> R) \<or> (case x of (f, t) \<Rightarrow> t = n \<and> f \<in> R)) es"
    using assms by (intro filter_cong) auto
  then show ?thesis
    unfolding pending_def
    by (simp only:) (rule length_filter_disj, auto)
qed

lemma pending_0: "pending es D n = 0 \<longleftrightarrow> (\<forall>f. (f, n) \<in> set es \<longrightarrow> f \<in> D)"
  by (auto simp: pending_def filter_empty_conv)

text \<open>Every edge's source stands before its target.\<close>

definition edges_forward :: "('a \<times> 'a) list \<Rightarrow> 'a list \<Rightarrow> bool" where
  "edges_forward es order \<longleftrightarrow>
     (\<forall>xs t ys. order = xs @ t # ys \<longrightarrow> (\<forall>f. (f, t) \<in> set es \<longrightarrow> f \<in> set xs))"

lemma edges_forward_append:
  assumes "edges_forward es acc" and "\<And>t f. t \<in> set ready \<Longrightarrow> (f, t) \<in> set es \<Longrightarrow> f \<in> set acc"
  shows "edges_forward es (acc @ ready)"
  unfolding edges_forward_def
proof (intro allI impI)
  fix xs t ys f
  assume eq: "acc @ ready = xs @ t # ys" and e: "(f, t) \<in> set es"
  from eq obtain us where us: "acc = xs @ us \<and> us @ ready = t # ys \<or> acc @ us = xs \<and> ready = us @ t # ys"
    by (metis append_eq_append_conv2)
  have "(\<exists>zs. acc = xs @ t # zs) \<or> (\<exists>zs. xs = acc @ zs \<and> ready = zs @ t # ys)"
    using us by (cases us) auto
  then consider (acc) zs where "acc = xs @ t # zs" | (ready) zs where "xs = acc @ zs" "ready = zs @ t # ys"
    by blast
  then show "f \<in> set xs"
  proof cases
    case acc
    then show ?thesis using assms(1) e by (auto simp: edges_forward_def)
  next
    case ready
    then show ?thesis using assms(2) [of t f] e by auto
  qed
qed

lemma edges_forward_done: "edges_forward es acc \<Longrightarrow> n \<in> set acc \<Longrightarrow> pending es (set acc) n = 0"
  using split_list [of n acc] unfolding pending_0 edges_forward_def by (metis Un_iff set_append)

definition kahn_inv ::
  "'a set \<Rightarrow> ('a \<times> 'a) list \<Rightarrow> 'a sorter \<Rightarrow> 'a list \<Rightarrow> 'a list \<Rightarrow> bool" where
  "kahn_inv V es info ready acc \<longleftrightarrow>
     (\<forall>n. n \<in> V \<longleftrightarrow> dict_get info n \<noteq> None) \<and>
     (\<forall>n i. dict_get info n = Some i \<longrightarrow>
        npred i = int (pending es (set acc) n) \<and> succs i = map snd (filter (\<lambda>(f, t). f = n) es)) \<and>
     distinct (acc @ ready) \<and> set acc \<subseteq> V \<and>
     set ready = {n \<in> V. n \<notin> set acc \<and> pending es (set acc) n = 0} \<and>
     edges_forward es acc"

lemma kahn_inv_step:
  assumes inv: "kahn_inv V es info ready acc"
    and step: "foldl mark_done (info, []) ready = (info', ready')"
  shows "kahn_inv V es info' ready' (acc @ ready)"
proof -
  let ?S = "\<lambda>f. map snd (filter (\<lambda>(a, b). a = f) es)" and ?D = "set acc" and ?R = "set ready"
  let ?ns = "concat (map ?S ready)"
  have dom: "n \<in> V \<longleftrightarrow> dict_get info n \<noteq> None" for n using inv by (simp add: kahn_inv_def)
  have get: "npred i = int (pending es ?D n)" "succs i = ?S n" if "dict_get info n = Some i" for n i
    using inv that by (auto simp: kahn_inv_def)
  have R: "?R = {n \<in> V. n \<notin> ?D \<and> pending es ?D n = 0}" and dist: "distinct (acc @ ready)"
    and D: "?D \<subseteq> V" and resp: "edges_forward es acc"
    using inv by (auto simp: kahn_inv_def)
  have "foldl mark_done (info, []) ready = foldl dec_succ (info, []) ?ns"
    using R dom get(2) by (intro foldl_mark_done_flat) auto
  then have flat: "foldl dec_succ (info, []) ?ns = (info', ready')" using step by simp
  have cnt: "int (pending es ?D n) - int (count_list ?ns n) = int (pending es (set (acc @ ready)) n)" for n
    using pending_split [of ?D ?R es n] dist count_concat_succs [of ready es n] by (auto simp: Int_commute)
  have get': "dict_get info' n = map_option (\<lambda>i. i\<lparr>npred := npred i - int (count_list ?ns n)\<rparr>) (dict_get info n)" for n
    by (rule foldl_dec_npred [OF flat])
  have new: "distinct ready'" "set ready' =
      {n. \<exists>i. dict_get info n = Some i \<and> 0 < npred i \<and> npred i \<le> int (count_list ?ns n)}"
    using foldl_dec_ready [OF flat] by auto
  have ready': "set ready' = {n \<in> V. n \<notin> set (acc @ ready) \<and> pending es (set (acc @ ready)) n = 0}"
  proof (intro set_eqI iffI)
    fix n assume "n \<in> set ready'"
    then obtain i where i: "dict_get info n = Some i" "0 < npred i" "npred i \<le> int (count_list ?ns n)"
      using new(2) by auto
    have "n \<notin> ?R" using i get(1) [OF i(1)] R by auto
    moreover have "n \<notin> ?D"
      using i(2) get(1) [OF i(1)] edges_forward_done [OF resp, of n] by auto
    ultimately show "n \<in> {n \<in> V. n \<notin> set (acc @ ready) \<and> pending es (set (acc @ ready)) n = 0}"
      using i get(1) [OF i(1)] cnt [of n] dom by auto
  next
    fix n assume n: "n \<in> {n \<in> V. n \<notin> set (acc @ ready) \<and> pending es (set (acc @ ready)) n = 0}"
    then obtain i where i: "dict_get info n = Some i" using dom by auto
    have "pending es ?D n \<noteq> 0" using n R by auto
    then show "n \<in> set ready'"
      using n i get(1) [OF i] cnt [of n] new(2) by auto
  qed
  have "edges_forward es (acc @ ready)"
    using resp R by (intro edges_forward_append) (auto simp: pending_0)
  moreover have "npred i = int (pending es (set (acc @ ready)) n) \<and> succs i = ?S n"
    if i: "dict_get info' n = Some i" for n i
  proof -
    obtain j where j: "dict_get info n = Some j" "i = j\<lparr>npred := npred j - int (count_list ?ns n)\<rparr>"
      using i get' [of n] by (cases "dict_get info n") auto
    then show ?thesis using get [OF j(1)] cnt [of n] by simp
  qed
  moreover have "n \<in> V \<longleftrightarrow> dict_get info' n \<noteq> None" for n
    using dom [of n] get' [of n] by simp
  moreover have "distinct ((acc @ ready) @ ready')"
    using dist new(1) unfolding distinct_append ready' by blast
  moreover have "set (acc @ ready) \<subseteq> V" using D R by auto
  ultimately show ?thesis
    unfolding kahn_inv_def using ready' by blast
qed


lemma kahn_result:
  "kahn_inv V es info ready acc \<Longrightarrow> \<exists>info'. kahn_inv V es info' [] (kahn info ready acc)"
proof (induction info ready acc rule: kahn.induct)
  case (1 info ready acc)
  obtain info' ready' where step: "foldl mark_done (info, []) ready = (info', ready')" by force
  show ?case
  proof (cases "ready = []")
    case True
    then show ?thesis using "1.prems" by (auto simp: kahn.simps [of info "[]" acc])
  next
    case False
    have "\<exists>i. kahn_inv V es i [] (kahn info' ready' (acc @ ready))"
      using "1.IH" [OF False step [symmetric]] kahn_inv_step [OF "1.prems" step] by simp
    then show ?thesis using False step by (simp add: kahn.simps [of info ready acc])
  qed
qed

lemma kahn_inv_start:
  assumes t: "table_for V es s"
  shows "kahn_inv V es s (map fst (filter (\<lambda>(n, i). npred i = 0) s)) []"
proof -
  have pend: "pending es {} n = length (filter (\<lambda>(f, t). t = n) es)" for n
    by (simp add: pending_def)
  have "distinct (map fst (filter (\<lambda>(n, i). npred i = 0) s))"
    using t by (simp add: table_for_def dict_ok_def distinct_map_filter)
  moreover have "set (map fst (filter (\<lambda>(n, i). npred i = 0) s)) = {n \<in> V. pending es {} n = 0}"
  proof (intro set_eqI)
    fix n
    have "n \<in> set (map fst (filter (\<lambda>(n, i). npred i = 0) s)) \<longleftrightarrow> (\<exists>i. (n, i) \<in> set s \<and> npred i = 0)"
      by force
    also have "\<dots> \<longleftrightarrow> (\<exists>i. dict_get s n = Some i \<and> npred i = 0)"
      using t by (simp add: table_for_def dict_get_iff)
    also have "\<dots> \<longleftrightarrow> n \<in> V \<and> pending es {} n = 0"
      using t by (fastforce simp: table_for_def pend)
    finally show "n \<in> set (map fst (filter (\<lambda>(n, i). npred i = 0) s)) \<longleftrightarrow> n \<in> {n \<in> V. pending es {} n = 0}"
      by simp
  qed
  moreover have "edges_forward es []" by (simp add: edges_forward_def)
  ultimately show ?thesis
    using t by (auto simp: kahn_inv_def table_for_def pend)
qed

lemma length_table: "table_for V es s \<Longrightarrow> length s = card V \<and> finite V"
proof -
  assume t: "table_for V es s"
  then have "V = set (map fst s)"
    using map_of_eq_None_iff [of s] by (fastforce simp: table_for_def)
  then show ?thesis using t distinct_card [of "map fst s"] by (simp add: table_for_def dict_ok_def)
qed

lemma static_order_SomeD:
  assumes t: "table_for V es s" and so: "static_order s = Some order"
  shows "distinct order \<and> set order = V \<and> edges_forward es order"
proof -
  let ?k = "kahn s (map fst (filter (\<lambda>(n, i). npred i = 0) s)) []"
  from kahn_result [OF kahn_inv_start [OF t]] obtain info where k: "kahn_inv V es info [] ?k" by blast
  have o: "order = ?k" "length ?k = card V"
    using so length_table [OF t] by (auto simp: static_order_def Let_def split: if_splits)
  have "distinct ?k" "set ?k \<subseteq> V" using k by (auto simp: kahn_inv_def)
  then have "set ?k = V" using o(2) length_table [OF t] by (metis card_subset_eq distinct_card)
  then show ?thesis using k o(1) by (auto simp: kahn_inv_def)
qed

lemma static_order_NoneD:
  assumes t: "table_for V es s" and so: "static_order s = None"
  shows "\<not> acyclic (set es)"
proof
  assume ac: "acyclic (set es)"
  let ?k = "kahn s (map fst (filter (\<lambda>(n, i). npred i = 0) s)) []"
  from kahn_result [OF kahn_inv_start [OF t]] obtain info where k: "kahn_inv V es info [] ?k" by blast
  have "length ?k \<noteq> card V"
    using so length_table [OF t] by (auto simp: static_order_def Let_def split: if_splits)
  then have "set ?k \<noteq> V" using k by (auto simp: kahn_inv_def dest: distinct_card)
  then have "set ?k \<subset> V" using k by (auto simp only: kahn_inv_def)
  then obtain n0 where n0: "n0 \<in> V - set ?k" by blast
  have "wf (set es)" using ac by (intro finite_acyclic_wf) simp_all
  then obtain n where n: "n \<in> V - set ?k" "\<And>f. (f, n) \<in> set es \<Longrightarrow> f \<notin> V - set ?k"
    using n0 by (metis wfE_min)
  have "pending es (set ?k) n \<noteq> 0" using k n(1) by (auto simp: kahn_inv_def)
  then obtain f where "(f, n) \<in> set es" "f \<notin> set ?k" by (auto simp: pending_0)
  moreover from this have "f \<in> V" using t by (auto simp: table_for_def)
  ultimately show False using n(2) by blast
qed

text \<open>A forward order rules cycles out: each edge increases the position.\<close>

lemma edges_forward_acyclic:
  assumes fw: "edges_forward es order" and d: "distinct order" and sub: "\<forall>(f, t) \<in> set es. t \<in> set order"
  shows "acyclic (set es)"
proof -
  define pos where "pos n = length (takeWhile (\<lambda>x. x \<noteq> n) order)" for n
  have lt: "pos f < pos t" if e: "(f, t) \<in> set es" for f t
  proof -
    obtain xs ys where o: "order = xs @ t # ys"
      using sub e split_list [of t order] by blast
    then have f: "f \<in> set xs" using fw e by (auto simp: edges_forward_def)
    have t: "t \<notin> set xs" using d o by auto
    have "pos t = length xs"
      using t unfolding pos_def o by (subst takeWhile_append2) auto
    moreover obtain us vs where us: "xs = us @ f # vs" "f \<notin> set us"
      using f split_list_first by metis
    then have "pos f = length us"
      unfolding pos_def o us(1) append_assoc by (subst takeWhile_append2) auto
    then have "pos f < length xs" using us(1) by simp
    ultimately show ?thesis by simp
  qed
  have "pos x < pos y" if "(x, y) \<in> (set es)\<^sup>+" for x y
    using that by (induction rule: trancl_induct) (auto dest: lt)
  then show ?thesis by (auto simp: acyclic_def)
qed

lemma static_order_None_iff:
  assumes t: "table_for V es s"
  shows "static_order s = None \<longleftrightarrow> \<not> acyclic (set es)"
proof
  assume "static_order s = None"
  then show "\<not> acyclic (set es)" by (rule static_order_NoneD [OF t])
next
  assume cyc: "\<not> acyclic (set es)"
  show "static_order s = None"
  proof (rule ccontr)
    assume "static_order s \<noteq> None"
    then obtain order where "static_order s = Some order" by blast
    from static_order_SomeD [OF t this] have "acyclic (set es)"
      using t by (intro edges_forward_acyclic [of es order]) (auto simp: table_for_def)
    with cyc show False by simp
  qed
qed

end
