(* ===== verification/Graph.thy ===== *)
theory Graph
  imports Registry Sessions Toposort
begin

text \<open>
  \<^verbatim>\<open>graph.py\<close>: the graph data model, the parser of its wire format and the validator.

  Each message of the source is a constructor of \<open>parse_error\<close> or \<open>validation_error\<close> that
  carries the values the message prints. \<open>parse_graph\<close> stops at the first problem, in the order
  of the code; \<open>validate_graph\<close> returns every error, in the order of the code.

  \<open>valid_graph\<close> is the abstract contract of ADR 0005 and ADR 0014 (ids unique, modules and
  ports known, types equal, every input fed exactly once, groups and outputs well declared,
  no cycle); \<open>validate_graph_Nil\<close> states that the error list is empty exactly on valid
  graphs. \<open>graph_to_json\<close> is the wire format as a client writes it, for the round trip, and
  \<open>keep_known\<close> drops from a message every field the parser does not know.
\<close>

record node =
  nd_id :: string
  nd_module :: string
  nd_params :: params

record edge =
  from_node :: string
  from_port :: string
  to_node :: string
  to_port :: string

record binding =
  b_payload :: string
  b_node :: string
  b_port :: string

record output_ref =
  o_node :: string
  o_port :: string
  o_group :: "string option"

record output_group =
  grp_id :: string
  grp_order :: string

record graph =
  g_nodes :: "node list"
  g_edges :: "edge list"
  g_bindings :: "binding list"
  g_outputs :: "output_ref list"
  g_groups :: "output_group list"

definition output_group_orders :: "string list" where
  "output_group_orders = [''completion'', ''pinned'']"

section \<open>Parsing\<close>

datatype parse_error =
    NotAnArray string
  | NotAnObject string nat
  | NotAString string nat string
  | ParamsNotObject nat
  | GroupNotString nat
  | OrderNotString nat
  | MissingKey string
  | NoGetAttribute

definition array_field :: "(string \<times> json) list \<Rightarrow> string \<Rightarrow> parse_error + json list" where
  "array_field data name = (case dict_get data name of
     None \<Rightarrow> Inr []
   | Some (JArr vs) \<Rightarrow> Inr vs
   | Some _ \<Rightarrow> Inl (NotAnArray name))"

definition object_value :: "string \<Rightarrow> nat \<Rightarrow> json \<Rightarrow> parse_error + (string \<times> json) list" where
  "object_value loc i value = (case value of JObj kvs \<Rightarrow> Inr kvs | _ \<Rightarrow> Inl (NotAnObject loc i))"

definition string_field ::
  "(string \<times> json) list \<Rightarrow> string \<Rightarrow> string \<Rightarrow> nat \<Rightarrow> parse_error + string" where
  "string_field data name loc i = (case dict_get data name of
     None \<Rightarrow> Inl (MissingKey name)
   | Some (JStr s) \<Rightarrow> Inr s
   | Some _ \<Rightarrow> Inl (NotAString loc i name))"

definition parse_node :: "nat \<Rightarrow> json \<Rightarrow> parse_error + node" where
  "parse_node i value =
     ebind (object_value ''nodes'' i value) (\<lambda>data.
     ebind (case dict_get data ''params'' of
              None \<Rightarrow> Inr [] | Some (JObj ps) \<Rightarrow> Inr ps | Some _ \<Rightarrow> Inl (ParamsNotObject i)) (\<lambda>ps.
     ebind (string_field data ''id'' ''nodes'' i) (\<lambda>nid.
     ebind (string_field data ''module'' ''nodes'' i) (\<lambda>md.
       Inr \<lparr>nd_id = nid, nd_module = md, nd_params = ps\<rparr>))))"

definition parse_edge :: "nat \<Rightarrow> json \<Rightarrow> parse_error + edge" where
  "parse_edge i value =
     ebind (object_value ''edges'' i value) (\<lambda>data.
     ebind (string_field data ''from_node'' ''edges'' i) (\<lambda>fn.
     ebind (string_field data ''from_port'' ''edges'' i) (\<lambda>fp.
     ebind (string_field data ''to_node'' ''edges'' i) (\<lambda>tn.
     ebind (string_field data ''to_port'' ''edges'' i) (\<lambda>tp.
       Inr \<lparr>from_node = fn, from_port = fp, to_node = tn, to_port = tp\<rparr>)))))"

definition parse_binding :: "nat \<Rightarrow> json \<Rightarrow> parse_error + binding" where
  "parse_binding i value =
     ebind (object_value ''bindings'' i value) (\<lambda>data.
     ebind (string_field data ''payload'' ''bindings'' i) (\<lambda>pl.
     ebind (string_field data ''node'' ''bindings'' i) (\<lambda>nd.
     ebind (string_field data ''port'' ''bindings'' i) (\<lambda>pt.
       Inr \<lparr>b_payload = pl, b_node = nd, b_port = pt\<rparr>))))"

definition parse_output :: "nat \<Rightarrow> json \<Rightarrow> parse_error + output_ref" where
  "parse_output i value =
     ebind (object_value ''outputs'' i value) (\<lambda>data.
     ebind (case dict_get data ''group'' of
              None \<Rightarrow> Inr None | Some JNull \<Rightarrow> Inr None | Some (JStr s) \<Rightarrow> Inr (Some s)
            | Some _ \<Rightarrow> Inl (GroupNotString i)) (\<lambda>grp.
     ebind (string_field data ''node'' ''outputs'' i) (\<lambda>nd.
     ebind (string_field data ''port'' ''outputs'' i) (\<lambda>pt.
       Inr \<lparr>o_node = nd, o_port = pt, o_group = grp\<rparr>))))"

definition parse_group :: "nat \<Rightarrow> json \<Rightarrow> parse_error + output_group" where
  "parse_group i value =
     ebind (object_value ''groups'' i value) (\<lambda>data.
     ebind (case dict_get data ''order'' of
              None \<Rightarrow> Inr ''completion'' | Some (JStr s) \<Rightarrow> Inr s | Some _ \<Rightarrow> Inl (OrderNotString i)) (\<lambda>ord.
     ebind (string_field data ''id'' ''groups'' i) (\<lambda>gid.
       Inr \<lparr>grp_id = gid, grp_order = ord\<rparr>)))"

definition parse_list ::
  "(string \<times> json) list \<Rightarrow> string \<Rightarrow> (nat \<Rightarrow> json \<Rightarrow> parse_error + 'a) \<Rightarrow> parse_error + 'a list" where
  "parse_list data name f = ebind (array_field data name) (enumerate_map f 0)"

text \<open>Anything but an object has no \<open>get\<close>: the \<open>AttributeError\<close> is caught like the others.\<close>

definition parse_graph :: "json \<Rightarrow> parse_error + graph" where
  "parse_graph value = (case value of
     JObj data \<Rightarrow>
       ebind (parse_list data ''nodes'' parse_node) (\<lambda>ns.
       ebind (parse_list data ''edges'' parse_edge) (\<lambda>es.
       ebind (parse_list data ''bindings'' parse_binding) (\<lambda>bs.
       ebind (parse_list data ''outputs'' parse_output) (\<lambda>os.
       ebind (parse_list data ''groups'' parse_group) (\<lambda>gs.
         Inr \<lparr>g_nodes = ns, g_edges = es, g_bindings = bs, g_outputs = os, g_groups = gs\<rparr>)))))
   | _ \<Rightarrow> Inl NoGetAttribute)"

section \<open>Topological order\<close>

definition dep_edges :: "graph \<Rightarrow> (string \<times> string) list" where
  "dep_edges g = map (\<lambda>e. (from_node e, to_node e)) (g_edges g)"

definition topological_order :: "graph \<Rightarrow> string list option" where
  "topological_order g = static_order (sorter_of (map nd_id (g_nodes g)) (dep_edges g))"

section \<open>Validation\<close>

datatype validation_error =
    DuplicateNodeId string
  | UnknownModule string string
  | NoNodes
  | NoOutputs
  | EdgeFromUnknownPort string string
  | EdgeToUnknownPort string string
  | EdgeTypeMismatch edge string string
  | BindingToUnknownPort string string
  | UnknownPayload string
  | BindingTypeMismatch binding string string
  | InputNotFed string string
  | InputFedTimes string string nat
  | GroupWithoutId
  | DuplicateGroupId string
  | UnknownGroupOrder string string
  | DuplicateOutputRef string string
  | OutputUnknownPort string string
  | UndeclaredGroup string string string
  | GraphHasCycle

fun node_errors ::
  "registry \<Rightarrow> (string, node) dict \<Rightarrow> node list \<Rightarrow> validation_error list \<times> (string, node) dict" where
  "node_errors reg byid [] = ([], byid)"
| "node_errors reg byid (n # ns) =
     (let dup = (if dict_get byid (nd_id n) \<noteq> None then [DuplicateNodeId (nd_id n)] else []);
          unk = (if registry_get reg (nd_module n) = None
                 then [UnknownModule (nd_id n) (nd_module n)] else [])
      in case node_errors reg (dict_set (nd_id n) n byid) ns of
           (errs, byid') \<Rightarrow> (dup @ unk @ errs, byid'))"

definition node_module :: "registry \<Rightarrow> (string, node) dict \<Rightarrow> string \<Rightarrow> pymodule option" where
  "node_module reg byid nid =
     Option.bind (dict_get byid nid) (\<lambda>n. registry_get reg (nd_module n))"

definition output_type :: "registry \<Rightarrow> (string, node) dict \<Rightarrow> string \<Rightarrow> string \<Rightarrow> string option" where
  "output_type reg byid nid port =
     Option.bind (node_module reg byid nid) (\<lambda>md.
       map_option port_type (output_port (mod_manifest md) port))"

definition input_type :: "registry \<Rightarrow> (string, node) dict \<Rightarrow> string \<Rightarrow> string \<Rightarrow> string option" where
  "input_type reg byid nid port =
     Option.bind (node_module reg byid nid) (\<lambda>md.
       map_option port_type (input_port (mod_manifest md) port))"

definition edge_errors :: "registry \<Rightarrow> (string, node) dict \<Rightarrow> edge \<Rightarrow> validation_error list" where
  "edge_errors reg byid e =
     (let src = output_type reg byid (from_node e) (from_port e);
          dst = input_type reg byid (to_node e) (to_port e)
      in (if src = None then [EdgeFromUnknownPort (from_node e) (from_port e)] else []) @
         (if dst = None then [EdgeToUnknownPort (to_node e) (to_port e)] else []) @
         (case (src, dst) of
            (Some s, Some d) \<Rightarrow> (if s \<noteq> d then [EdgeTypeMismatch e s d] else []) | _ \<Rightarrow> []))"

definition binding_errors ::
  "registry \<Rightarrow> (string, node) dict \<Rightarrow> session \<Rightarrow> binding \<Rightarrow> validation_error list" where
  "binding_errors reg byid ses b =
     (let dst = input_type reg byid (b_node b) (b_port b)
      in (if dst = None then [BindingToUnknownPort (b_node b) (b_port b)] else []) @
         (case get_payload ses (b_payload b) of
            None \<Rightarrow> [UnknownPayload (b_payload b)]
          | Some p \<Rightarrow>
              (case dst of
                 None \<Rightarrow> []
               | Some d \<Rightarrow> (if pl_type p \<noteq> d then [BindingTypeMismatch b (pl_type p) d] else []))))"

text \<open>\<open>fed[key] = fed.get(key, 0) + 1\<close>, over the edges and then the bindings.\<close>

definition feed :: "(string \<times> string, nat) dict \<Rightarrow> string \<times> string \<Rightarrow> (string \<times> string, nat) dict" where
  "feed fed key = dict_set key ((case dict_get fed key of None \<Rightarrow> 0 | Some c \<Rightarrow> c) + 1) fed"

definition feed_keys :: "graph \<Rightarrow> (string \<times> string) list" where
  "feed_keys g = map (\<lambda>e. (to_node e, to_port e)) (g_edges g) @ map (\<lambda>b. (b_node b, b_port b)) (g_bindings g)"

definition fed_counts :: "graph \<Rightarrow> (string \<times> string, nat) dict" where
  "fed_counts g = foldl feed [] (feed_keys g)"

definition input_errors ::
  "registry \<Rightarrow> (string \<times> string, nat) dict \<Rightarrow> node \<Rightarrow> validation_error list" where
  "input_errors reg fed n = (case registry_get reg (nd_module n) of
     None \<Rightarrow> []
   | Some md \<Rightarrow>
       concat (map (\<lambda>p.
         let c = (case dict_get fed (nd_id n, port_name p) of None \<Rightarrow> 0 | Some c \<Rightarrow> c)
         in if c = 0 then [InputNotFed (nd_id n) (port_name p)]
            else if c > 1 then [InputFedTimes (nd_id n) (port_name p) c] else [])
         (m_inputs (mod_manifest md))))"

fun group_errors ::
  "(string, output_group) dict \<Rightarrow> output_group list \<Rightarrow>
     validation_error list \<times> (string, output_group) dict" where
  "group_errors byid [] = ([], byid)"
| "group_errors byid (gr # gs) =
     (let e1 = (if grp_id gr = [] then [GroupWithoutId] else []);
          e2 = (if dict_get byid (grp_id gr) \<noteq> None then [DuplicateGroupId (grp_id gr)] else []);
          e3 = (if grp_order gr \<notin> set output_group_orders
                then [UnknownGroupOrder (grp_id gr) (grp_order gr)] else [])
      in case group_errors (dict_set (grp_id gr) gr byid) gs of
           (errs, byid') \<Rightarrow> (e1 @ e2 @ e3 @ errs, byid'))"

fun output_errors ::
  "registry \<Rightarrow> (string, node) dict \<Rightarrow> (string, output_group) dict \<Rightarrow> (string \<times> string) list \<Rightarrow>
     output_ref list \<Rightarrow> validation_error list" where
  "output_errors reg byid groups seen [] = []"
| "output_errors reg byid groups seen (r # rs) =
     (if (o_node r, o_port r) \<in> set seen then [DuplicateOutputRef (o_node r) (o_port r)] else []) @
     (if output_type reg byid (o_node r) (o_port r) = None
      then [OutputUnknownPort (o_node r) (o_port r)] else []) @
     (case o_group r of
        None \<Rightarrow> []
      | Some gid \<Rightarrow>
          (if dict_get groups gid = None then [UndeclaredGroup (o_node r) (o_port r) gid] else [])) @
     output_errors reg byid groups ((o_node r, o_port r) # seen) rs"

definition validate_graph :: "graph \<Rightarrow> registry \<Rightarrow> session \<Rightarrow> validation_error list" where
  "validate_graph g reg ses =
     (case node_errors reg [] (g_nodes g) of (nerrs, byid) \<Rightarrow>
      case group_errors [] (g_groups g) of (gerrs, groups) \<Rightarrow>
        nerrs @
        (if g_nodes g = [] then [NoNodes] else []) @
        (if g_outputs g = [] then [NoOutputs] else []) @
        concat (map (edge_errors reg byid) (g_edges g)) @
        concat (map (binding_errors reg byid ses) (g_bindings g)) @
        concat (map (input_errors reg (fed_counts g)) (g_nodes g)) @
        gerrs @
        output_errors reg byid groups [] (g_outputs g) @
        (if topological_order g = None then [GraphHasCycle] else []))"

section \<open>The contract of a valid graph\<close>

definition node_has_output :: "registry \<Rightarrow> graph \<Rightarrow> string \<Rightarrow> string \<Rightarrow> string \<Rightarrow> bool" where
  "node_has_output reg g nid port ty \<longleftrightarrow>
     (\<exists>n \<in> set (g_nodes g). \<exists>md p. nd_id n = nid \<and> registry_get reg (nd_module n) = Some md \<and>
        output_port (mod_manifest md) port = Some p \<and> port_type p = ty)"

definition node_has_input :: "registry \<Rightarrow> graph \<Rightarrow> string \<Rightarrow> string \<Rightarrow> string \<Rightarrow> bool" where
  "node_has_input reg g nid port ty \<longleftrightarrow>
     (\<exists>n \<in> set (g_nodes g). \<exists>md p. nd_id n = nid \<and> registry_get reg (nd_module n) = Some md \<and>
        input_port (mod_manifest md) port = Some p \<and> port_type p = ty)"

definition valid_nodes :: "registry \<Rightarrow> graph \<Rightarrow> bool" where
  "valid_nodes reg g \<longleftrightarrow> g_nodes g \<noteq> [] \<and> distinct (map nd_id (g_nodes g)) \<and>
     (\<forall>n \<in> set (g_nodes g). registry_get reg (nd_module n) \<noteq> None)"

definition valid_wiring :: "registry \<Rightarrow> session \<Rightarrow> graph \<Rightarrow> bool" where
  "valid_wiring reg ses g \<longleftrightarrow>
     (\<forall>e \<in> set (g_edges g). \<exists>ty. node_has_output reg g (from_node e) (from_port e) ty \<and>
        node_has_input reg g (to_node e) (to_port e) ty) \<and>
     (\<forall>b \<in> set (g_bindings g). \<exists>p. get_payload ses (b_payload b) = Some p \<and>
        node_has_input reg g (b_node b) (b_port b) (pl_type p)) \<and>
     (\<forall>n \<in> set (g_nodes g). \<forall>md. registry_get reg (nd_module n) = Some md \<longrightarrow>
        (\<forall>p \<in> set (m_inputs (mod_manifest md)). count_list (feed_keys g) (nd_id n, port_name p) = 1))"

definition valid_outputs :: "registry \<Rightarrow> graph \<Rightarrow> bool" where
  "valid_outputs reg g \<longleftrightarrow> g_outputs g \<noteq> [] \<and>
     distinct (map (\<lambda>r. (o_node r, o_port r)) (g_outputs g)) \<and>
     (\<forall>r \<in> set (g_outputs g). (\<exists>ty. node_has_output reg g (o_node r) (o_port r) ty) \<and>
        (\<forall>gid. o_group r = Some gid \<longrightarrow> gid \<in> grp_id ` set (g_groups g))) \<and>
     distinct (map grp_id (g_groups g)) \<and>
     (\<forall>gr \<in> set (g_groups g). grp_id gr \<noteq> [] \<and> grp_order gr \<in> {''completion'', ''pinned''})"

definition valid_graph :: "registry \<Rightarrow> session \<Rightarrow> graph \<Rightarrow> bool" where
  "valid_graph reg ses g \<longleftrightarrow> valid_nodes reg g \<and> valid_wiring reg ses g \<and> valid_outputs reg g \<and>
     acyclic (set (dep_edges g))"

section \<open>The validator decides the contract\<close>

definition nodes_by_id :: "graph \<Rightarrow> (string, node) dict" where
  "nodes_by_id g = dict_of nd_id (\<lambda>n. n) (g_nodes g)"

definition groups_by_id :: "graph \<Rightarrow> (string, output_group) dict" where
  "groups_by_id g = dict_of grp_id (\<lambda>gr. gr) (g_groups g)"

lemma node_errors_snd:
  "snd (node_errors reg byid ns) = foldl (\<lambda>d n. dict_set (nd_id n) n d) byid ns"
  by (induction ns arbitrary: byid) (simp_all add: Let_def case_prod_beta)

lemma node_errors_fst:
  "fst (node_errors reg byid ns) = [] \<longleftrightarrow> distinct (map nd_id ns) \<and>
     (\<forall>n \<in> set ns. dict_get byid (nd_id n) = None \<and> registry_get reg (nd_module n) \<noteq> None)"
proof (induction ns arbitrary: byid)
  case (Cons n ns)
  have "(\<forall>a \<in> set ns. dict_get (dict_set (nd_id n) n byid) (nd_id a) = None \<and> Q a) \<longleftrightarrow>
      nd_id n \<notin> set (map nd_id ns) \<and> (\<forall>a \<in> set ns. dict_get byid (nd_id a) = None \<and> Q a)" for Q
    by (simp add: image_iff) metis
  then show ?case by (auto simp: Let_def case_prod_beta Cons.IH simp del: dict_get_set)
qed simp

lemma group_errors_snd:
  "snd (group_errors byid gs) = foldl (\<lambda>d gr. dict_set (grp_id gr) gr d) byid gs"
  by (induction gs arbitrary: byid) (simp_all add: Let_def case_prod_beta)

lemma group_errors_fst:
  "fst (group_errors byid gs) = [] \<longleftrightarrow> distinct (map grp_id gs) \<and>
     (\<forall>gr \<in> set gs. dict_get byid (grp_id gr) = None \<and> grp_id gr \<noteq> [] \<and>
        grp_order gr \<in> set output_group_orders)"
proof (induction gs arbitrary: byid)
  case (Cons gr gs)
  have "(\<forall>a \<in> set gs. dict_get (dict_set (grp_id gr) gr byid) (grp_id a) = None \<and> Q a) \<longleftrightarrow>
      grp_id gr \<notin> set (map grp_id gs) \<and> (\<forall>a \<in> set gs. dict_get byid (grp_id a) = None \<and> Q a)" for Q
    by (simp add: image_iff) metis
  then show ?case by (auto simp: Let_def case_prod_beta Cons.IH simp del: dict_get_set)
qed simp

lemma output_errors_Nil:
  "output_errors reg byid groups seen rs = [] \<longleftrightarrow>
     distinct (map (\<lambda>r. (o_node r, o_port r)) rs) \<and>
     (\<forall>r \<in> set rs. (o_node r, o_port r) \<notin> set seen \<and>
        (\<exists>ty. output_type reg byid (o_node r) (o_port r) = Some ty) \<and>
        (\<forall>gid. o_group r = Some gid \<longrightarrow> dict_get groups gid \<noteq> None))"
  by (induction rs arbitrary: seen) (auto simp: image_iff split: option.splits)

lemma fed_counts_get:
  "(case dict_get (fed_counts g) k of None \<Rightarrow> 0 | Some c \<Rightarrow> c) = count_list (feed_keys g) k"
proof -
  have "(case dict_get (foldl feed d ks) k of None \<Rightarrow> 0 | Some c \<Rightarrow> c) =
      (case dict_get d k of None \<Rightarrow> 0 | Some c \<Rightarrow> c) + count_list ks k" for d ks
    by (induction ks arbitrary: d) (auto simp: feed_def split: option.splits)
  then show ?thesis by (simp add: fed_counts_def)
qed

lemma input_errors_Nil:
  "input_errors reg (fed_counts g) n = [] \<longleftrightarrow>
     (\<forall>md. registry_get reg (nd_module n) = Some md \<longrightarrow>
        (\<forall>p \<in> set (m_inputs (mod_manifest md)). count_list (feed_keys g) (nd_id n, port_name p) = 1))"
proof (cases "registry_get reg (nd_module n)")
  case (Some md)
  have "(if c = 0 then [x] else if c > 1 then [y] else []) = [] \<longleftrightarrow> c = 1" for c :: nat and x y :: validation_error
    by auto
  then show ?thesis
    by (simp only: input_errors_def Some option.case concat_eq_Nil_conv fed_counts_get Let_def
        set_map ball_simps option.inject) simp
qed (simp add: input_errors_def)

lemma edge_errors_Nil:
  "edge_errors reg byid e = [] \<longleftrightarrow>
     (\<exists>ty. output_type reg byid (from_node e) (from_port e) = Some ty \<and>
        input_type reg byid (to_node e) (to_port e) = Some ty)"
  by (cases "output_type reg byid (from_node e) (from_port e)";
      cases "input_type reg byid (to_node e) (to_port e)") (auto simp: edge_errors_def)

lemma binding_errors_Nil:
  "binding_errors reg byid ses b = [] \<longleftrightarrow>
     (\<exists>p. get_payload ses (b_payload b) = Some p \<and>
        input_type reg byid (b_node b) (b_port b) = Some (pl_type p))"
  by (cases "get_payload ses (b_payload b)"; cases "input_type reg byid (b_node b) (b_port b)")
    (auto simp: binding_errors_def)

lemma nodes_by_id_get:
  "distinct (map nd_id (g_nodes g)) \<Longrightarrow>
     dict_get (nodes_by_id g) nid = Some n \<longleftrightarrow> n \<in> set (g_nodes g) \<and> nd_id n = nid"
  unfolding nodes_by_id_def
  using dict_of_get_elem [of nd_id "g_nodes g" n "\<lambda>n. n"]
    dict_of_get_in [of nd_id "\<lambda>n. n" "g_nodes g" nid n] by auto

lemma output_type_spec:
  "distinct (map nd_id (g_nodes g)) \<Longrightarrow>
     output_type reg (nodes_by_id g) nid port = Some ty \<longleftrightarrow> node_has_output reg g nid port ty"
  unfolding output_type_def node_module_def node_has_output_def bind_eq_Some_conv
  by (simp only: nodes_by_id_get map_option_eq_Some) blast

lemma input_type_spec:
  "distinct (map nd_id (g_nodes g)) \<Longrightarrow>
     input_type reg (nodes_by_id g) nid port = Some ty \<longleftrightarrow> node_has_input reg g nid port ty"
  unfolding input_type_def node_module_def node_has_input_def bind_eq_Some_conv
  by (simp only: nodes_by_id_get map_option_eq_Some) blast

lemma table_for_graph:
  "table_for (set (map nd_id (g_nodes g)) \<union> fst ` set (dep_edges g) \<union> snd ` set (dep_edges g))
     (dep_edges g) (sorter_of (map nd_id (g_nodes g)) (dep_edges g))"
  by (rule table_for_sorter_of)

lemma topological_order_None: "topological_order g = None \<longleftrightarrow> \<not> acyclic (set (dep_edges g))"
  unfolding topological_order_def by (rule static_order_None_iff [OF table_for_graph])

lemma validate_graph_Nil:
  "validate_graph g reg ses = [] \<longleftrightarrow> valid_graph reg ses g"
proof -
  let ?n = "node_errors reg [] (g_nodes g)" and ?g = "group_errors [] (g_groups g)"
  have byid: "snd ?n = nodes_by_id g" "snd ?g = groups_by_id g"
    by (simp_all add: node_errors_snd group_errors_snd nodes_by_id_def groups_by_id_def dict_of_def)
  have grp: "(\<exists>gr. dict_get (groups_by_id g) gid = Some gr) \<longleftrightarrow> gid \<in> grp_id ` set (g_groups g)" for gid
    using dict_of_dom [of grp_id "\<lambda>gr. gr" "g_groups g" gid] by (simp add: groups_by_id_def)
  have "validate_graph g reg ses = [] \<longleftrightarrow>
      fst ?n = [] \<and> g_nodes g \<noteq> [] \<and> g_outputs g \<noteq> [] \<and>
      (\<forall>e \<in> set (g_edges g). edge_errors reg (nodes_by_id g) e = []) \<and>
      (\<forall>b \<in> set (g_bindings g). binding_errors reg (nodes_by_id g) ses b = []) \<and>
      (\<forall>n \<in> set (g_nodes g). input_errors reg (fed_counts g) n = []) \<and>
      fst ?g = [] \<and> output_errors reg (nodes_by_id g) (groups_by_id g) [] (g_outputs g) = [] \<and>
      acyclic (set (dep_edges g))"
    using byid topological_order_None [of g]
    by (auto simp: validate_graph_def split: prod.splits)
  also have "\<dots> \<longleftrightarrow> valid_graph reg ses g"
  proof (cases "distinct (map nd_id (g_nodes g))")
    case True
    then show ?thesis
      unfolding valid_graph_def valid_nodes_def valid_wiring_def valid_outputs_def
        node_errors_fst group_errors_fst output_errors_Nil edge_errors_Nil binding_errors_Nil input_errors_Nil
      by (auto simp: output_type_spec [OF True] input_type_spec [OF True] grp output_group_orders_def)
  next
    case False
    then show ?thesis by (simp add: valid_graph_def valid_nodes_def node_errors_fst)
  qed
  finally show ?thesis .
qed

lemma topological_order_Some:
  "topological_order g = Some order \<Longrightarrow>
     distinct order \<and> edges_forward (dep_edges g) order \<and>
     set order = set (map nd_id (g_nodes g)) \<union> fst ` set (dep_edges g) \<union> snd ` set (dep_edges g)"
  unfolding topological_order_def by (drule static_order_SomeD [OF table_for_graph]) simp

section \<open>The wire format\<close>

definition node_to_json :: "node \<Rightarrow> json" where
  "node_to_json n = JObj [(''id'', JStr (nd_id n)), (''module'', JStr (nd_module n)),
     (''params'', JObj (nd_params n))]"

definition edge_to_json :: "edge \<Rightarrow> json" where
  "edge_to_json e = JObj [(''from_node'', JStr (from_node e)), (''from_port'', JStr (from_port e)),
     (''to_node'', JStr (to_node e)), (''to_port'', JStr (to_port e))]"

definition binding_to_json :: "binding \<Rightarrow> json" where
  "binding_to_json b = JObj [(''payload'', JStr (b_payload b)), (''node'', JStr (b_node b)),
     (''port'', JStr (b_port b))]"

definition output_to_json :: "output_ref \<Rightarrow> json" where
  "output_to_json r = JObj ([(''node'', JStr (o_node r)), (''port'', JStr (o_port r))] @
     (case o_group r of None \<Rightarrow> [] | Some gid \<Rightarrow> [(''group'', JStr gid)]))"

definition group_to_json :: "output_group \<Rightarrow> json" where
  "group_to_json gr = JObj [(''id'', JStr (grp_id gr)), (''order'', JStr (grp_order gr))]"

definition graph_to_json :: "graph \<Rightarrow> json" where
  "graph_to_json g = JObj
     [(''nodes'', JArr (map node_to_json (g_nodes g))),
      (''edges'', JArr (map edge_to_json (g_edges g))),
      (''bindings'', JArr (map binding_to_json (g_bindings g))),
      (''outputs'', JArr (map output_to_json (g_outputs g))),
      (''groups'', JArr (map group_to_json (g_groups g)))]"

lemmas parse_item_defs = parse_node_def parse_edge_def parse_binding_def parse_output_def
  parse_group_def object_value_def string_field_def

lemma parse_items_to_json:
  "parse_node i (node_to_json n) = Inr n" "parse_edge i (edge_to_json e) = Inr e"
  "parse_binding i (binding_to_json b) = Inr b" "parse_output i (output_to_json r) = Inr r"
  "parse_group i (group_to_json gr) = Inr gr"
  by (simp_all add: parse_item_defs node_to_json_def edge_to_json_def binding_to_json_def
      output_to_json_def group_to_json_def split: option.splits)

lemma enumerate_map_inverse:
  "(\<And>j x. f j (h x) = Inr x) \<Longrightarrow> enumerate_map f i (map h xs) = Inr xs"
  by (induction xs arbitrary: i) auto

text \<open>The params of every node are JSON that \<open>json.dumps\<close> prints; then the whole document is.\<close>

definition plain_params :: "(string \<Rightarrow> string) \<Rightarrow> graph \<Rightarrow> bool" where
  "plain_params fc g \<longleftrightarrow> (\<forall>n \<in> set (g_nodes g). wf_json fc (JObj (nd_params n)))"

lemma wf_graph_to_json:
  assumes "plain_params fc g" shows "wf_json fc (graph_to_json g)"
proof -
  have "wf_json fc (node_to_json n)" if "n \<in> set (g_nodes g)" for n
    using that assms by (simp add: plain_params_def node_to_json_def)
  moreover have "wf_json fc (edge_to_json e)" "wf_json fc (binding_to_json b)" "wf_json fc (output_to_json r)"
    "wf_json fc (group_to_json gr)" for e b r gr
    by (simp_all add: edge_to_json_def binding_to_json_def output_to_json_def group_to_json_def split: option.splits)
  ultimately show ?thesis by (simp add: graph_to_json_def list_all_iff)
qed

lemma parse_graph_to_json: "parse_graph (graph_to_json g) = Inr g"
  by (simp add: parse_graph_def graph_to_json_def parse_list_def array_field_def
      enumerate_map_inverse parse_items_to_json)

definition known_fields :: "string \<Rightarrow> string list" where
  "known_fields name =
     (if name = ''nodes'' then [''id'', ''module'', ''params'']
      else if name = ''edges'' then [''from_node'', ''from_port'', ''to_node'', ''to_port'']
      else if name = ''bindings'' then [''payload'', ''node'', ''port'']
      else if name = ''outputs'' then [''node'', ''port'', ''group'']
      else [''id'', ''order''])"

definition keep_fields :: "string list \<Rightarrow> json \<Rightarrow> json" where
  "keep_fields ks v = (case v of JObj kvs \<Rightarrow> JObj (filter (\<lambda>(k, w). k \<in> set ks) kvs) | _ \<Rightarrow> v)"

definition keep_items :: "string \<Rightarrow> json \<Rightarrow> json" where
  "keep_items name v = (case v of JArr vs \<Rightarrow> JArr (map (keep_fields (known_fields name)) vs) | _ \<Rightarrow> v)"

lemma dict_get_filter_keys:
  "dict_get (filter (\<lambda>(k, w). k \<in> set ks) kvs) k = (if k \<in> set ks then dict_get kvs k else None)"
  by (induction kvs) auto

lemma dict_get_map_vals:
  "dict_get (map (\<lambda>(k, v). (k, f k v)) kvs) k = map_option (f k) (dict_get kvs k)"
  by (induction kvs) auto

lemma known_fields_simps:
  "known_fields ''nodes'' = [''id'', ''module'', ''params'']"
  "known_fields ''edges'' = [''from_node'', ''from_port'', ''to_node'', ''to_port'']"
  "known_fields ''bindings'' = [''payload'', ''node'', ''port'']"
  "known_fields ''outputs'' = [''node'', ''port'', ''group'']"
  "known_fields ''groups'' = [''id'', ''order'']"
  by (simp_all add: known_fields_def)

lemma ebind_assoc: "ebind (ebind m f) h = ebind m (\<lambda>x. ebind (f x) h)"
  by (cases m) simp_all

lemma object_value_keep:
  "object_value loc i (keep_fields ks v) =
     ebind (object_value loc i v) (\<lambda>d. Inr (filter (\<lambda>(k, w). k \<in> set ks) d))"
  by (cases v) (simp_all add: object_value_def keep_fields_def)

lemma string_field_keep:
  "name \<in> set ks \<Longrightarrow>
     string_field (filter (\<lambda>(k, w). k \<in> set ks) d) name loc i = string_field d name loc i"
  by (simp add: string_field_def dict_get_filter_keys)

lemma get_field_keep:
  "name \<in> set ks \<Longrightarrow> dict_get (filter (\<lambda>(k, w). k \<in> set ks) d) name = dict_get d name"
  by (simp add: dict_get_filter_keys)

lemmas keep_simps = object_value_keep ebind_assoc ebind_simps string_field_keep get_field_keep
  known_fields_simps list.set_intros

lemma parse_node_keep: "parse_node i (keep_fields (known_fields ''nodes'') v) = parse_node i v"
  unfolding parse_node_def by (simp only: keep_simps)

lemma parse_edge_keep: "parse_edge i (keep_fields (known_fields ''edges'') v) = parse_edge i v"
  unfolding parse_edge_def by (simp only: keep_simps)

lemma parse_binding_keep:
  "parse_binding i (keep_fields (known_fields ''bindings'') v) = parse_binding i v"
  unfolding parse_binding_def by (simp only: keep_simps)

lemma parse_output_keep: "parse_output i (keep_fields (known_fields ''outputs'') v) = parse_output i v"
  unfolding parse_output_def by (simp only: keep_simps)

lemma parse_group_keep: "parse_group i (keep_fields (known_fields ''groups'') v) = parse_group i v"
  unfolding parse_group_def by (simp only: keep_simps)

lemmas parse_items_keep = parse_node_keep parse_edge_keep parse_binding_keep parse_output_keep
  parse_group_keep

lemma enumerate_map_map: "enumerate_map f i (map h xs) = enumerate_map (\<lambda>j x. f j (h x)) i xs"
  by (induction xs arbitrary: i) auto

definition graph_fields :: "string list" where
  "graph_fields = [''nodes'', ''edges'', ''bindings'', ''outputs'', ''groups'']"

definition keep_known :: "json \<Rightarrow> json" where
  "keep_known v = (case keep_fields graph_fields v of
     JObj kvs \<Rightarrow> JObj (map (\<lambda>(name, w). (name, keep_items name w)) kvs) | w \<Rightarrow> w)"

lemma array_field_keep:
  assumes "name \<in> set graph_fields" and "keep_known (JObj kvs) = JObj kvs'"
  shows "array_field kvs' name =
    ebind (array_field kvs name) (\<lambda>vs. Inr (map (keep_fields (known_fields name)) vs))"
proof -
  have "dict_get kvs' name = map_option (keep_items name) (dict_get kvs name)"
    using assms by (auto simp: keep_known_def keep_fields_def dict_get_map_vals dict_get_filter_keys)
  then show ?thesis
    by (cases "dict_get kvs name") (auto simp: array_field_def keep_items_def split: json.splits)
qed

lemma parse_list_keep:
  assumes "name \<in> set graph_fields"
    and "keep_known (JObj kvs) = JObj kvs'"
    and "\<And>i v. f i (keep_fields (known_fields name) v) = f i v"
  shows "parse_list kvs' name f = parse_list kvs name f"
  unfolding parse_list_def array_field_keep [OF assms(1,2)]
  by (cases "array_field kvs name") (simp_all add: enumerate_map_map assms(3))

lemma parse_graph_keep_known: "parse_graph (keep_known v) = parse_graph v"
proof (cases v)
  case (JObj kvs)
  obtain kvs' where k: "keep_known (JObj kvs) = JObj kvs'"
    by (simp add: keep_known_def keep_fields_def)
  have "parse_list kvs' ''nodes'' parse_node = parse_list kvs ''nodes'' parse_node"
    "parse_list kvs' ''edges'' parse_edge = parse_list kvs ''edges'' parse_edge"
    "parse_list kvs' ''bindings'' parse_binding = parse_list kvs ''bindings'' parse_binding"
    "parse_list kvs' ''outputs'' parse_output = parse_list kvs ''outputs'' parse_output"
    "parse_list kvs' ''groups'' parse_group = parse_list kvs ''groups'' parse_group"
    by (rule parse_list_keep [OF _ k]; simp only: parse_items_keep graph_fields_def list.set_intros)+
  then show ?thesis unfolding JObj k by (simp add: parse_graph_def)
qed (simp_all add: keep_known_def keep_fields_def parse_graph_def)

end
