(* ===== verification/Cache.thy ===== *)
theory Cache
  imports Registry
begin

text \<open>
  \<^verbatim>\<open>cache.py\<close>: content hashes, recipe keys and the result cache.

  BLAKE2b is the parameter \<open>H\<close>, from bytes to the hex digest; what a lemma needs of it (no
  collision on the texts that were hashed) is a hypothesis of that lemma. \<open>recipe_text\<close> is the
  canonical JSON text whose bytes \<open>recipe_key\<close> hashes.

  \<open>recipe_text_inj\<close> says that the text determines the module's name and version, the params up to
  the order of the keys, the input keys and the draft flag; \<open>recipe_key_param_order\<close> that the
  order of the params' keys does not matter.
\<close>

definition encode :: "string \<Rightarrow> bytes" where
  "encode s = map of_char s"

definition content_hash :: "(bytes \<Rightarrow> string) \<Rightarrow> bytes \<Rightarrow> string" where
  "content_hash H data = H data"

definition recipe_object :: "string \<Rightarrow> string \<Rightarrow> params \<Rightarrow> string list \<Rightarrow> bool \<Rightarrow> json" where
  "recipe_object name version ps keys draft = JObj
     [(''module'', JStr name), (''version'', JStr version), (''params'', JObj ps),
      (''inputs'', JArr (map JStr keys)), (''draft'', JBool draft)]"

definition recipe_text :: "string \<Rightarrow> string \<Rightarrow> params \<Rightarrow> string list \<Rightarrow> bool \<Rightarrow> string" where
  "recipe_text name version ps keys draft =
     dumps '','' '':'' (jsort (recipe_object name version ps keys draft))"

definition recipe_key ::
  "(bytes \<Rightarrow> string) \<Rightarrow> string \<Rightarrow> string \<Rightarrow> params \<Rightarrow> string list \<Rightarrow> bool \<Rightarrow> string" where
  "recipe_key H name version ps keys draft = H (encode (recipe_text name version ps keys draft))"

section \<open>Keys\<close>

lemma encode_inj: "encode s = encode t \<Longrightarrow> s = t"
proof (induction s arbitrary: t)
  case (Cons c s)
  have "(of_char c :: 8 word) = of_char d \<Longrightarrow> c = d" for d
  proof -
    assume "(of_char c :: 8 word) = of_char d"
    then have "word_of_nat (of_char c) = (word_of_nat (of_char d) :: 8 word)"
      by (simp add: of_nat_of_char)
    then have "(of_char c :: nat) mod 2 ^ 8 = of_char d mod 2 ^ 8"
      by (simp add: word_of_nat_eq_iff take_bit_eq_mod)
    then show "c = d" by (simp add: mod_less)
  qed
  then show ?case using Cons by (cases t) (auto simp: encode_def)
qed (simp add: encode_def)

lemma jsort_recipe:
  "jsort (recipe_object name version ps keys draft) = JObj
     [(''draft'', JBool draft), (''inputs'', JArr (map JStr keys)), (''module'', JStr name),
      (''params'', jsort (JObj ps)), (''version'', JStr version)]"
  by (simp add: recipe_object_def)

lemma wf_recipe: "wf_json fc (recipe_object name version ps keys draft) = wf_json fc (JObj ps)"
  by (auto simp: recipe_object_def list_all_iff)

lemma recipe_text_inj:
  assumes wf: "wf_json fc (JObj ps)" "wf_json fc (JObj ps')"
    and eq: "recipe_text name version ps keys draft = recipe_text name' version' ps' keys' draft'"
  shows "name = name' \<and> version = version' \<and> jsort (JObj ps) = jsort (JObj ps') \<and>
    keys = keys' \<and> draft = draft'"
proof -
  have "jsort (recipe_object name version ps keys draft) =
      jsort (recipe_object name' version' ps' keys' draft')"
    using eq unfolding recipe_text_def
    by (intro dumps_sorted_inj [of fc]) (simp_all only: wf_recipe wf)
  then have e: "draft = draft'" "map JStr keys = map JStr keys'" "name = name'"
      "jsort (JObj ps) = jsort (JObj ps')" "version = version'"
    unfolding jsort_recipe by (simp_all del: jsort.simps)
  moreover have "keys = keys'"
    using e(2) by (rule map_injective) (simp add: inj_def)
  ultimately show ?thesis by blast
qed

lemma recipe_key_param_order:
  "mset ps = mset ps' \<Longrightarrow> distinct (map fst ps) \<Longrightarrow>
     recipe_key H name version ps keys draft = recipe_key H name version ps' keys draft"
  unfolding recipe_key_def recipe_text_def jsort_recipe by (simp only: jsort_obj_unique)

text \<open>The two kinds of keys share one hash: a payload can spell a recipe.\<close>

lemma content_hash_recipe_text:
  "content_hash H (encode (recipe_text name version ps keys draft)) =
     recipe_key H name version ps keys draft"
  by (simp add: content_hash_def recipe_key_def)

section \<open>The result cache\<close>

type_synonym result_cache = "(string, results) dict"

definition cache_get :: "result_cache \<Rightarrow> string \<Rightarrow> results option" where
  "cache_get c key = dict_get c key"

definition cache_put :: "string \<Rightarrow> results \<Rightarrow> result_cache \<Rightarrow> result_cache" where
  "cache_put key res c = dict_set key res c"

definition cache_len :: "result_cache \<Rightarrow> nat" where
  "cache_len c = length c"

interpretation results_store: keyed_store cache_get cache_put dict_ok
  by unfold_locales (auto simp: cache_get_def cache_put_def)

lemma cache_put_get: "cache_get (cache_put k res c) j = (if j = k then Some res else cache_get c j)"
  by (simp add: cache_get_def cache_put_def)

lemma cache_len_put:
  "cache_len (cache_put k res c) = (if cache_get c k = None then Suc (cache_len c) else cache_len c)"
proof -
  have "length (dict_keys (cache_put k res c)) =
      (if cache_get c k = None then Suc (length (dict_keys c)) else length (dict_keys c))"
    unfolding cache_put_def cache_get_def dict_set_keys map_of_eq_None_iff by simp
  then show ?thesis unfolding cache_len_def by simp
qed

end
