(* ===== verification/Executor.thy ===== *)
theory Executor
  imports Graph Cache
begin

text \<open>
  \<^verbatim>\<open>executor.py\<close>: \<open>execute_graph\<close> as a machine of atomic steps.

  The main thread is the program counter \<open>x_pc\<close>; each submitted node is a task with a program
  counter of its own, one constructor of \<open>task\<close> per point of \<open>run_node\<close> between two accesses to
  shared state: gathering the inputs and looking the cache up, running the module and checking
  its contract, testing the cancel flag, storing into the cache, recording under
  \<open>state_lock\<close>, calling \<open>on_node\<close>, and for each output recording it and calling \<open>on_output\<close>.
  The pool starts tasks in submission order and never runs more than \<open>max 1 workers\<close>.

  A step is chosen by an \<open>action\<close>: the pool starts a task, a task moves, the main thread moves
  (its argument is the order in which it meets a Python set: the futures \<open>wait\<close> reports, or the
  dependents of a node), the client sets the cancel flag, or another job puts an entry into
  the shared cache. \<open>exec_step\<close> is executable; a run is a list of actions.

  The calls to \<open>on_node\<close> and \<open>on_output\<close> are recorded in order in \<open>x_calls\<close>. The registry and the
  payloads bound by the graph do not change while the graph runs.
\<close>

datatype exec_error =
    InvalidGraph "validation_error list"
  | AssertionFailed
  | KeyErr "string list"
  | MissingOutputs string "string list"
  | UndeclaredOutputs string "string list"
  | WrongOutputType string string string string
  | RunRaised py_exn
  | ExecutionCancelled

record exec_output =
  eo_node :: string
  eo_port :: string
  eo_type :: string
  eo_data :: bytes

record exec_report =
  rep_outputs :: "exec_output list"
  rep_executed :: "string list"
  rep_cached :: "string list"

datatype exec_call =
    NodeCall string bool
  | OutputCall exec_output

record exec_env =
  e_graph :: graph
  e_reg :: registry
  e_ses :: session
  e_draft :: bool
  e_workers :: int
  e_hash :: "bytes \<Rightarrow> string"

type_synonym ref_list = "(string \<times> string) list"

datatype task =
    Queued
  | Started
  | Missed string "(string, bytes) dict"
  | Produced string results
  | Storing string results
  | Obtained string results bool
  | Recorded results bool
  | Emitting results ref_list
  | Reporting results exec_output ref_list
  | Finished "exec_error option"

datatype main_pc =
    Loop
  | Submitting
  | Waiting
  | Processing "string list"
  | AwaitAll
  | Closing "exec_error option"
  | Returned exec_report
  | Raised exec_error

type_synonym string_sets = "(string, string list) dict"

record exec_state =
  x_pc :: main_pc
  x_tasks :: "(string, task) dict"
  x_ready :: "string list"
  x_in_flight :: "string list"
  x_deps :: string_sets
  x_dependents :: string_sets
  x_keys :: "(string, string) dict"
  x_results :: "(string, results) dict"
  x_executed :: "string list"
  x_cached :: "string list"
  x_emitted :: "(string \<times> string, exec_output) dict"
  x_cache :: result_cache
  x_cancel :: bool
  x_calls :: "exec_call list"

section \<open>The graph as the executor sees it\<close>

definition edge_into :: "graph \<Rightarrow> (string \<times> string, string \<times> string) dict" where
  "edge_into g = dict_of (\<lambda>e. (to_node e, to_port e)) (\<lambda>e. (from_node e, from_port e)) (g_edges g)"

definition binding_into :: "graph \<Rightarrow> (string \<times> string, string) dict" where
  "binding_into g = dict_of (\<lambda>b. (b_node b, b_port b)) b_payload (g_bindings g)"

definition empty_sets :: "graph \<Rightarrow> string_sets" where
  "empty_sets g = dict_of nd_id (\<lambda>n. []) (g_nodes g)"

definition set_add :: "string \<Rightarrow> string \<Rightarrow> string_sets \<Rightarrow> exec_error + string_sets" where
  "set_add k x d = (case dict_get d k of
     None \<Rightarrow> Inl (KeyErr [k]) | Some xs \<Rightarrow> Inr (dict_set k (List.insert x xs) d))"

fun link_edges :: "edge list \<Rightarrow> string_sets \<Rightarrow> string_sets \<Rightarrow> exec_error + string_sets \<times> string_sets" where
  "link_edges [] deps dependents = Inr (deps, dependents)"
| "link_edges (e # es) deps dependents =
     ebind (set_add (to_node e) (from_node e) deps) (\<lambda>deps'.
     ebind (set_add (from_node e) (to_node e) dependents) (\<lambda>dependents'.
       link_edges es deps' dependents'))"

definition add_output_ref :: "(string, ref_list) dict \<Rightarrow> output_ref \<Rightarrow> (string, ref_list) dict" where
  "add_output_ref d r = dict_set (o_node r)
     ((case dict_get d (o_node r) of None \<Rightarrow> [] | Some xs \<Rightarrow> xs) @ [(o_node r, o_port r)]) d"

definition outputs_by_node :: "graph \<Rightarrow> (string, ref_list) dict" where
  "outputs_by_node g = foldl add_output_ref [] (g_outputs g)"

definition node_outputs :: "graph \<Rightarrow> string \<Rightarrow> ref_list" where
  "node_outputs g nid = (case dict_get (outputs_by_node g) nid of None \<Rightarrow> [] | Some xs \<Rightarrow> xs)"

text \<open>Everything before the pool is opened.\<close>

definition exec_start :: "exec_env \<Rightarrow> result_cache \<Rightarrow> bool \<Rightarrow> exec_error + exec_state" where
  "exec_start env c cancel =
     (let g = e_graph env; errors = validate_graph g (e_reg env) (e_ses env) in
      if errors \<noteq> [] then Inl (InvalidGraph errors)
      else if topological_order g = None then Inl AssertionFailed
      else
        ebind (link_edges (g_edges g) (empty_sets g) (empty_sets g)) (\<lambda>(deps, dependents).
          Inr \<lparr>x_pc = Loop, x_tasks = [],
               x_ready = map fst (filter (\<lambda>(n, ds). ds = []) deps), x_in_flight = [],
               x_deps = deps, x_dependents = dependents, x_keys = [], x_results = [],
               x_executed = [], x_cached = [], x_emitted = [], x_cache = c,
               x_cancel = cancel, x_calls = []\<rparr>))"

section \<open>One node\<close>

text \<open>The loop over the input ports: the input keys in port order, and the input bytes.\<close>

fun gather ::
  "exec_env \<Rightarrow> (string, string) dict \<Rightarrow> (string, results) dict \<Rightarrow> string \<Rightarrow> port_spec list \<Rightarrow>
     string list \<Rightarrow> (string, bytes) dict \<Rightarrow> exec_error + string list \<times> (string, bytes) dict" where
  "gather env nkeys nresults nid [] keys inputs = Inr (keys, inputs)"
| "gather env nkeys nresults nid (p # ps) keys inputs =
     (case dict_get (binding_into (e_graph env)) (nid, port_name p) of
        Some pid \<Rightarrow>
          (case get_payload (e_ses env) pid of
             None \<Rightarrow> Inl (KeyErr [pid])
           | Some pl \<Rightarrow>
               gather env nkeys nresults nid ps (keys @ [content_hash (e_hash env) (pl_data pl)])
                 (dict_set (port_name p) (pl_data pl) inputs))
      | None \<Rightarrow>
          (case dict_get (edge_into (e_graph env)) (nid, port_name p) of
             None \<Rightarrow> Inl (KeyErr [nid, port_name p])
           | Some (src, src_port) \<Rightarrow>
               (case dict_get nkeys src of
                  None \<Rightarrow> Inl (KeyErr [src])
                | Some key \<Rightarrow>
                    (case dict_get nresults src of
                       None \<Rightarrow> Inl (KeyErr [src])
                     | Some res \<Rightarrow>
                         (case dict_get res src_port of
                            None \<Rightarrow> Inl (KeyErr [src_port])
                          | Some r \<Rightarrow>
                              gather env nkeys nresults nid ps (keys @ [key])
                                (dict_set (port_name p) (r_data r) inputs))))))"

text \<open>The check between \<open>run\<close> and the cache.\<close>

fun first_wrong_type :: "string \<Rightarrow> (string, string) dict \<Rightarrow> results \<Rightarrow> exec_error option" where
  "first_wrong_type mname declared [] = None"
| "first_wrong_type mname declared ((name, r) # rs) =
     (case dict_get declared name of
        None \<Rightarrow> Some (KeyErr [name])
      | Some ty \<Rightarrow>
          (if r_type r \<noteq> ty then Some (WrongOutputType mname name (r_type r) ty)
           else first_wrong_type mname declared rs))"

definition contract_error :: "manifest \<Rightarrow> results \<Rightarrow> exec_error option" where
  "contract_error m res =
     (let declared = declared_types m;
          missing = filter (\<lambda>n. n \<notin> set (dict_keys res)) (dict_keys declared);
          extra = filter (\<lambda>n. n \<notin> set (dict_keys declared)) (dict_keys res)
      in if missing \<noteq> [] then Some (MissingOutputs (m_name m) (sort missing))
         else if extra \<noteq> [] then Some (UndeclaredOutputs (m_name m) (sort extra))
         else first_wrong_type (m_name m) declared res)"

definition set_task :: "string \<Rightarrow> task \<Rightarrow> exec_state \<Rightarrow> exec_state" where
  "set_task nid t st = st\<lparr>x_tasks := dict_set nid t (x_tasks st)\<rparr>"

definition fail_task :: "string \<Rightarrow> exec_error \<Rightarrow> exec_state \<Rightarrow> exec_state" where
  "fail_task nid e st = set_task nid (Finished (Some e)) st"

definition node_lookup :: "exec_env \<Rightarrow> string \<Rightarrow> exec_error + node \<times> pymodule" where
  "node_lookup env nid = (case dict_get (nodes_by_id (e_graph env)) nid of
     None \<Rightarrow> Inl (KeyErr [nid])
   | Some n \<Rightarrow>
       (case registry_get (e_reg env) (nd_module n) of
          None \<Rightarrow> Inl AssertionFailed
        | Some md \<Rightarrow> Inr (n, md)))"

definition task_key :: "exec_env \<Rightarrow> node \<Rightarrow> manifest \<Rightarrow> string list \<Rightarrow> string" where
  "task_key env n m keys =
     recipe_key (e_hash env) (m_name m) (m_version m) (nd_params n) keys (e_draft env)"

text \<open>From the start of \<open>run_node\<close> to the lookup in the cache.\<close>

definition begin_task :: "exec_env \<Rightarrow> string \<Rightarrow> exec_state \<Rightarrow> exec_state" where
  "begin_task env nid st = (case node_lookup env nid of
     Inl e \<Rightarrow> fail_task nid e st
   | Inr (n, md) \<Rightarrow>
       (case gather env (x_keys st) (x_results st) nid (m_inputs (mod_manifest md)) [] [] of
          Inl e \<Rightarrow> fail_task nid e st
        | Inr (keys, inputs) \<Rightarrow>
            (let key = task_key env n (mod_manifest md) keys in
             case cache_get (x_cache st) key of
               Some res \<Rightarrow> set_task nid (Obtained key res True) st
             | None \<Rightarrow> set_task nid (Missed key inputs) st)))"

definition run_task ::
  "exec_env \<Rightarrow> string \<Rightarrow> string \<Rightarrow> (string, bytes) dict \<Rightarrow> exec_state \<Rightarrow> exec_state" where
  "run_task env nid key inputs st = (case node_lookup env nid of
     Inl e \<Rightarrow> fail_task nid e st
   | Inr (n, md) \<Rightarrow>
       (case mod_run md inputs (nd_params n) (e_draft env) of
          Inl x \<Rightarrow> fail_task nid (RunRaised x) st
        | Inr res \<Rightarrow>
            (case contract_error (mod_manifest md) res of
               Some e \<Rightarrow> fail_task nid e st
             | None \<Rightarrow> set_task nid (Produced key res) st)))"

definition test_cancel :: "string \<Rightarrow> string \<Rightarrow> results \<Rightarrow> exec_state \<Rightarrow> exec_state" where
  "test_cancel nid key res st =
     (if x_cancel st then fail_task nid ExecutionCancelled st
      else set_task nid (Storing key res) st)"

definition store_result :: "string \<Rightarrow> string \<Rightarrow> results \<Rightarrow> exec_state \<Rightarrow> exec_state" where
  "store_result nid key res st =
     set_task nid (Obtained key res False) (st\<lparr>x_cache := cache_put key res (x_cache st)\<rparr>)"

definition record_result :: "string \<Rightarrow> string \<Rightarrow> results \<Rightarrow> bool \<Rightarrow> exec_state \<Rightarrow> exec_state" where
  "record_result nid key res hit st =
     set_task nid (Recorded res hit)
       (st\<lparr>x_keys := dict_set nid key (x_keys st),
           x_results := dict_set nid res (x_results st),
           x_executed := (if hit then x_executed st else List.insert nid (x_executed st)),
           x_cached := (if hit then List.insert nid (x_cached st) else x_cached st)\<rparr>)"

definition report_node :: "exec_env \<Rightarrow> string \<Rightarrow> results \<Rightarrow> bool \<Rightarrow> exec_state \<Rightarrow> exec_state" where
  "report_node env nid res hit st =
     set_task nid (Emitting res (node_outputs (e_graph env) nid))
       (st\<lparr>x_calls := x_calls st @ [NodeCall nid hit]\<rparr>)"

definition emit_output ::
  "string \<Rightarrow> results \<Rightarrow> ref_list \<Rightarrow> exec_state \<Rightarrow> exec_state" where
  "emit_output nid res outs st = (case outs of
     [] \<Rightarrow> set_task nid (Finished None) st
   | (n, p) # os \<Rightarrow>
       (case dict_get res p of
          None \<Rightarrow> fail_task nid (KeyErr [p]) st
        | Some r \<Rightarrow>
            (let eo = \<lparr>eo_node = n, eo_port = p, eo_type = r_type r, eo_data = r_data r\<rparr>
             in set_task nid (Reporting res eo os)
                  (st\<lparr>x_emitted := dict_set (n, p) eo (x_emitted st)\<rparr>))))"

definition report_output ::
  "string \<Rightarrow> results \<Rightarrow> exec_output \<Rightarrow> ref_list \<Rightarrow> exec_state \<Rightarrow> exec_state" where
  "report_output nid res eo outs st =
     set_task nid (Emitting res outs) (st\<lparr>x_calls := x_calls st @ [OutputCall eo]\<rparr>)"

definition task_step :: "exec_env \<Rightarrow> string \<Rightarrow> exec_state \<Rightarrow> exec_state option" where
  "task_step env nid st = (case dict_get (x_tasks st) nid of
     None \<Rightarrow> None
   | Some t \<Rightarrow>
       (case t of
          Queued \<Rightarrow> None
        | Started \<Rightarrow> Some (begin_task env nid st)
        | Missed key inputs \<Rightarrow> Some (run_task env nid key inputs st)
        | Produced key res \<Rightarrow> Some (test_cancel nid key res st)
        | Storing key res \<Rightarrow> Some (store_result nid key res st)
        | Obtained key res hit \<Rightarrow> Some (record_result nid key res hit st)
        | Recorded res hit \<Rightarrow> Some (report_node env nid res hit st)
        | Emitting res outs \<Rightarrow> Some (emit_output nid res outs st)
        | Reporting res eo outs \<Rightarrow> Some (report_output nid res eo outs st)
        | Finished r \<Rightarrow> None))"

section \<open>The pool and the scheduler\<close>

definition running :: "task \<Rightarrow> bool" where
  "running t = (case t of Queued \<Rightarrow> False | Finished r \<Rightarrow> False | _ \<Rightarrow> True)"

definition finished :: "task \<Rightarrow> bool" where
  "finished t = (case t of Finished r \<Rightarrow> True | _ \<Rightarrow> False)"

definition pool_size :: "exec_env \<Rightarrow> nat" where
  "pool_size env = nat (max 1 (e_workers env))"

definition pool_step :: "exec_env \<Rightarrow> exec_state \<Rightarrow> exec_state option" where
  "pool_step env st =
     (if length (filter running (dict_values (x_tasks st))) < pool_size env
      then map_option (\<lambda>(nid, t). set_task nid Started st) (find (\<lambda>(nid, t). t = Queued) (x_tasks st))
      else None)"

definition task_finished :: "exec_state \<Rightarrow> string \<Rightarrow> bool" where
  "task_finished st nid = (case dict_get (x_tasks st) nid of None \<Rightarrow> False | Some t \<Rightarrow> finished t)"

fun release :: "string \<Rightarrow> string list \<Rightarrow> string_sets \<Rightarrow> string list \<Rightarrow> exec_error + string_sets \<times> string list" where
  "release f [] deps ready = Inr (deps, ready)"
| "release f (d # ds) deps ready =
     (case dict_get deps d of
        None \<Rightarrow> Inl (KeyErr [d])
      | Some xs \<Rightarrow>
          (let xs' = removeAll f xs in
           release f ds (dict_set d xs' deps) (if xs' = [] then ready @ [d] else ready)))"

definition submit_node :: "string \<Rightarrow> exec_state \<Rightarrow> exec_state" where
  "submit_node nid st = set_task nid Queued (st\<lparr>x_in_flight := x_in_flight st @ [nid]\<rparr>)"

definition process_future :: "string list \<Rightarrow> string \<Rightarrow> string list \<Rightarrow> exec_state \<Rightarrow> exec_state option" where
  "process_future ch f fs st =
     (let st1 = st\<lparr>x_in_flight := removeAll f (x_in_flight st)\<rparr> in
      case dict_get (x_tasks st) f of
        Some (Finished (Some e)) \<Rightarrow> Some (st1\<lparr>x_pc := Closing (Some e)\<rparr>)
      | Some (Finished None) \<Rightarrow>
          (case dict_get (x_dependents st) f of
             None \<Rightarrow> Some (st1\<lparr>x_pc := Closing (Some (KeyErr [f]))\<rparr>)
           | Some ds \<Rightarrow>
               (if distinct ch \<and> set ch = set ds then
                  (case release f ch (x_deps st) (x_ready st) of
                     Inl e \<Rightarrow> Some (st1\<lparr>x_pc := Closing (Some e)\<rparr>)
                   | Inr (deps, ready) \<Rightarrow>
                       Some (st1\<lparr>x_deps := deps, x_ready := ready, x_pc := Processing fs\<rparr>))
                else None))
      | _ \<Rightarrow> None)"

fun collect_outputs ::
  "output_ref list \<Rightarrow> (string \<times> string, exec_output) dict \<Rightarrow> exec_error + exec_output list" where
  "collect_outputs [] emitted = Inr []"
| "collect_outputs (r # rs) emitted =
     (case dict_get emitted (o_node r, o_port r) of
        None \<Rightarrow> Inl (KeyErr [o_node r, o_port r])
      | Some eo \<Rightarrow> ebind (collect_outputs rs emitted) (\<lambda>os. Inr (eo # os)))"

definition close_pool :: "exec_env \<Rightarrow> exec_error option \<Rightarrow> exec_state \<Rightarrow> exec_state option" where
  "close_pool env r st =
     (if list_all finished (dict_values (x_tasks st)) then
        Some (case r of
          Some e \<Rightarrow> st\<lparr>x_pc := Raised e\<rparr>
        | None \<Rightarrow>
            (case collect_outputs (g_outputs (e_graph env)) (x_emitted st) of
               Inl e \<Rightarrow> st\<lparr>x_pc := Raised e\<rparr>
             | Inr os \<Rightarrow> st\<lparr>x_pc := Returned \<lparr>rep_outputs = os, rep_executed = x_executed st,
                 rep_cached = x_cached st\<rparr>\<rparr>))
      else None)"

definition main_step :: "exec_env \<Rightarrow> string list \<Rightarrow> exec_state \<Rightarrow> exec_state option" where
  "main_step env ch st = (case x_pc st of
     Loop \<Rightarrow>
       Some (if x_ready st = [] \<and> x_in_flight st = [] then st\<lparr>x_pc := Closing None\<rparr>
             else if x_cancel st then st\<lparr>x_pc := AwaitAll\<rparr>
             else st\<lparr>x_pc := Submitting\<rparr>)
   | Submitting \<Rightarrow>
       Some (case x_ready st of
               [] \<Rightarrow> st\<lparr>x_pc := Waiting\<rparr>
             | nid # rest \<Rightarrow> submit_node nid (st\<lparr>x_ready := rest\<rparr>))
   | Waiting \<Rightarrow>
       (if (ch \<noteq> [] \<or> x_in_flight st = []) \<and> distinct ch \<and> set ch \<subseteq> set (x_in_flight st) \<and>
           list_all (task_finished st) ch
        then Some (st\<lparr>x_pc := Processing ch\<rparr>) else None)
   | Processing fs \<Rightarrow>
       (case fs of [] \<Rightarrow> Some (st\<lparr>x_pc := Loop\<rparr>) | f # fs' \<Rightarrow> process_future ch f fs' st)
   | AwaitAll \<Rightarrow>
       (if list_all (task_finished st) (x_in_flight st)
        then Some (st\<lparr>x_pc := Closing (Some ExecutionCancelled)\<rparr>) else None)
   | Closing r \<Rightarrow> close_pool env r st
   | Returned rep \<Rightarrow> None
   | Raised e \<Rightarrow> None)"

datatype exec_action =
    Start
  | Task string
  | Main "string list"
  | Cancel
  | OtherPut string results

definition exec_step :: "exec_env \<Rightarrow> exec_action \<Rightarrow> exec_state \<Rightarrow> exec_state option" where
  "exec_step env a st = (case a of
     Start \<Rightarrow> pool_step env st
   | Task nid \<Rightarrow> task_step env nid st
   | Main ch \<Rightarrow> main_step env ch st
   | Cancel \<Rightarrow> Some (st\<lparr>x_cancel := True\<rparr>)
   | OtherPut key res \<Rightarrow> Some (st\<lparr>x_cache := cache_put key res (x_cache st)\<rparr>))"

fun exec_run :: "exec_env \<Rightarrow> exec_action list \<Rightarrow> exec_state \<Rightarrow> exec_state option" where
  "exec_run env [] st = Some st"
| "exec_run env (a # as) st = Option.bind (exec_step env a st) (exec_run env as)"

end
