(* ===== verification/Jobs.thy ===== *)
theory Jobs
  imports EventLog Executor
begin

text \<open>
  \<^verbatim>\<open>jobs.py\<close>: job status and documents, the pinned-order gate and the job manager.

  The manager of one session is a record: the session with its payloads, the jobs, the event
  log, and for each job the local variables of its worker thread (\<open>job_thread\<close>). Each action of
  \<open>job_action\<close> is one atomic piece of the code: \<open>submit\<close>, the start of \<open>_run\<close>, a call of
  \<open>on_node\<close> or \<open>on_output\<close> by the executor, the end of \<open>_run\<close>, \<open>cancel\<close> and \<open>shutdown\<close>; the jobs of a
  session interleave freely. Identifiers from \<open>secrets.token_urlsafe\<close> are drawn from \<open>tok\<close>, the
  stream of its results. The text of an exception that the code does not build from the
  module's own message is the parameter \<open>exc_text\<close>.
\<close>

section \<open>Status and documents\<close>

datatype job_status = Pending | Running | Completed | Failed | Cancelled

definition status_text :: "job_status \<Rightarrow> string" where
  "status_text s = (case s of
     Pending \<Rightarrow> ''pending'' | Running \<Rightarrow> ''running'' | Completed \<Rightarrow> ''completed''
   | Failed \<Rightarrow> ''failed'' | Cancelled \<Rightarrow> ''cancelled'')"

definition terminal :: "job_status set" where
  "terminal = {Completed, Failed, Cancelled}"

text \<open>The order in which a job goes through its statuses: all terminal ones come last.\<close>

definition status_rank :: "job_status \<Rightarrow> nat" where
  "status_rank s = (case s of Pending \<Rightarrow> 0 | Running \<Rightarrow> 1 | _ \<Rightarrow> 2)"

instantiation job_status :: preorder
begin

definition less_eq_job_status :: "job_status \<Rightarrow> job_status \<Rightarrow> bool" where
  "less_eq_job_status s t \<longleftrightarrow> s = t \<or> status_rank s < status_rank t"

definition less_job_status :: "job_status \<Rightarrow> job_status \<Rightarrow> bool" where
  "less_job_status s t \<longleftrightarrow> status_rank s < status_rank t"

instance
  by standard (auto simp: less_eq_job_status_def less_job_status_def)

end

record job_output =
  jo_node :: string
  jo_port :: string
  jo_type :: string
  jo_payload :: string
  jo_group :: "string option"

definition job_output_fields :: "job_output \<Rightarrow> params" where
  "job_output_fields r = [(''node'', JStr (jo_node r)), (''port'', JStr (jo_port r)),
     (''type'', JStr (jo_type r)), (''payload'', JStr (jo_payload r))] @
     (case jo_group r of None \<Rightarrow> [] | Some g \<Rightarrow> [(''group'', JStr g)])"

record job =
  j_id :: string
  j_status :: job_status
  j_outputs :: "job_output list"
  j_error :: "string option"
  j_cancel :: bool

definition job_to_json :: "job \<Rightarrow> json" where
  "job_to_json j = JObj ([(''id'', JStr (j_id j)), (''status'', JStr (status_text (j_status j)))] @
     (if j_status j = Completed
      then [(''outputs'', JArr (map (\<lambda>r. JObj (job_output_fields r)) (j_outputs j)))] else []) @
     (case j_error j of None \<Rightarrow> [] | Some e \<Rightarrow> [(''error'', JStr e)]))"

section \<open>The manager\<close>

type_synonym out_key = "string \<times> string"

datatype phase = Created | Live | Ended

record job_thread =
  th_graph :: graph
  th_draft :: bool
  th_phase :: phase
  th_group_of :: "(out_key, string option) dict"
  th_pinned :: "(string, out_key list) dict"
  th_held :: "(string, (out_key, exec_output) dict) dict"
  th_next :: "(string, nat) dict"

record manager =
  jm_session :: session
  jm_jobs :: "(string, job) dict"
  jm_events :: event_log
  jm_threads :: "(string, job_thread) dict"
  jm_tokens :: nat

definition manager_init :: "session \<Rightarrow> manager" where
  "manager_init ses = \<lparr>jm_session = ses, jm_jobs = [], jm_events = [], jm_threads = [], jm_tokens = 0\<rparr>"

definition job_get :: "manager \<Rightarrow> string \<Rightarrow> job option" where
  "job_get m jid = dict_get (jm_jobs m) jid"

definition update_job :: "string \<Rightarrow> (job \<Rightarrow> job) \<Rightarrow> manager \<Rightarrow> manager" where
  "update_job jid f m = (case dict_get (jm_jobs m) jid of
     None \<Rightarrow> m | Some j \<Rightarrow> m\<lparr>jm_jobs := dict_set jid (f j) (jm_jobs m)\<rparr>)"

definition log_event :: "string \<Rightarrow> params \<Rightarrow> manager \<Rightarrow> manager" where
  "log_event ty data m = m\<lparr>jm_events := log_append ty data (jm_events m)\<rparr>"

definition set_status :: "string \<Rightarrow> job_status \<Rightarrow> manager \<Rightarrow> manager" where
  "set_status jid s m =
     log_event ''job.status'' [(''job'', JStr jid), (''status'', JStr (status_text s))]
       (update_job jid (\<lambda>j. j\<lparr>j_status := s\<rparr>) m)"

definition job_cancel :: "string \<Rightarrow> manager \<Rightarrow> bool \<times> manager" where
  "job_cancel jid m = (case job_get m jid of
     None \<Rightarrow> (False, m) | Some j \<Rightarrow> (True, update_job jid (\<lambda>j. j\<lparr>j_cancel := True\<rparr>) m))"

definition shutdown :: "manager \<Rightarrow> manager" where
  "shutdown m = m\<lparr>jm_jobs :=
     map (\<lambda>(jid, j). (jid, if j_status j \<in> terminal then j else j\<lparr>j_cancel := True\<rparr>)) (jm_jobs m)\<rparr>"

definition submit :: "(nat \<Rightarrow> string) \<Rightarrow> graph \<Rightarrow> bool \<Rightarrow> manager \<Rightarrow> job \<times> manager" where
  "submit tok g draft m =
     (let j = \<lparr>j_id = tok (jm_tokens m), j_status = Pending, j_outputs = [], j_error = None, j_cancel = False\<rparr>;
          th = \<lparr>th_graph = g, th_draft = draft, th_phase = Created, th_group_of = [], th_pinned = [], th_held = [], th_next = []\<rparr>;
          m1 = m\<lparr>jm_tokens := Suc (jm_tokens m), jm_jobs := dict_set (j_id j) j (jm_jobs m)\<rparr>;
          m2 = set_status (j_id j) Pending m1
      in (j, m2\<lparr>jm_threads := dict_set (j_id j) th (jm_threads m2)\<rparr>))"

section \<open>The worker thread\<close>

text \<open>The tables of the pinned-order gate, from the graph's outputs and groups.\<close>

fun pin_outputs ::
  "(string, string) dict \<Rightarrow> output_ref list \<Rightarrow> (out_key, string option) dict \<Rightarrow> (string, out_key list) dict \<Rightarrow>
     exec_error + (out_key, string option) dict \<times> (string, out_key list) dict" where
  "pin_outputs orders [] group_of pinned = Inr (group_of, pinned)"
| "pin_outputs orders (r # rs) group_of pinned =
     (let key = (o_node r, o_port r); group_of' = dict_set key (o_group r) group_of in
      case o_group r of
        None \<Rightarrow> pin_outputs orders rs group_of' pinned
      | Some g \<Rightarrow>
          (case dict_get orders g of
             None \<Rightarrow> Inl (KeyErr [g])
           | Some ord \<Rightarrow>
               pin_outputs orders rs group_of'
                 (if ord = ''pinned''
                  then dict_set g ((case dict_get pinned g of None \<Rightarrow> [] | Some xs \<Rightarrow> xs) @ [key]) pinned
                  else pinned)))"

definition set_thread :: "string \<Rightarrow> job_thread \<Rightarrow> manager \<Rightarrow> manager" where
  "set_thread jid th m = m\<lparr>jm_threads := dict_set jid th (jm_threads m)\<rparr>"

definition begin_run :: "string \<Rightarrow> job_thread \<Rightarrow> manager \<Rightarrow> manager" where
  "begin_run jid th m =
     (let m1 = set_status jid Running m; g = th_graph th in
      case pin_outputs (dict_of grp_id grp_order (g_groups g)) (g_outputs g) [] [] of
        Inl e \<Rightarrow> set_thread jid (th\<lparr>th_phase := Ended\<rparr>) m1
      | Inr (group_of, pinned) \<Rightarrow>
          set_thread jid (th\<lparr>th_phase := Live, th_group_of := group_of, th_pinned := pinned,
            th_held := [], th_next := map (\<lambda>(g, ks). (g, 0)) pinned\<rparr>) m1)"

definition on_node :: "string \<Rightarrow> string \<Rightarrow> bool \<Rightarrow> manager \<Rightarrow> manager" where
  "on_node jid nid cached m =
     log_event ''node.completed'' [(''job'', JStr jid), (''node'', JStr nid), (''cached'', JBool cached)] m"

definition announce :: "(nat \<Rightarrow> string) \<Rightarrow> string \<Rightarrow> exec_output \<Rightarrow> string option \<Rightarrow> manager \<Rightarrow> manager" where
  "announce tok jid eo grp m =
     (case add_payload (tok (jm_tokens m)) (eo_type eo) (eo_data eo) (jm_session m) of (pl, ses) \<Rightarrow>
      let r = \<lparr>jo_node = eo_node eo, jo_port = eo_port eo, jo_type = eo_type eo, jo_payload = pl_id pl,
               jo_group = grp\<rparr>;
          m1 = m\<lparr>jm_tokens := Suc (jm_tokens m), jm_session := ses\<rparr>;
          m2 = update_job jid (\<lambda>j. j\<lparr>j_outputs := j_outputs j @ [r]\<rparr>) m1
      in log_event ''job.output'' ((''job'', JStr jid) # job_output_fields r) m2)"

text \<open>
  The loop under the lock \<open>gate\<close>: \<open>rem\<close> is what is left of the group's sequence from its cursor
  on. A member that is there is taken out of the buffer and announced, and the cursor moves.
\<close>

fun flush ::
  "(nat \<Rightarrow> string) \<Rightarrow> string \<Rightarrow> string \<Rightarrow> out_key list \<Rightarrow> (out_key, exec_output) dict \<Rightarrow> nat \<Rightarrow> manager \<Rightarrow>
     (out_key, exec_output) dict \<times> nat \<times> manager" where
  "flush tok jid g [] buf i m = (buf, i, m)"
| "flush tok jid g (k # ks) buf i m =
     (case dict_get buf k of
        None \<Rightarrow> (buf, i, m)
      | Some eo \<Rightarrow> flush tok jid g ks (dict_pop k buf) (Suc i) (announce tok jid eo (Some g) m))"

definition on_output :: "(nat \<Rightarrow> string) \<Rightarrow> string \<Rightarrow> job_thread \<Rightarrow> exec_output \<Rightarrow> manager \<Rightarrow> manager" where
  "on_output tok jid th eo m =
     (let key = (eo_node eo, eo_port eo);
          grp = (case dict_get (th_group_of th) key of None \<Rightarrow> None | Some g \<Rightarrow> g)
      in case grp of
           None \<Rightarrow> announce tok jid eo None m
         | Some g \<Rightarrow>
             (case dict_get (th_pinned th) g of
                None \<Rightarrow> announce tok jid eo (Some g) m
              | Some sq \<Rightarrow>
                  (let buf = (case dict_get (th_held th) g of None \<Rightarrow> [] | Some b \<Rightarrow> b);
                       i = (case dict_get (th_next th) g of None \<Rightarrow> 0 | Some i \<Rightarrow> i)
                   in case flush tok jid g (drop i sq) (dict_set key eo buf) i m of (buf', i', m') \<Rightarrow>
                        set_thread jid (th\<lparr>th_held := dict_set g buf' (th_held th),
                          th_next := dict_set g i' (th_next th)\<rparr>) m')))"

definition is_module_error :: "exec_error \<Rightarrow> bool" where
  "is_module_error e = (case e of
     MissingOutputs n xs \<Rightarrow> True | UndeclaredOutputs n xs \<Rightarrow> True | WrongOutputType n p t d \<Rightarrow> True
   | RunRaised x \<Rightarrow> (case x of ModuleError s \<Rightarrow> True | PyError s \<Rightarrow> False) | _ \<Rightarrow> False)"

definition error_text :: "(exec_error \<Rightarrow> string) \<Rightarrow> exec_error \<Rightarrow> string" where
  "error_text exc_text e = (case e of
     RunRaised x \<Rightarrow> (case x of ModuleError s \<Rightarrow> s | PyError s \<Rightarrow> ''internal error: '' @ s)
   | _ \<Rightarrow> (if is_module_error e then exc_text e else ''internal error: '' @ exc_text e))"

definition fail_job :: "string \<Rightarrow> string \<Rightarrow> manager \<Rightarrow> manager" where
  "fail_job jid msg m =
     log_event ''job.failed'' [(''job'', JStr jid), (''error'', JStr msg)]
       (set_status jid Failed (update_job jid (\<lambda>j. j\<lparr>j_error := Some msg\<rparr>) m))"

definition finish_run ::
  "(exec_error \<Rightarrow> string) \<Rightarrow> string \<Rightarrow> job_thread \<Rightarrow> exec_error option \<Rightarrow> manager \<Rightarrow> manager" where
  "finish_run exc_text jid th r m = set_thread jid (th\<lparr>th_phase := Ended\<rparr>)
     (case r of
        None \<Rightarrow> log_event ''job.completed'' [(''job'', JStr jid)] (set_status jid Completed m)
      | Some e \<Rightarrow>
          (if e = ExecutionCancelled
           then log_event ''job.cancelled'' [(''job'', JStr jid)] (set_status jid Cancelled m)
           else fail_job jid (error_text exc_text e) m))"

text \<open>An upload by a client of the session, which shares the payload table with its jobs.\<close>

definition upload :: "(nat \<Rightarrow> string) \<Rightarrow> string \<Rightarrow> bytes \<Rightarrow> manager \<Rightarrow> manager" where
  "upload tok ty data m = m\<lparr>jm_session := snd (add_payload (tok (jm_tokens m)) ty data (jm_session m)),
     jm_tokens := Suc (jm_tokens m)\<rparr>"

datatype job_action =
    Submit graph bool
  | Begin string
  | Call string exec_call
  | Finish string "exec_error option"
  | CancelJob string
  | Upload string bytes
  | Shutdown

definition job_step ::
  "(nat \<Rightarrow> string) \<Rightarrow> (exec_error \<Rightarrow> string) \<Rightarrow> job_action \<Rightarrow> manager \<Rightarrow> manager option" where
  "job_step tok exc_text a m = (case a of
     Submit g draft \<Rightarrow> Some (snd (submit tok g draft m))
   | Begin jid \<Rightarrow>
       (case dict_get (jm_threads m) jid of
          None \<Rightarrow> None
        | Some th \<Rightarrow> (if th_phase th = Created then Some (begin_run jid th m) else None))
   | Call jid c \<Rightarrow>
       (case dict_get (jm_threads m) jid of
          None \<Rightarrow> None
        | Some th \<Rightarrow>
            (if th_phase th = Live then
               Some (case c of NodeCall nid hit \<Rightarrow> on_node jid nid hit m
                     | OutputCall eo \<Rightarrow> on_output tok jid th eo m)
             else None))
   | Finish jid r \<Rightarrow>
       (case dict_get (jm_threads m) jid of
          None \<Rightarrow> None
        | Some th \<Rightarrow> (if th_phase th = Live then Some (finish_run exc_text jid th r m) else None))
   | CancelJob jid \<Rightarrow> Some (snd (job_cancel jid m))
   | Upload ty data \<Rightarrow> Some (upload tok ty data m)
   | Shutdown \<Rightarrow> Some (shutdown m))"

fun job_steps ::
  "(nat \<Rightarrow> string) \<Rightarrow> (exec_error \<Rightarrow> string) \<Rightarrow> job_action list \<Rightarrow> manager \<Rightarrow> manager option" where
  "job_steps tok exc_text [] m = Some m"
| "job_steps tok exc_text (a # as) m =
     Option.bind (job_step tok exc_text a m) (job_steps tok exc_text as)"

end
