(* ===== verification/Server.thy ===== *)
theory Server
  imports Extensions Jobs
begin

text \<open>
  \<^verbatim>\<open>create_app\<close> of \<^verbatim>\<open>app.py\<close>: the state behind the HTTP interface and its endpoints.

  A session object is shared by the session store and the session's manager. \<open>sv_heap\<close> holds every
  manager ever made, with its session, under the session's id; \<open>sv_store\<close> and \<open>sv_managers\<close> are the
  ids in the store and in the table \<open>managers\<close>. A handler that waits (for the body of its request,
  or between the statements of a synchronous handler that another thread may observe) is a
  continuation in \<open>sv_waiting\<close>; every action is one piece of a handler between two such points, and
  the pieces of concurrent requests and the threads of the jobs interleave freely. Routing and
  the decoding of the request are the framework's: a call arrives as an \<open>api_call\<close>.
\<close>

datatype api_call =
    Health
  | CreateSession
  | DeleteSession string
  | UploadPayload string "string option"
  | DownloadPayload string string
  | ListModules
  | ListExtensions
  | InstallExtension
  | SubmitJob string
  | GetJob string string
  | CancelCall string string
  | Events string

definition call_path :: "api_call \<Rightarrow> string" where
  "call_path c = (case c of
     Health \<Rightarrow> ''/health''
   | CreateSession \<Rightarrow> ''/v1/sessions''
   | DeleteSession sid \<Rightarrow> ''/v1/sessions/'' @ sid
   | UploadPayload sid ty \<Rightarrow> ''/v1/sessions/'' @ sid @ ''/payloads''
   | DownloadPayload sid pid \<Rightarrow> ''/v1/sessions/'' @ sid @ ''/payloads/'' @ pid
   | ListModules \<Rightarrow> ''/v1/modules''
   | ListExtensions \<Rightarrow> ''/v1/extensions''
   | InstallExtension \<Rightarrow> ''/v1/extensions''
   | SubmitJob sid \<Rightarrow> ''/v1/sessions/'' @ sid @ ''/jobs''
   | GetJob sid jid \<Rightarrow> ''/v1/sessions/'' @ sid @ ''/jobs/'' @ jid
   | CancelCall sid jid \<Rightarrow> ''/v1/sessions/'' @ sid @ ''/jobs/'' @ jid
   | Events sid \<Rightarrow> ''/v1/sessions/'' @ sid @ ''/events'')"

datatype cont =
    AwaitUpload string string
  | AwaitGraph string
  | AwaitInstall
  | PopManager string
  | StopManager string
  | TellJob string string

datatype reply =
    NoBody
  | JsonReply json
  | Content bytes string
  | TextReply string
  | EventStream string
  | BadGraph parse_error
  | RefusedGraph "validation_error list"
  | ExtFailure ext_error

type_synonym response = "nat \<times> reply"

record server =
  sv_config :: server_config
  sv_enabled :: bool
  sv_ext :: ext_state
  sv_heap :: "(string, manager) dict"
  sv_store :: "string list"
  sv_managers :: "string list"
  sv_tokens :: nat
  sv_waiting :: "(nat, cont) dict"

text \<open>
  What the server takes from outside: the float reader of \<open>json\<close>, the \<open>str\<close> of TOML values, the
  maker of isolated modules, the results of \<open>token_urlsafe\<close> (for session ids, and for the ids that
  are drawn in each session) and the text of exceptions.
\<close>

record server_env =
  se_fc :: "string \<Rightarrow> string"
  se_render :: "toml \<Rightarrow> string"
  se_mk :: "string \<Rightarrow> ext_module_spec \<Rightarrow> pymodule"
  se_sids :: "nat \<Rightarrow> string"
  se_toks :: "string \<Rightarrow> nat \<Rightarrow> string"
  se_xt :: "exec_error \<Rightarrow> string"

definition create_app ::
  "server_env \<Rightarrow> server_config \<Rightarrow> registry \<Rightarrow> (string, ext_dir) dict \<Rightarrow> ext_error + server" where
  "create_app env config reg disk =
     (let sv = \<lparr>sv_config = config, sv_enabled = (c_extensions config \<noteq> None),
        sv_ext = \<lparr>es_registry = reg, es_installed = [], es_disk = disk\<rparr>, sv_heap = [], sv_store = [],
        sv_managers = [], sv_tokens = 0, sv_waiting = []\<rparr>
      in if c_extensions config = None then Inr sv
         else (case load_installed (se_render env) (se_mk env) (sv_ext sv) of
             (Inl e, st) \<Rightarrow> Inl e | (Inr loaded, st) \<Rightarrow> Inr (sv\<lparr>sv_ext := st\<rparr>)))"

definition sv_registry :: "server \<Rightarrow> registry" where
  "sv_registry sv = es_registry (sv_ext sv)"

definition http_error :: "nat \<Rightarrow> string \<Rightarrow> response" where
  "http_error code detail = (code, JsonReply (JObj [(''detail'', JStr detail)]))"

definition not_found :: response where
  "not_found = http_error 404 ''Session not found''"

definition session_or_404 :: "string \<Rightarrow> server \<Rightarrow> response + manager" where
  "session_or_404 sid sv = (if sid \<in> set (sv_store sv)
     then (case dict_get (sv_heap sv) sid of None \<Rightarrow> Inl not_found | Some m \<Rightarrow> Inr m) else Inl not_found)"

definition manager_or_404 :: "string \<Rightarrow> server \<Rightarrow> response + manager" where
  "manager_or_404 sid sv = (if sid \<in> set (sv_managers sv)
     then (case dict_get (sv_heap sv) sid of None \<Rightarrow> Inl not_found | Some m \<Rightarrow> Inr m) else Inl not_found)"

definition set_manager :: "string \<Rightarrow> manager \<Rightarrow> server \<Rightarrow> server" where
  "set_manager sid m sv = sv\<lparr>sv_heap := dict_set sid m (sv_heap sv)\<rparr>"

definition await_cont :: "nat \<Rightarrow> cont \<Rightarrow> server \<Rightarrow> response option \<times> server" where
  "await_cont rid k sv = (None, sv\<lparr>sv_waiting := dict_set rid k (sv_waiting sv)\<rparr>)"

section \<open>The endpoints\<close>

definition server_version :: string where
  "server_version = ''0.1.0.dev0''"

definition health :: response where
  "health = (200, JsonReply (JObj [(''status'', JStr ''ok''), (''version'', JStr server_version)]))"

definition create_session :: "server_env \<Rightarrow> server \<Rightarrow> response \<times> server" where
  "create_session env sv =
     (let sid = se_sids env (sv_tokens sv); ses = \<lparr>ses_id = sid, ses_payloads = []\<rparr> in
      ((201, JsonReply (JObj [(''id'', JStr sid)])),
       sv\<lparr>sv_heap := dict_set sid (manager_init ses) (sv_heap sv), sv_store := List.insert sid (sv_store sv),
          sv_managers := List.insert sid (sv_managers sv), sv_tokens := Suc (sv_tokens sv)\<rparr>))"

text \<open>\<open>delete_session\<close>: the store, then the table of managers, then the shutdown.\<close>

definition delete_session :: "nat \<Rightarrow> string \<Rightarrow> server \<Rightarrow> response option \<times> server" where
  "delete_session rid sid sv =
     (if sid \<in> set (sv_store sv)
      then await_cont rid (PopManager sid) (sv\<lparr>sv_store := removeAll sid (sv_store sv)\<rparr>)
      else (Some not_found, sv))"

definition pop_manager :: "nat \<Rightarrow> string \<Rightarrow> server \<Rightarrow> response option \<times> server" where
  "pop_manager rid sid sv =
     (if sid \<in> set (sv_managers sv)
      then await_cont rid (StopManager sid) (sv\<lparr>sv_managers := removeAll sid (sv_managers sv)\<rparr>)
      else (Some (204, NoBody), sv))"

definition stop_manager :: "string \<Rightarrow> server \<Rightarrow> response \<times> server" where
  "stop_manager sid sv = ((204, NoBody), (case dict_get (sv_heap sv) sid of
     None \<Rightarrow> sv | Some m \<Rightarrow> set_manager sid (shutdown m) sv))"

text \<open>The framework rejects an upload whose \<open>type\<close> is missing or empty before the handler runs.\<close>

definition upload_payload :: "nat \<Rightarrow> string \<Rightarrow> string option \<Rightarrow> server \<Rightarrow> response option \<times> server" where
  "upload_payload rid sid ty sv = (case ty of
     None \<Rightarrow> (Some (422, NoBody), sv)
   | Some t \<Rightarrow> (if t = [] then (Some (422, NoBody), sv)
       else (case session_or_404 sid sv of
           Inl r \<Rightarrow> (Some r, sv) | Inr m \<Rightarrow> await_cont rid (AwaitUpload sid t) sv)))"

definition store_upload :: "server_env \<Rightarrow> string \<Rightarrow> string \<Rightarrow> bytes \<Rightarrow> server \<Rightarrow> response \<times> server" where
  "store_upload env sid ty data sv = (case dict_get (sv_heap sv) sid of
     None \<Rightarrow> (not_found, sv)
   | Some m \<Rightarrow>
       (if data = [] then (http_error 400 ''Empty payload body'', sv)
        else (let p = fst (add_payload (se_toks env sid (jm_tokens m)) ty data (jm_session m)) in
          ((201, JsonReply (JObj [(''id'', JStr (pl_id p)), (''type'', JStr (pl_type p))])),
           set_manager sid (upload (se_toks env sid) ty data m) sv))))"

definition download_payload :: "string \<Rightarrow> string \<Rightarrow> server \<Rightarrow> response" where
  "download_payload sid pid sv = (case session_or_404 sid sv of
     Inl r \<Rightarrow> r
   | Inr m \<Rightarrow> (case get_payload (jm_session m) pid of
       None \<Rightarrow> http_error 404 ''Payload not found'' | Some p \<Rightarrow> (200, Content (pl_data p) (pl_type p))))"

definition port_json :: "port_spec \<Rightarrow> json" where
  "port_json p = JObj [(''name'', JStr (port_name p)), (''type'', JStr (port_type p))]"

definition list_modules :: "server \<Rightarrow> response" where
  "list_modules sv = (200, JsonReply (JArr (map (\<lambda>m. JObj [(''name'', JStr (m_name m)),
     (''version'', JStr (m_version m)), (''description'', JStr (m_description m)),
     (''isolation'', JStr (m_isolation m)), (''inputs'', JArr (map port_json (m_inputs m))),
     (''outputs'', JArr (map port_json (m_outputs m)))]) (manifests (sv_registry sv)))))"

definition list_extensions :: "server \<Rightarrow> response" where
  "list_extensions sv = (200, JsonReply (JObj [(''enabled'', JBool (sv_enabled sv)), (''extensions'',
     JArr (if sv_enabled sv then map (\<lambda>ie. let m = ie_manifest ie in JObj [(''name'', JStr (xe_name m)),
       (''version'', JStr (xe_version m)), (''description'', JStr (xe_description m)),
       (''isolation'', JStr (xe_isolation m)),
       (''modules'', JArr (map (\<lambda>s. JStr (m_name (xm_manifest s))) (xe_modules m)))])
       (dict_values (es_installed (sv_ext sv))) else []))]))"

definition install_call :: "nat \<Rightarrow> server \<Rightarrow> response option \<times> server" where
  "install_call rid sv = (if sv_enabled sv then await_cont rid AwaitInstall sv
     else (Some (http_error 503 ''extension installation is disabled (no --extensions-dir)''), sv))"

definition ext_status :: "ext_error \<Rightarrow> nat" where
  "ext_status e = (if is_conflict e then 409 else if is_extension_error e then 422
     else (case e of BadIsolation n i \<Rightarrow> 422 | RegistryRaised (NotImplementedIsolation n i) \<Rightarrow> 422 | _ \<Rightarrow> 500))"

definition install_extension :: "server_env \<Rightarrow> string \<Rightarrow> os_install \<Rightarrow> server \<Rightarrow> response \<times> server" where
  "install_extension env body os sv = (case loads (se_fc env) body of
     None \<Rightarrow> (http_error 400 ''Body must be JSON'', sv)
   | Some (JObj d) \<Rightarrow>
       (case dict_get d ''path'' of
          Some (JStr (c # cs)) \<Rightarrow>
            (case install (se_render env) (se_mk env) os (sv_ext sv) of
               (Inl e, st) \<Rightarrow> ((ext_status e, ExtFailure e), sv\<lparr>sv_ext := st\<rparr>)
             | (Inr ie, st) \<Rightarrow>
                 (let m = ie_manifest ie in
                  ((201, JsonReply (JObj [(''name'', JStr (xe_name m)), (''version'', JStr (xe_version m)),
                      (''modules'', JArr (map (\<lambda>s. JStr (m_name (xm_manifest s))) (xe_modules m)))])),
                   sv\<lparr>sv_ext := st\<rparr>)))
        | _ \<Rightarrow> (http_error 400 ([CHR 0x27] @ ''path'' @ [CHR 0x27] @ '' (extension source dir) required''), sv))
   | Some v \<Rightarrow> (http_error 400 ''Body must be a JSON object'', sv))"

definition submit_call :: "nat \<Rightarrow> string \<Rightarrow> server \<Rightarrow> response option \<times> server" where
  "submit_call rid sid sv = (case session_or_404 sid sv of
     Inl r \<Rightarrow> (Some r, sv)
   | Inr m \<Rightarrow> (case manager_or_404 sid sv of Inl r \<Rightarrow> (Some r, sv) | Inr m' \<Rightarrow> await_cont rid (AwaitGraph sid) sv))"

text \<open>The job document is read after the job's thread was started, hence the continuation.\<close>

definition submit_job :: "server_env \<Rightarrow> nat \<Rightarrow> string \<Rightarrow> string \<Rightarrow> server \<Rightarrow> response option \<times> server" where
  "submit_job env rid sid body sv = (case dict_get (sv_heap sv) sid of
     None \<Rightarrow> (Some not_found, sv)
   | Some m \<Rightarrow>
       (case loads (se_fc env) body of
          None \<Rightarrow> (Some (http_error 400 ''Body must be JSON''), sv)
        | Some (JObj d) \<Rightarrow>
            (case parse_graph (case dict_get d ''graph'' of None \<Rightarrow> JObj []
               | Some v \<Rightarrow> if json_truthy v then v else JObj []) of
               Inl e \<Rightarrow> (Some (422, BadGraph e), sv)
             | Inr g \<Rightarrow>
                 (let draft = (case dict_get d ''draft'' of None \<Rightarrow> False | Some v \<Rightarrow> json_truthy v);
                      errors = validate_graph g (sv_registry sv) (jm_session m)
                  in if errors \<noteq> [] then (Some (422, RefusedGraph errors), sv)
                     else (case submit (se_toks env sid) g draft m of (j, m') \<Rightarrow>
                       await_cont rid (TellJob sid (j_id j)) (set_manager sid m' sv))))
        | Some v \<Rightarrow> (Some (http_error 400 ''Body must be a JSON object''), sv)))"

definition tell_job :: "string \<Rightarrow> string \<Rightarrow> server \<Rightarrow> response" where
  "tell_job sid jid sv = (case dict_get (sv_heap sv) sid of
     None \<Rightarrow> not_found
   | Some m \<Rightarrow> (case job_get m jid of
       None \<Rightarrow> http_error 404 ''Job not found''
     | Some j \<Rightarrow> (201, JsonReply (JObj [(''id'', JStr (j_id j)), (''status'', JStr (status_text (j_status j)))]))))"

definition get_job :: "string \<Rightarrow> string \<Rightarrow> server \<Rightarrow> response" where
  "get_job sid jid sv = (case manager_or_404 sid sv of
     Inl r \<Rightarrow> r
   | Inr m \<Rightarrow> (case job_get m jid of
       None \<Rightarrow> http_error 404 ''Job not found'' | Some j \<Rightarrow> (200, JsonReply (job_to_json j))))"

definition cancel_job :: "string \<Rightarrow> string \<Rightarrow> server \<Rightarrow> response \<times> server" where
  "cancel_job sid jid sv = (case manager_or_404 sid sv of
     Inl r \<Rightarrow> (r, sv)
   | Inr m \<Rightarrow> (case job_cancel jid m of (found, m') \<Rightarrow>
       if found then ((204, NoBody), set_manager sid m' sv) else (http_error 404 ''Job not found'', sv)))"

definition events_call :: "string \<Rightarrow> server \<Rightarrow> response" where
  "events_call sid sv = (case manager_or_404 sid sv of Inl r \<Rightarrow> r | Inr m \<Rightarrow> (200, EventStream sid))"

section \<open>The server as a machine\<close>

datatype server_action =
    Arrive nat request api_call
  | RawBody nat bytes
  | JsonBody nat string os_install
  | Proceed nat
  | Hangup nat
  | Engine string job_action

definition finish :: "response \<times> server \<Rightarrow> response option \<times> server" where
  "finish rs = (Some (fst rs), snd rs)"

definition dispatch_call :: "server_env \<Rightarrow> nat \<Rightarrow> api_call \<Rightarrow> server \<Rightarrow> response option \<times> server" where
  "dispatch_call env rid call sv = (case call of
     Health \<Rightarrow> (Some health, sv)
   | CreateSession \<Rightarrow> finish (create_session env sv)
   | DeleteSession sid \<Rightarrow> delete_session rid sid sv
   | UploadPayload sid ty \<Rightarrow> upload_payload rid sid ty sv
   | DownloadPayload sid pid \<Rightarrow> (Some (download_payload sid pid sv), sv)
   | ListModules \<Rightarrow> (Some (list_modules sv), sv)
   | ListExtensions \<Rightarrow> (Some (list_extensions sv), sv)
   | InstallExtension \<Rightarrow> install_call rid sv
   | SubmitJob sid \<Rightarrow> submit_call rid sid sv
   | GetJob sid jid \<Rightarrow> (Some (get_job sid jid sv), sv)
   | CancelCall sid jid \<Rightarrow> finish (cancel_job sid jid sv)
   | Events sid \<Rightarrow> (Some (events_call sid sv), sv))"

definition arrive :: "server_env \<Rightarrow> nat \<Rightarrow> request \<Rightarrow> api_call \<Rightarrow> server \<Rightarrow> response option \<times> server" where
  "arrive env rid rq call sv = (case guard (sv_config sv) (rq\<lparr>rq_path := call_path call\<rparr>) of
     Denied code msg \<Rightarrow> (Some (code, TextReply msg), sv)
   | Crashed e \<Rightarrow> (Some (500, TextReply ''Internal Server Error''), sv)
   | Admitted \<Rightarrow> dispatch_call env rid call sv)"

text \<open>What the threads of a session's jobs do by themselves.\<close>

definition thread_action :: "job_action \<Rightarrow> bool" where
  "thread_action a = (case a of Begin jid \<Rightarrow> True | Call jid c \<Rightarrow> True | Finish jid r \<Rightarrow> True | _ \<Rightarrow> False)"

definition drop_wait :: "nat \<Rightarrow> server \<Rightarrow> server" where
  "drop_wait rid sv = sv\<lparr>sv_waiting := dict_pop rid (sv_waiting sv)\<rparr>"

definition server_step :: "server_env \<Rightarrow> server_action \<Rightarrow> server \<Rightarrow> (response option \<times> server) option" where
  "server_step env a sv = (case a of
     Arrive rid rq call \<Rightarrow>
       (if dict_get (sv_waiting sv) rid = None then Some (arrive env rid rq call sv) else None)
   | RawBody rid data \<Rightarrow> (case dict_get (sv_waiting sv) rid of
       Some (AwaitUpload sid ty) \<Rightarrow> Some (finish (store_upload env sid ty data (drop_wait rid sv))) | _ \<Rightarrow> None)
   | JsonBody rid body os \<Rightarrow> (case dict_get (sv_waiting sv) rid of
       Some (AwaitGraph sid) \<Rightarrow> Some (submit_job env rid sid body (drop_wait rid sv))
     | Some AwaitInstall \<Rightarrow> Some (finish (install_extension env body os (drop_wait rid sv))) | _ \<Rightarrow> None)
   | Proceed rid \<Rightarrow> (case dict_get (sv_waiting sv) rid of
       Some (PopManager sid) \<Rightarrow> Some (pop_manager rid sid (drop_wait rid sv))
     | Some (StopManager sid) \<Rightarrow> Some (finish (stop_manager sid (drop_wait rid sv)))
     | Some (TellJob sid jid) \<Rightarrow> Some (Some (tell_job sid jid sv), drop_wait rid sv) | _ \<Rightarrow> None)
   | Hangup rid \<Rightarrow> (case dict_get (sv_waiting sv) rid of
       Some (AwaitUpload sid ty) \<Rightarrow> Some (None, drop_wait rid sv)
     | Some (AwaitGraph sid) \<Rightarrow> Some (None, drop_wait rid sv)
     | Some AwaitInstall \<Rightarrow> Some (None, drop_wait rid sv) | _ \<Rightarrow> None)
   | Engine sid act \<Rightarrow> (case dict_get (sv_heap sv) sid of
       None \<Rightarrow> None
     | Some m \<Rightarrow> (if thread_action act
         then map_option (\<lambda>m'. (None, set_manager sid m' sv)) (job_step (se_toks env sid) (se_xt env) act m) else None)))"

fun server_steps :: "server_env \<Rightarrow> server_action list \<Rightarrow> server \<Rightarrow> (response option list \<times> server) option" where
  "server_steps env [] sv = Some ([], sv)"
| "server_steps env (a # as) sv = (case server_step env a sv of
     None \<Rightarrow> None
   | Some (r, sv1) \<Rightarrow> map_option (\<lambda>(rs, sv2). (r # rs, sv2)) (server_steps env as sv1))"

end
