(* ===== verification/ExecInv.thy ===== *)
theory ExecInv
  imports Executor
begin

text \<open>
  The scheduler's invariant: dependencies are respected, no node is submitted twice, a task
  only fails by its own fault, and the loop is only left with nothing to do.
\<close>

definition preds :: "graph \<Rightarrow> string \<Rightarrow> string set" where
  "preds g n = {f. (f, n) \<in> set (dep_edges g)}"

definition node_ids :: "graph \<Rightarrow> string set" where
  "node_ids g = nd_id ` set (g_nodes g)"

section \<open>Before the loop\<close>

lemma set_add_get:
  assumes "dict_get d k = Some xs"
  shows "set_add k x d = Inr (dict_set k (List.insert x xs) d)"
  using assms by (simp add: set_add_def)

definition sets_for :: "string set \<Rightarrow> (string \<Rightarrow> string set) \<Rightarrow> string_sets \<Rightarrow> bool" where
  "sets_for V F d \<longleftrightarrow> dict_ok d \<and> (\<forall>n. n \<in> V \<longleftrightarrow> dict_get d n \<noteq> None) \<and>
     (\<forall>n xs. dict_get d n = Some xs \<longrightarrow> set xs = F n)"

lemma sets_for_get: "sets_for V F d \<Longrightarrow> n \<in> V \<Longrightarrow> \<exists>xs. dict_get d n = Some xs \<and> set xs = F n"
  unfolding sets_for_def by (metis not_None_eq)

lemma sets_for_set:
  "sets_for V F d \<Longrightarrow> k \<in> V \<Longrightarrow> sets_for V (F(k := set xs)) (dict_set k xs d)"
  by (auto simp: sets_for_def)

lemma sets_for_cong: "sets_for V F d \<Longrightarrow> (\<And>n. n \<in> V \<Longrightarrow> F n = G n) \<Longrightarrow> sets_for V G d"
  unfolding sets_for_def by (metis option.distinct(1))

lemma sets_for_empty: "sets_for (node_ids g) (\<lambda>n. {}) (empty_sets g)"
proof -
  have "dict_get (empty_sets g) n = Some xs \<Longrightarrow> xs = []" for n xs
    unfolding empty_sets_def by (auto dest: dict_of_get_in)
  then show ?thesis
    using dict_of_dom [of nd_id "\<lambda>n. [] :: string list" "g_nodes g"]
    by (auto simp: sets_for_def node_ids_def empty_sets_def)
qed

lemma set_add_sets_for:
  assumes "sets_for V F d" and "k \<in> V"
  obtains d' where "set_add k x d = Inr d'" and "sets_for V (F(k := insert x (F k))) d'"
proof -
  obtain xs where xs: "dict_get d k = Some xs" "set xs = F k" using sets_for_get [OF assms] by blast
  then show ?thesis
    using that sets_for_set [OF assms, of "List.insert x xs"] by (auto simp: set_add_get)
qed

lemma link_edges_sets_for:
  assumes "sets_for V F deps" and "sets_for V G dts" and "\<forall>e \<in> set es. from_node e \<in> V \<and> to_node e \<in> V"
  shows "\<exists>deps' dts'. link_edges es deps dts = Inr (deps', dts') \<and>
    sets_for V (\<lambda>n. F n \<union> {from_node e | e. e \<in> set es \<and> to_node e = n}) deps' \<and>
    sets_for V (\<lambda>n. G n \<union> {to_node e | e. e \<in> set es \<and> from_node e = n}) dts'"
  using assms
proof (induction es arbitrary: deps dts F G)
  case (Cons e es)
  have e: "from_node e \<in> V" "to_node e \<in> V" using Cons.prems(3) by simp_all
  obtain d1 where d1: "set_add (to_node e) (from_node e) deps = Inr d1"
      "sets_for V (F(to_node e := insert (from_node e) (F (to_node e)))) d1"
    using set_add_sets_for [OF Cons.prems(1) e(2)] by blast
  obtain d2 where d2: "set_add (from_node e) (to_node e) dts = Inr d2"
      "sets_for V (G(from_node e := insert (to_node e) (G (from_node e)))) d2"
    using set_add_sets_for [OF Cons.prems(2) e(1)] by blast
  obtain deps' dts' where l: "link_edges es d1 d2 = Inr (deps', dts')"
      "sets_for V (\<lambda>n. (F(to_node e := insert (from_node e) (F (to_node e)))) n \<union>
         {from_node e | e. e \<in> set es \<and> to_node e = n}) deps'"
      "sets_for V (\<lambda>n. (G(from_node e := insert (to_node e) (G (from_node e)))) n \<union>
         {to_node e | e. e \<in> set es \<and> from_node e = n}) dts'"
    using Cons.IH [OF d1(2) d2(2)] Cons.prems(3) by auto
  have "sets_for V (\<lambda>n. F n \<union> {from_node e' | e'. e' \<in> set (e # es) \<and> to_node e' = n}) deps'"
    by (rule sets_for_cong [OF l(2)]) auto
  moreover have "sets_for V (\<lambda>n. G n \<union> {to_node e' | e'. e' \<in> set (e # es) \<and> from_node e' = n}) dts'"
    by (rule sets_for_cong [OF l(3)]) auto
  ultimately show ?case using d1(1) d2(1) l(1) by auto
qed simp

section \<open>The invariant\<close>

definition submitted :: "exec_state \<Rightarrow> string set" where
  "submitted st = {n. dict_get (x_tasks st) n \<noteq> None}"

definition done_ok :: "exec_state \<Rightarrow> string set" where
  "done_ok st = {f. dict_get (x_tasks st) f = Some (Finished None) \<and> f \<notin> set (x_in_flight st)}"

definition failing_pc :: "main_pc \<Rightarrow> bool" where
  "failing_pc pc = (case pc of Closing (Some e) \<Rightarrow> True | Raised e \<Rightarrow> True | _ \<Rightarrow> False)"

definition pc_inv :: "exec_state \<Rightarrow> bool" where
  "pc_inv st = (case x_pc st of
     Processing fs \<Rightarrow> distinct fs \<and> set fs \<subseteq> set (x_in_flight st) \<and> (\<forall>f \<in> set fs. task_finished st f)
   | Closing None \<Rightarrow> x_ready st = [] \<and> x_in_flight st = []
   | Returned rep \<Rightarrow> x_ready st = [] \<and> x_in_flight st = []
   | _ \<Rightarrow> True)"

definition sched_inv :: "graph \<Rightarrow> exec_state \<Rightarrow> bool" where
  "sched_inv g st \<longleftrightarrow>
     dict_ok (x_tasks st) \<and> distinct (x_in_flight st @ x_ready st) \<and>
     set (x_in_flight st) \<subseteq> submitted st \<and> submitted st \<inter> set (x_ready st) = {} \<and>
     submitted st \<union> set (x_ready st) \<subseteq> node_ids g \<and>
     (\<forall>f \<in> submitted st - set (x_in_flight st). task_finished st f) \<and>
     sets_for (node_ids g) (\<lambda>n. preds g n - done_ok st) (x_deps st) \<and>
     sets_for (node_ids g) (\<lambda>f. {n. f \<in> preds g n}) (x_dependents st) \<and>
     (\<forall>n \<in> node_ids g. n \<in> submitted st \<union> set (x_ready st) \<longleftrightarrow> preds g n \<subseteq> done_ok st) \<and>
     (\<not> failing_pc (x_pc st) \<longrightarrow> submitted st - set (x_in_flight st) \<subseteq> done_ok st) \<and>
     pc_inv st"

lemma sched_inv_preds:
  assumes "sched_inv g st" and "dict_get (x_tasks st) n = Some t"
  shows "n \<in> node_ids g \<and> preds g n \<subseteq> done_ok st"
proof -
  have "n \<in> submitted st" using assms(2) by (simp add: submitted_def)
  then show ?thesis using assms(1) unfolding sched_inv_def by blast
qed

text \<open>What a task's step leaves alone.\<close>

lemmas task_defs = begin_task_def run_task_def test_cancel_def store_result_def record_result_def
  report_node_def emit_output_def report_output_def fail_task_def set_task_def Let_def

lemma task_step_frame:
  assumes "task_step env nid st = Some st'"
  obtains t t' where "dict_get (x_tasks st) nid = Some t" and "running t" and "t' \<noteq> Queued"
    and "x_tasks st' = dict_set nid t' (x_tasks st)"
    and "x_pc st' = x_pc st" and "x_ready st' = x_ready st" and "x_in_flight st' = x_in_flight st"
    and "x_deps st' = x_deps st" and "x_dependents st' = x_dependents st" and "x_cancel st' = x_cancel st"
proof -
  obtain t where t: "dict_get (x_tasks st) nid = Some t"
    using assms by (cases "dict_get (x_tasks st) nid") (auto simp: task_step_def)
  show ?thesis
    using assms that [OF t, of "the (dict_get (x_tasks st') nid)"]
    by (cases t) (auto simp: task_step_def t running_def task_defs
        split: sum.splits prod.splits option.splits list.splits if_splits)
qed


lemma task_finished_set:
  "x_tasks st' = dict_set nid t (x_tasks st) \<Longrightarrow>
     task_finished st' f = (if f = nid then finished t else task_finished st f)"
  by (simp add: task_finished_def)

lemma task_finishedD: "task_finished st f \<Longrightarrow> \<exists>r. dict_get (x_tasks st) f = Some (Finished r)"
  by (auto simp: task_finished_def finished_def split: option.splits task.splits)

text \<open>A task that is replaced by a running or a finished one, when it was not finished before.\<close>

lemma sched_inv_task:
  assumes inv: "sched_inv g st" and t: "dict_get (x_tasks st) nid = Some t" and nf: "\<not> finished t"
    and tasks: "x_tasks st' = dict_set nid t' (x_tasks st)"
    and same: "x_pc st' = x_pc st" "x_ready st' = x_ready st" "x_in_flight st' = x_in_flight st"
      "x_deps st' = x_deps st" "x_dependents st' = x_dependents st"
  shows "sched_inv g st'"
proof -
  have sub: "submitted st' = submitted st"
    using t tasks by (auto simp: submitted_def)
  have "nid \<in> submitted st" "\<not> task_finished st nid"
    using t nf by (simp_all add: submitted_def task_finished_def)
  then have fl: "nid \<in> set (x_in_flight st)"
    using inv unfolding sched_inv_def by blast
  then have d: "done_ok st' = done_ok st"
    using tasks same(3) by (auto simp: done_ok_def)
  have fin: "task_finished st f \<Longrightarrow> task_finished st' f" for f
    unfolding task_finished_set [OF tasks] using nf t by (auto simp: task_finished_def)
  have "pc_inv st'"
    using inv fin by (auto simp: sched_inv_def pc_inv_def same split: main_pc.splits option.splits)
  moreover have "dict_ok (x_tasks st')" using inv by (simp add: sched_inv_def tasks)
  ultimately show ?thesis
    using inv fin unfolding sched_inv_def sub d same by blast
qed

lemma running_not_finished: "running t \<Longrightarrow> \<not> finished t"
  by (cases t) (auto simp: running_def finished_def)

lemma sched_inv_task_step: "sched_inv g st \<Longrightarrow> task_step env nid st = Some st' \<Longrightarrow> sched_inv g st'"
  by (erule task_step_frame) (rule sched_inv_task; (assumption | erule running_not_finished))

lemma pool_stepD:
  assumes "pool_step env st = Some st'" and "dict_ok (x_tasks st)"
  obtains nid where "dict_get (x_tasks st) nid = Some Queued" and "st' = set_task nid Started st"
    and "length (filter running (dict_values (x_tasks st))) < pool_size env"
  using assms that
  by (auto simp: pool_step_def find_Some_iff dict_get_iff split: if_splits) (metis nth_mem)

lemma sched_inv_pool_step:
  assumes "sched_inv g st" and "pool_step env st = Some st'"
  shows "sched_inv g st'"
proof -
  have "dict_ok (x_tasks st)" using assms(1) by (simp add: sched_inv_def)
  then obtain nid where "dict_get (x_tasks st) nid = Some Queued" "st' = set_task nid Started st"
    using pool_stepD [OF assms(2)] by blast
  with assms(1) show ?thesis
    by (intro sched_inv_task [of g st nid Queued st' Started]) (simp_all add: finished_def set_task_def)
qed


section \<open>The main thread\<close>

lemma release_spec:
  assumes "distinct ch" and "\<forall>d \<in> set ch. dict_get deps d \<noteq> None" and "dict_ok deps"
  shows "\<exists>deps'. release f ch deps ready =
      Inr (deps', ready @ filter (\<lambda>d. removeAll f (the (dict_get deps d)) = []) ch) \<and>
    dict_ok deps' \<and>
    (\<forall>n. dict_get deps' n =
       (if n \<in> set ch then map_option (removeAll f) (dict_get deps n) else dict_get deps n))"
  using assms
proof (induction ch arbitrary: deps ready)
  case (Cons d ch)
  obtain xs where xs: "dict_get deps d = Some xs" using Cons.prems(2) by auto
  define deps1 where "deps1 = dict_set d (removeAll f xs) deps"
  have same: "dict_get deps1 n = dict_get deps n" if "n \<in> set ch" for n
    using that Cons.prems(1) by (auto simp: deps1_def)
  have "dict_ok deps1" using Cons.prems(3) by (simp add: deps1_def)
  moreover have "\<forall>n \<in> set ch. dict_get deps1 n \<noteq> None" using Cons.prems(2) same by auto
  moreover have "filter (\<lambda>n. removeAll f (the (dict_get deps1 n)) = []) ch =
      filter (\<lambda>n. removeAll f (the (dict_get deps n)) = []) ch"
    using same by (intro filter_cong) auto
  ultimately obtain deps' where d: "release f ch deps1 (if removeAll f xs = [] then ready @ [d] else ready) =
      Inr (deps', (if removeAll f xs = [] then ready @ [d] else ready) @
        filter (\<lambda>n. removeAll f (the (dict_get deps n)) = []) ch)" "dict_ok deps'"
      "\<forall>n. dict_get deps' n =
         (if n \<in> set ch then map_option (removeAll f) (dict_get deps1 n) else dict_get deps1 n)"
    using Cons.IH [of deps1] Cons.prems(1) by fastforce
  have "release f (d # ch) deps ready =
      release f ch deps1 (if removeAll f xs = [] then ready @ [d] else ready)"
    by (simp add: xs Let_def deps1_def)
  then show ?case using d xs Cons.prems(1) by (auto simp: deps1_def)
qed simp

lemma sets_for_release:
  assumes inv: "sets_for V F deps" and ch: "distinct ch" "set ch = {n. f \<in> P n}" "set ch \<subseteq> V"
    and F: "\<And>n. F n = P n - D"
  shows "\<exists>deps'. release f ch deps ready =
      Inr (deps', ready @ filter (\<lambda>n. F n - {f} = {}) ch) \<and>
    sets_for V (\<lambda>n. P n - insert f D) deps'"
proof -
  have get: "\<forall>d \<in> set ch. dict_get deps d \<noteq> None" and ok: "dict_ok deps"
    using inv ch(3) by (auto simp: sets_for_def)
  have "filter (\<lambda>d. removeAll f (the (dict_get deps d)) = []) ch = filter (\<lambda>n. F n - {f} = {}) ch"
  proof (rule filter_cong [OF refl])
    fix d assume "d \<in> set ch"
    then obtain xs where xs: "dict_get deps d = Some xs" "set xs = F d"
      using sets_for_get [OF inv] ch(3) by blast
    then show "(removeAll f (the (dict_get deps d)) = []) = (F d - {f} = {})"
      by (simp add: xs(2) [symmetric] flip: set_empty)
  qed
  then obtain deps' where d: "release f ch deps ready = Inr (deps', ready @ filter (\<lambda>n. F n - {f} = {}) ch)"
      "dict_ok deps'" "\<forall>n. dict_get deps' n =
         (if n \<in> set ch then map_option (removeAll f) (dict_get deps n) else dict_get deps n)"
    using release_spec [OF ch(1) get ok, of f ready] by auto
  have "set xs = P n - insert f D" if x: "dict_get deps' n = Some xs" for n xs
  proof (cases "n \<in> set ch")
    case True
    then obtain ys where "dict_get deps n = Some ys" "xs = removeAll f ys" using x d(3) by auto
    then show ?thesis using inv F by (auto simp: sets_for_def)
  next
    case False
    then have "dict_get deps n = Some xs" "f \<notin> P n" using x d(3) ch(2) by auto
    then show ?thesis using inv F by (auto simp: sets_for_def)
  qed
  moreover have "n \<in> V \<longleftrightarrow> dict_get deps' n \<noteq> None" for n
    using inv d(3) by (auto simp: sets_for_def)
  ultimately have "sets_for V (\<lambda>n. P n - insert f D) deps'"
    using d(2) unfolding sets_for_def by blast
  with d(1) show ?thesis by blast
qed

lemma sched_inv_pc:
  assumes "sched_inv g st" and "\<not> failing_pc pc \<Longrightarrow> \<not> failing_pc (x_pc st)"
    and "pc_inv (st\<lparr>x_pc := pc\<rparr>)"
  shows "sched_inv g (st\<lparr>x_pc := pc\<rparr>)"
proof -
  have "submitted (st\<lparr>x_pc := pc\<rparr>) = submitted st" "done_ok (st\<lparr>x_pc := pc\<rparr>) = done_ok st"
    "task_finished (st\<lparr>x_pc := pc\<rparr>) f = task_finished st f" for f
    by (simp_all add: submitted_def done_ok_def task_finished_def)
  then show ?thesis using assms unfolding sched_inv_def by simp
qed

lemma sched_inv_submit:
  assumes inv: "sched_inv g st" and pc: "x_pc st = Submitting" and r: "x_ready st = nid # rest"
  shows "sched_inv g (submit_node nid (st\<lparr>x_ready := rest\<rparr>))" (is "sched_inv g ?st")
proof -
  have nid: "nid \<notin> submitted st" "nid \<in> node_ids g" "nid \<notin> set rest" "nid \<notin> set (x_in_flight st)"
    using inv r by (auto simp: sched_inv_def)
  have sub: "submitted ?st = insert nid (submitted st)"
    by (auto simp: submitted_def submit_node_def set_task_def)
  have d: "done_ok ?st = done_ok st"
    using nid by (auto simp: done_ok_def submit_node_def set_task_def submitted_def)
  have fin: "f \<noteq> nid \<Longrightarrow> task_finished ?st f = task_finished st f" for f
    by (simp add: task_finished_def submit_node_def set_task_def)
  have sel: "x_in_flight ?st = x_in_flight st @ [nid]" "x_ready ?st = rest" "x_deps ?st = x_deps st"
    "x_dependents ?st = x_dependents st" "x_pc ?st = Submitting" "x_tasks ?st = dict_set nid Queued (x_tasks st)"
    using pc by (simp_all add: submit_node_def set_task_def)
  have "pc_inv ?st" by (simp add: pc_inv_def sel)
  moreover have "dict_ok (x_tasks ?st)" using inv by (simp add: sel sched_inv_def)
  moreover have "distinct (x_in_flight ?st @ x_ready ?st)" using inv nid by (auto simp: sel sched_inv_def r)
  moreover have "\<forall>f \<in> submitted ?st - set (x_in_flight ?st). task_finished ?st f"
    using inv fin by (auto simp: sel sub sched_inv_def)
  moreover have "submitted ?st \<inter> set (x_ready ?st) = {}" "set (x_in_flight ?st) \<subseteq> submitted ?st"
    "submitted ?st \<union> set (x_ready ?st) \<subseteq> node_ids g"
    "\<forall>n \<in> node_ids g. n \<in> submitted ?st \<union> set (x_ready ?st) \<longleftrightarrow> preds g n \<subseteq> done_ok ?st"
    using inv nid by (auto simp: sel sub d sched_inv_def r)
  moreover have "submitted ?st - set (x_in_flight ?st) \<subseteq> done_ok ?st"
    using inv unfolding sub d sel by (auto simp: sched_inv_def pc failing_pc_def)
  ultimately show ?thesis
    using inv unfolding sched_inv_def sel d by blast
qed

definition edges_closed :: "graph \<Rightarrow> bool" where
  "edges_closed g \<longleftrightarrow> (\<forall>(f, t) \<in> set (dep_edges g). f \<in> node_ids g \<and> t \<in> node_ids g)"

lemma edges_closed_preds: "edges_closed g \<Longrightarrow> f \<in> preds g n \<Longrightarrow> f \<in> node_ids g \<and> n \<in> node_ids g"
  by (auto simp: edges_closed_def preds_def)

lemma sched_inv_failed_future:
  assumes inv: "sched_inv g st" and f: "dict_get (x_tasks st) f = Some (Finished (Some e))"
    and pc: "failing_pc pc"
  shows "sched_inv g (st\<lparr>x_in_flight := removeAll f (x_in_flight st), x_pc := pc\<rparr>)" (is "sched_inv g ?st")
proof -
  have same: "submitted ?st = submitted st" "task_finished ?st = task_finished st"
    by (auto simp: submitted_def task_finished_def)
  have d: "done_ok ?st = done_ok st" using f by (auto simp: done_ok_def)
  have fin: "task_finished st f" using f by (simp add: task_finished_def finished_def)
  have sel: "x_in_flight ?st = removeAll f (x_in_flight st)" "x_ready ?st = x_ready st" "x_deps ?st = x_deps st"
    "x_dependents ?st = x_dependents st" "x_pc ?st = pc" "x_tasks ?st = x_tasks st"
    by simp_all
  have "pc_inv ?st" using pc by (auto simp: pc_inv_def failing_pc_def split: main_pc.splits option.splits)
  moreover have "distinct (x_in_flight ?st @ x_ready ?st)"
    using inv by (auto simp: sel sched_inv_def distinct_removeAll)
  moreover have "\<forall>n \<in> submitted ?st - set (x_in_flight ?st). task_finished ?st n"
    using inv fin by (auto simp: sel same sched_inv_def)
  moreover have "set (x_in_flight ?st) \<subseteq> submitted ?st" using inv by (auto simp: sel same sched_inv_def)
  ultimately show ?thesis
    using inv pc unfolding sched_inv_def d sel same by blast
qed

lemma sched_inv_finished_future:
  assumes inv: "sched_inv g st" and closed: "edges_closed g" and pc: "x_pc st = Processing (f # fs)"
    and f: "dict_get (x_tasks st) f = Some (Finished None)" and ds: "dict_get (x_dependents st) f = Some ds"
    and ch: "distinct ch" "set ch = set ds"
  shows "\<exists>deps ready. release f ch (x_deps st) (x_ready st) = Inr (deps, ready) \<and>
    sched_inv g (st\<lparr>x_in_flight := removeAll f (x_in_flight st), x_deps := deps, x_ready := ready,
      x_pc := Processing fs\<rparr>)"
proof -
  let ?D = "done_ok st" and ?F = "\<lambda>n. preds g n - done_ok st"
  have fl: "f \<in> set (x_in_flight st)" "f \<notin> set fs" "set fs \<subseteq> set (x_in_flight st)" "distinct fs"
    "\<forall>n \<in> set fs. task_finished st n"
    using inv pc by (auto simp: sched_inv_def pc_inv_def)
  then have fD: "f \<notin> ?D" by (simp add: done_ok_def)
  have ch': "set ch = {n. f \<in> preds g n}" using inv ds ch(2) by (auto simp: sched_inv_def sets_for_def)
  then have chV: "set ch \<subseteq> node_ids g" using edges_closed_preds [OF closed] by blast
  have "sets_for (node_ids g) ?F (x_deps st)" using inv by (simp add: sched_inv_def)
  from sets_for_release [OF this ch(1) ch' chV refl, of "x_ready st"]
  obtain deps where rel: "release f ch (x_deps st) (x_ready st) =
      Inr (deps, x_ready st @ filter (\<lambda>n. ?F n - {f} = {}) ch)"
    and deps: "sets_for (node_ids g) (\<lambda>n. preds g n - insert f ?D) deps" by blast
  define ready where "ready = x_ready st @ filter (\<lambda>n. ?F n - {f} = {}) ch"
  define st' where "st' = st\<lparr>x_in_flight := removeAll f (x_in_flight st), x_deps := deps,
    x_ready := ready, x_pc := Processing fs\<rparr>"
  have sel: "x_in_flight st' = removeAll f (x_in_flight st)" "x_ready st' = ready" "x_deps st' = deps"
    "x_dependents st' = x_dependents st" "x_pc st' = Processing fs" "x_tasks st' = x_tasks st"
    by (simp_all add: st'_def)
  have same: "submitted st' = submitted st" "task_finished st' = task_finished st"
    by (auto simp: submitted_def task_finished_def sel)
  have d: "done_ok st' = insert f ?D" using f by (auto simp: done_ok_def sel)
  have sub: "n \<in> node_ids g \<Longrightarrow> n \<in> submitted st \<union> set (x_ready st) \<longleftrightarrow> preds g n \<subseteq> ?D" for n
    using inv by (simp add: sched_inv_def)
  have new: "set (filter (\<lambda>n. ?F n - {f} = {}) ch) = {n. f \<in> preds g n \<and> preds g n \<subseteq> insert f ?D}"
    using ch' by auto
  have old: "f \<in> preds g n \<Longrightarrow> n \<notin> submitted st \<union> set (x_ready st)" for n
    using sub [of n] edges_closed_preds [OF closed] fD by blast
  have "distinct (x_in_flight st' @ x_ready st')"
    using inv old ch(1) new
    by (auto simp: sel ready_def sched_inv_def distinct_removeAll)
  moreover have "pc_inv st'" using fl by (auto simp: pc_inv_def sel same)
  moreover have "\<forall>n \<in> submitted st' - set (x_in_flight st'). task_finished st' n"
    using inv f by (auto simp: sel same sched_inv_def task_finished_def finished_def)
  moreover have "set (x_in_flight st') \<subseteq> submitted st'" "submitted st' \<inter> set (x_ready st') = {}"
    using inv old new by (auto simp: sel same sched_inv_def ready_def)
  moreover have "submitted st' \<union> set (x_ready st') \<subseteq> node_ids g"
    using inv new edges_closed_preds [OF closed] by (auto simp: sel same sched_inv_def ready_def)
  moreover have "\<forall>n \<in> node_ids g. n \<in> submitted st' \<union> set (x_ready st') \<longleftrightarrow> preds g n \<subseteq> done_ok st'"
    unfolding same sel d ready_def set_append new using sub by blast
  moreover have "submitted st' - set (x_in_flight st') \<subseteq> done_ok st'"
    using inv unfolding same sel d by (auto simp: sched_inv_def pc failing_pc_def)
  moreover have "dict_ok (x_tasks st')" "sets_for (node_ids g) (\<lambda>n. preds g n - done_ok st') (x_deps st')"
    "sets_for (node_ids g) (\<lambda>f. {n. f \<in> preds g n}) (x_dependents st')"
    using inv deps by (simp_all add: sel d sched_inv_def)
  ultimately have "sched_inv g st'" unfolding sched_inv_def by blast
  then show ?thesis using rel unfolding st'_def ready_def by blast
qed

lemma sched_inv_process:
  assumes inv: "sched_inv g st" and closed: "edges_closed g" and pc: "x_pc st = Processing (f # fs)"
    and step: "process_future ch f fs st = Some st'"
  shows "sched_inv g st'"
proof -
  have fl: "f \<in> set (x_in_flight st)" "task_finished st f"
    using inv pc by (auto simp: sched_inv_def pc_inv_def)
  then obtain r where r: "dict_get (x_tasks st) f = Some (Finished r)"
    using task_finishedD by blast
  show ?thesis
  proof (cases r)
    case (Some e)
    then show ?thesis
      using step r sched_inv_failed_future [OF inv, of f e "Closing (Some e)"]
      by (simp add: process_future_def Let_def failing_pc_def)
  next
    case None
    have "f \<in> node_ids g" using inv fl by (auto simp: sched_inv_def)
    then obtain ds where ds: "dict_get (x_dependents st) f = Some ds"
      using inv sets_for_get [of "node_ids g" "\<lambda>f. {n. f \<in> preds g n}" "x_dependents st" f]
      unfolding sched_inv_def by blast
    then have ch: "distinct ch" "set ch = set ds"
      using step r None by (auto simp: process_future_def Let_def split: if_splits)
    show ?thesis
      using sched_inv_finished_future [OF inv closed pc, of ds ch] step r None ds ch
      by (auto simp: process_future_def Let_def)
  qed
qed

lemma sched_inv_pc_inv: "sched_inv g st \<Longrightarrow> pc_inv st"
  by (simp add: sched_inv_def)

lemma sched_inv_close:
  "sched_inv g st \<Longrightarrow> x_pc st = Closing r \<Longrightarrow> close_pool env r st = Some st' \<Longrightarrow> sched_inv g st'"
  unfolding close_pool_def
  by (cases r; cases "collect_outputs (g_outputs (e_graph env)) (x_emitted st)")
    (auto simp: failing_pc_def pc_inv_def dest: sched_inv_pc_inv intro!: sched_inv_pc split: if_splits)

lemma sched_inv_same:
  assumes "sched_inv g st" and "x_tasks st' = x_tasks st" "x_pc st' = x_pc st" "x_ready st' = x_ready st"
    "x_in_flight st' = x_in_flight st" "x_deps st' = x_deps st" "x_dependents st' = x_dependents st"
  shows "sched_inv g st'"
proof -
  have "submitted st' = submitted st" "done_ok st' = done_ok st" "task_finished st' = task_finished st"
    using assms by (auto simp: submitted_def done_ok_def task_finished_def)
  moreover from this have "pc_inv st' = pc_inv st" using assms
    by (simp add: pc_inv_def cong: main_pc.case_cong option.case_cong)
  ultimately show ?thesis using assms unfolding sched_inv_def by simp
qed

lemma sched_inv_main_step:
  assumes inv: "sched_inv g st" and closed: "edges_closed g" and step: "main_step env ch st = Some st'"
  shows "sched_inv g st'"
proof (cases "x_pc st")
  case Loop
  then show ?thesis
    using inv step by (auto simp: main_step_def pc_inv_def failing_pc_def intro!: sched_inv_pc split: if_splits)
next
  case Submitting
  then show ?thesis
    using inv step sched_inv_submit [OF inv Submitting]
    by (auto simp: main_step_def pc_inv_def failing_pc_def intro!: sched_inv_pc split: list.splits)
next
  case Waiting
  then show ?thesis
    using inv step by (auto simp: main_step_def pc_inv_def failing_pc_def list_all_iff task_finished_def
        intro!: sched_inv_pc split: if_splits)
next
  case (Processing fs)
  then show ?thesis
    using inv step sched_inv_process [OF inv closed]
    by (cases fs) (auto simp: main_step_def pc_inv_def failing_pc_def intro!: sched_inv_pc)
next
  case AwaitAll
  then show ?thesis
    using inv step by (auto simp: main_step_def pc_inv_def failing_pc_def intro!: sched_inv_pc split: if_splits)
next
  case (Closing r)
  then show ?thesis using inv step sched_inv_close by (auto simp: main_step_def)
qed (use step in \<open>simp_all add: main_step_def\<close>)

lemma sched_inv_step:
  assumes "sched_inv g st" and "edges_closed g" and "exec_step env a st = Some st'"
  shows "sched_inv g st'"
proof (cases a)
  case Cancel
  then have "st' = st\<lparr>x_cancel := True\<rparr>" using assms(3) by (simp add: exec_step_def)
  then show ?thesis using assms(1) by (intro sched_inv_same [of g st st']) simp_all
next
  case (OtherPut key res)
  then have "st' = st\<lparr>x_cache := cache_put key res (x_cache st)\<rparr>" using assms(3) by (simp add: exec_step_def)
  then show ?thesis using assms(1) by (intro sched_inv_same [of g st st']) simp_all
next
  case Start
  then show ?thesis using assms sched_inv_pool_step [of g st env st'] by (simp add: exec_step_def)
next
  case (Task nid)
  then show ?thesis using assms sched_inv_task_step [of g st env nid st'] by (simp add: exec_step_def)
next
  case (Main ch)
  then show ?thesis using assms sched_inv_main_step [of g st env ch st'] by (simp add: exec_step_def)
qed

section \<open>Reachable states\<close>

text \<open>\<open>P key res\<close> is what is known of the entries that other jobs put into the shared cache.\<close>

fun allowed :: "(string \<Rightarrow> results \<Rightarrow> bool) \<Rightarrow> exec_action \<Rightarrow> bool" where
  "allowed P (OtherPut key res) = P key res"
| "allowed P a = True"

inductive reach :: "exec_env \<Rightarrow> (string \<Rightarrow> results \<Rightarrow> bool) \<Rightarrow> exec_state \<Rightarrow> exec_state \<Rightarrow> bool"
  for env P s0 where
  reach_init: "reach env P s0 s0"
| reach_step: "reach env P s0 s \<Longrightarrow> allowed P a \<Longrightarrow> exec_step env a s = Some s' \<Longrightarrow> reach env P s0 s'"

inductive_cases reach_stepE: "reach env P s0 s"

lemma exec_run_append:
  "exec_run env (as @ bs) st = Option.bind (exec_run env as st) (exec_run env bs)"
  by (induction as arbitrary: st) (auto split: Option.bind_splits)

lemma reach_run: "reach env P s0 s \<Longrightarrow> list_all (allowed P) as \<Longrightarrow> exec_run env as s = Some s' \<Longrightarrow> reach env P s0 s'"
proof (induction as arbitrary: s)
  case (Cons a as)
  then show ?case by (auto simp: bind_eq_Some_conv intro: reach_step)
qed simp

lemma reach_iff_run:
  "reach env P s0 s \<longleftrightarrow> (\<exists>as. list_all (allowed P) as \<and> exec_run env as s0 = Some s)"
proof
  assume "reach env P s0 s"
  then show "\<exists>as. list_all (allowed P) as \<and> exec_run env as s0 = Some s"
  proof induction
    case reach_init
    have "list_all (allowed P) [] \<and> exec_run env [] s0 = Some s0" by simp
    then show ?case by blast
  next
    case (reach_step s a s')
    then obtain as where "list_all (allowed P) as" "exec_run env as s0 = Some s" by blast
    then have "list_all (allowed P) (as @ [a])" "exec_run env (as @ [a]) s0 = Some s'"
      using reach_step by (simp_all add: exec_run_append)
    then show ?case by blast
  qed
qed (auto intro: reach_run reach_init)

section \<open>The start\<close>

lemma node_has_output_id: "node_has_output reg g nid port ty \<Longrightarrow> nid \<in> node_ids g"
  by (auto simp: node_has_output_def node_ids_def)

lemma node_has_input_id: "node_has_input reg g nid port ty \<Longrightarrow> nid \<in> node_ids g"
  by (auto simp: node_has_input_def node_ids_def)

lemma valid_edges_closed:
  assumes "valid_graph reg ses g" shows "edges_closed g"
proof -
  have "from_node e \<in> node_ids g \<and> to_node e \<in> node_ids g" if "e \<in> set (g_edges g)" for e
    using assms that unfolding valid_graph_def valid_wiring_def
    by (meson node_has_input_id node_has_output_id)
  then show ?thesis by (auto simp: edges_closed_def dep_edges_def)
qed

lemma link_edges_start:
  assumes "edges_closed g"
  shows "\<exists>deps dts. link_edges (g_edges g) (empty_sets g) (empty_sets g) = Inr (deps, dts) \<and>
    sets_for (node_ids g) (preds g) deps \<and> sets_for (node_ids g) (\<lambda>f. {n. f \<in> preds g n}) dts"
proof -
  have e: "\<forall>e \<in> set (g_edges g). from_node e \<in> node_ids g \<and> to_node e \<in> node_ids g"
    using assms by (auto simp: edges_closed_def dep_edges_def)
  have "{from_node e | e. e \<in> set (g_edges g) \<and> to_node e = n} = preds g n"
    "{to_node e | e. e \<in> set (g_edges g) \<and> from_node e = n} = {m. n \<in> preds g m}" for n
    by (auto simp: preds_def dep_edges_def)
  then show ?thesis
    using link_edges_sets_for [OF sets_for_empty sets_for_empty e] by simp
qed

theorem exec_start_Inl:
  "exec_start env c cancel = Inl e \<longleftrightarrow>
     e = InvalidGraph (validate_graph (e_graph env) (e_reg env) (e_ses env)) \<and>
     \<not> valid_graph (e_reg env) (e_ses env) (e_graph env)"
proof (cases "valid_graph (e_reg env) (e_ses env) (e_graph env)")
  case True
  then have "validate_graph (e_graph env) (e_reg env) (e_ses env) = []" by (simp add: validate_graph_Nil)
  moreover have "topological_order (e_graph env) \<noteq> None"
    using True topological_order_None [of "e_graph env"] by (simp add: valid_graph_def)
  ultimately show ?thesis
    using True link_edges_start [OF valid_edges_closed [OF True]]
    by (auto simp: exec_start_def Let_def)
next
  case False
  then have "validate_graph (e_graph env) (e_reg env) (e_ses env) \<noteq> []" by (simp add: validate_graph_Nil)
  then show ?thesis using False by (auto simp: exec_start_def Let_def)
qed

lemma exec_start_valid:
  "exec_start env c cancel = Inr s0 \<Longrightarrow> valid_graph (e_reg env) (e_ses env) (e_graph env)"
  using exec_start_Inl [of env c cancel] by (metis Inl_Inr_False)

lemma exec_start_fields:
  assumes "exec_start env c cancel = Inr s0"
  shows "x_pc s0 = Loop \<and> x_tasks s0 = [] \<and> x_in_flight s0 = [] \<and> x_keys s0 = [] \<and> x_results s0 = [] \<and>
    x_executed s0 = [] \<and> x_cached s0 = [] \<and> x_emitted s0 = [] \<and> x_cache s0 = c \<and>
    x_cancel s0 = cancel \<and> x_calls s0 = []"
  using assms by (auto simp: exec_start_def Let_def ebind_Inr split: if_splits)

lemma sched_inv_start:
  assumes s0: "exec_start env c cancel = Inr s0"
  shows "sched_inv (e_graph env) s0"
proof -
  let ?g = "e_graph env"
  obtain deps dts where l: "link_edges (g_edges ?g) (empty_sets ?g) (empty_sets ?g) = Inr (deps, dts)"
      "sets_for (node_ids ?g) (preds ?g) deps" "sets_for (node_ids ?g) (\<lambda>f. {n. f \<in> preds ?g n}) dts"
    using link_edges_start [OF valid_edges_closed [OF exec_start_valid [OF s0]]] by blast
  have s: "x_deps s0 = deps" "x_dependents s0 = dts" "x_ready s0 = map fst (filter (\<lambda>(n, ds). ds = []) deps)"
    using s0 l(1) by (auto simp: exec_start_def Let_def split: if_splits)
  note f = exec_start_fields [OF s0]
  have e: "submitted s0 = {}" "done_ok s0 = {}"
    using f by (auto simp: submitted_def done_ok_def)
  have ok: "dict_ok deps" using l(2) by (simp add: sets_for_def)
  then have d: "distinct (x_ready s0)" by (simp add: s dict_ok_def distinct_map_filter)
  have ready: "n \<in> set (x_ready s0) \<longleftrightarrow> n \<in> node_ids ?g \<and> preds ?g n = {}" for n
  proof -
    have "n \<in> set (x_ready s0) \<longleftrightarrow> (n, []) \<in> set deps" by (force simp: s)
    also have "\<dots> \<longleftrightarrow> dict_get deps n = Some []" by (simp add: dict_get_iff [OF ok])
    also have "\<dots> \<longleftrightarrow> n \<in> node_ids ?g \<and> preds ?g n = {}"
    proof
      assume e: "dict_get deps n = Some []"
      then have "n \<in> node_ids ?g" "set [] = preds ?g n"
        using l(2) unfolding sets_for_def by (metis option.distinct(1), blast)
      then show "n \<in> node_ids ?g \<and> preds ?g n = {}" by simp
    next
      assume n: "n \<in> node_ids ?g \<and> preds ?g n = {}"
      then show "dict_get deps n = Some []" using sets_for_get [OF l(2), of n] by auto
    qed
    finally show ?thesis .
  qed
  have r1: "set (x_ready s0) \<subseteq> node_ids ?g"
    "\<forall>n \<in> node_ids ?g. n \<in> {} \<union> set (x_ready s0) \<longleftrightarrow> preds ?g n \<subseteq> {}"
    by (auto simp only: ready)
  have "sets_for (node_ids ?g) (\<lambda>n. preds ?g n - done_ok s0) (x_deps s0)"
    "sets_for (node_ids ?g) (\<lambda>f. {n. f \<in> preds ?g n}) (x_dependents s0)"
    using l(2,3) by (simp_all add: e s(1,2))
  then show ?thesis
    using f d r1 unfolding sched_inv_def e by (simp add: pc_inv_def)
qed

theorem reach_sched_inv:
  assumes "exec_start env c cancel = Inr s0" and "reach env P s0 s"
  shows "sched_inv (e_graph env) s"
  using assms(2)
proof induction
  case reach_init
  show ?case by (rule sched_inv_start [OF assms(1)])
next
  case (reach_step s a s')
  show ?case
    by (rule sched_inv_step [OF reach_step(4) valid_edges_closed [OF exec_start_valid [OF assms(1)]] reach_step(3)])
qed

end
