(* ===== verification/Values.thy ===== *)
theory Values
  imports ExecInv
begin

text \<open>
  What a graph means, and when the cache is transparent.

  \<open>val env n key res\<close> is the specification of node \<open>n\<close>: its recipe key and the results of its
  module on its inputs, defined by rule induction over the graph with no scheduler, no cache
  and no order. The executable sequential evaluation along a topological order is \<open>eval_nodes\<close>
  of \<^verbatim>\<open>ExecRun\<close>.

  A set of executions that share one cache is \<open>compatible\<close> when
    \<^item> the recipes and the bound payloads that occur have no collisions under one hash, and no bound
      payload is the text of a recipe (\<open>collision_free\<close>);
    \<^item> a name and a version determine the module;
    \<^item> all the edges that leave nodes of one module read the same of its output ports (an input key
      is the key of the node upstream and does not say which of its ports is read);
    \<^item> params are JSON that \<open>json.dumps\<close> prints, with distinct keys, and what a successful \<open>run\<close>
      returns does not depend on the order of the params' keys.
  A module may have any number of output ports; the results on ports that no edge reads are cached
  and requested like the others. \<open>val_pinned\<close>: then a key determines the results, across all the
  executions. Without the third condition it need not: \<open>ports_share_a_key\<close>.
\<close>

definition bound_to :: "exec_env \<Rightarrow> string \<Rightarrow> port_spec \<Rightarrow> string \<times> bytes \<Rightarrow> bool" where
  "bound_to env n p kd \<longleftrightarrow>
     (\<exists>pid pl. dict_get (binding_into (e_graph env)) (n, port_name p) = Some pid \<and>
        get_payload (e_ses env) pid = Some pl \<and>
        kd = (content_hash (e_hash env) (pl_data pl), pl_data pl))"

definition wired_to :: "exec_env \<Rightarrow> string \<Rightarrow> port_spec \<Rightarrow> string \<Rightarrow> string \<Rightarrow> bool" where
  "wired_to env n p src sp \<longleftrightarrow>
     dict_get (binding_into (e_graph env)) (n, port_name p) = None \<and>
     dict_get (edge_into (e_graph env)) (n, port_name p) = Some (src, sp)"

definition inputs_of :: "port_spec list \<Rightarrow> (string \<times> bytes) list \<Rightarrow> (string, bytes) dict" where
  "inputs_of ps kds = dict_of (\<lambda>(p, kd). port_name p) (\<lambda>(p, kd). snd kd) (zip ps kds)"

inductive val :: "exec_env \<Rightarrow> string \<Rightarrow> string \<Rightarrow> results \<Rightarrow> bool" for env where
  val_node: "node_lookup env n = Inr (nd, md) \<Longrightarrow>
    list_all2 (\<lambda>p kd. bound_to env n p kd \<or>
      (\<exists>src sp res r. wired_to env n p src sp \<and> val env src (fst kd) res \<and>
        dict_get res sp = Some r \<and> snd kd = r_data r)) (m_inputs (mod_manifest md)) kds \<Longrightarrow>
    mod_run md (inputs_of (m_inputs (mod_manifest md)) kds) (nd_params nd) (e_draft env) = Inr res \<Longrightarrow>
    contract_error (mod_manifest md) res = None \<Longrightarrow>
    val env n (task_key env nd (mod_manifest md) (map fst kds)) res"

inductive_cases valE: "val env n key res"

definition fed_with :: "exec_env \<Rightarrow> string \<Rightarrow> port_spec \<Rightarrow> string \<times> bytes \<Rightarrow> bool" where
  "fed_with env n p kd \<longleftrightarrow> bound_to env n p kd \<or>
     (\<exists>src sp res r. wired_to env n p src sp \<and> val env src (fst kd) res \<and>
        dict_get res sp = Some r \<and> snd kd = r_data r)"

text \<open>Node \<open>n\<close> hashes its recipe: its inputs are there.\<close>

definition hashes :: "exec_env \<Rightarrow> string \<Rightarrow> node \<Rightarrow> pymodule \<Rightarrow> (string \<times> bytes) list \<Rightarrow> bool" where
  "hashes env n nd md kds \<longleftrightarrow> node_lookup env n = Inr (nd, md) \<and>
     list_all2 (fed_with env n) (m_inputs (mod_manifest md)) kds"

lemma val_iff:
  "val env n key res \<longleftrightarrow> (\<exists>nd md kds. hashes env n nd md kds \<and>
     key = task_key env nd (mod_manifest md) (map fst kds) \<and>
     mod_run md (inputs_of (m_inputs (mod_manifest md)) kds) (nd_params nd) (e_draft env) = Inr res \<and>
     contract_error (mod_manifest md) res = None)"
  unfolding hashes_def fed_with_def [abs_def] by (subst val.simps) blast

section \<open>Executions that may share a cache\<close>

definition leaf_bytes :: "exec_env \<Rightarrow> bytes set" where
  "leaf_bytes env = {d. \<exists>n p k. bound_to env n p (k, d)}"

definition recipe_bytes :: "exec_env \<Rightarrow> bytes set" where
  "recipe_bytes env = {b. \<exists>n nd md kds. hashes env n nd md kds \<and>
     b = encode (recipe_text (m_name (mod_manifest md)) (m_version (mod_manifest md)) (nd_params nd)
       (map fst kds) (e_draft env))}"

definition uses :: "exec_env set \<Rightarrow> node \<Rightarrow> pymodule \<Rightarrow> bool" where
  "uses E nd md \<longleftrightarrow> (\<exists>env \<in> E. \<exists>n. node_lookup env n = Inr (nd, md))"

text \<open>Some edge reads port \<open>q\<close> of a node that runs \<open>md\<close>.\<close>

definition reads_port :: "exec_env set \<Rightarrow> pymodule \<Rightarrow> string \<Rightarrow> bool" where
  "reads_port E md q \<longleftrightarrow> (\<exists>env \<in> E. \<exists>n p src nd. wired_to env n p src q \<and> node_lookup env src = Inr (nd, md)) \<and>
     q \<in> port_name ` set (m_outputs (mod_manifest md))"

definition collision_free :: "exec_env set \<Rightarrow> bool" where
  "collision_free E \<longleftrightarrow> (\<forall>e1 \<in> E. \<forall>e2 \<in> E. e_hash e1 = e_hash e2) \<and>
     (\<forall>e \<in> E. inj_on (e_hash e) ((\<Union>e \<in> E. leaf_bytes e) \<union> (\<Union>e \<in> E. recipe_bytes e))) \<and>
     (\<Union>e \<in> E. leaf_bytes e) \<inter> (\<Union>e \<in> E. recipe_bytes e) = {}"

definition well_behaved :: "(string \<Rightarrow> string) \<Rightarrow> exec_env set \<Rightarrow> bool" where
  "well_behaved fc E \<longleftrightarrow>
     (\<forall>nd md. uses E nd md \<longrightarrow> wf_json fc (JObj (nd_params nd)) \<and>
        (\<forall>q q'. reads_port E md q \<longrightarrow> reads_port E md q' \<longrightarrow> q = q') \<and>
        (\<forall>i ps ps' d r. jsort (JObj ps) = jsort (JObj ps') \<longrightarrow> mod_run md i ps d = Inr r \<longrightarrow> mod_run md i ps' d = Inr r)) \<and>
     (\<forall>nd md nd' md'. uses E nd md \<longrightarrow> uses E nd' md' \<longrightarrow>
        m_name (mod_manifest md) = m_name (mod_manifest md') \<longrightarrow>
        m_version (mod_manifest md) = m_version (mod_manifest md') \<longrightarrow> md = md')"

definition compatible :: "(string \<Rightarrow> string) \<Rightarrow> exec_env set \<Rightarrow> bool" where
  "compatible fc E \<longleftrightarrow> collision_free E \<and> well_behaved fc E"

section \<open>The contract check\<close>

lemma first_wrong_type_None:
  "first_wrong_type mname declared res = None \<longleftrightarrow>
     (\<forall>(name, r) \<in> set res. dict_get declared name = Some (r_type r))"
  by (induction mname declared res rule: first_wrong_type.induct) (auto split: option.splits)

lemma contract_error_None: "contract_error m res = None \<longleftrightarrow> conforms m res"
proof -
  have "filter (\<lambda>n. n \<notin> set (dict_keys res)) (dict_keys (declared_types m)) = [] \<longleftrightarrow>
      set (dict_keys (declared_types m)) \<subseteq> set (dict_keys res)"
    "filter (\<lambda>n. n \<notin> set (dict_keys (declared_types m))) (dict_keys res) = [] \<longleftrightarrow>
      set (dict_keys res) \<subseteq> set (dict_keys (declared_types m))"
    unfolding filter_empty_conv by blast+
  then show ?thesis
    unfolding contract_error_def conforms_def Let_def by (auto simp: first_wrong_type_None)
qed

lemma conforms_port:
  "conforms m res \<Longrightarrow> dict_get res q = Some r \<Longrightarrow> q \<in> port_name ` set (m_outputs m)"
  using declared_keys [of m] map_of_SomeD [of res q r] by (force simp: conforms_def)

lemma reads_single:
  "length (m_outputs (mod_manifest md)) = 1 \<Longrightarrow> reads_port E md q \<Longrightarrow> reads_port E md q' \<Longrightarrow> q = q'"
  by (auto simp: reads_port_def length_Suc_conv)

section \<open>A key determines the results\<close>

lemma val_conforms: "val env n key res \<Longrightarrow> \<exists>nd md kds. hashes env n nd md kds \<and> conforms (mod_manifest md) res"
  by (auto simp: val_iff contract_error_None)

lemma recipe_bytesI:
  "hashes env n nd md kds \<Longrightarrow>
     encode (recipe_text (m_name (mod_manifest md)) (m_version (mod_manifest md)) (nd_params nd)
       (map fst kds) (e_draft env)) \<in> recipe_bytes env"
  unfolding recipe_bytes_def by blast

lemma leaf_bytesI: "bound_to env n p kd \<Longrightarrow> snd kd \<in> leaf_bytes env"
  unfolding leaf_bytes_def by (metis (mono_tags, lifting) mem_Collect_eq prod.collapse)

lemma val_key_hash:
  "val env n key res \<Longrightarrow> \<exists>b \<in> recipe_bytes env. key = e_hash env b"
  unfolding val_iff task_key_def recipe_key_def by (blast intro: recipe_bytesI)

lemma compatible_hash:
  assumes "compatible fc E" "e1 \<in> E" "e2 \<in> E" and "e_hash e1 b1 = e_hash e2 b2"
    and "b1 \<in> leaf_bytes e1 \<union> recipe_bytes e1" "b2 \<in> leaf_bytes e2 \<union> recipe_bytes e2"
  shows "b1 = b2"
proof -
  have h: "e_hash e1 = e_hash e2" and
    inj: "inj_on (e_hash e1) ((\<Union>e \<in> E. leaf_bytes e) \<union> (\<Union>e \<in> E. recipe_bytes e))"
    using assms(1-3) unfolding compatible_def collision_free_def by blast+
  have "b1 \<in> (\<Union>e \<in> E. leaf_bytes e) \<union> (\<Union>e \<in> E. recipe_bytes e)"
    "b2 \<in> (\<Union>e \<in> E. leaf_bytes e) \<union> (\<Union>e \<in> E. recipe_bytes e)"
    using assms(2,3,5,6) by blast+
  with inj_onD [OF inj] assms(4) h show ?thesis by simp
qed

lemma compatible_leaf_recipe:
  "compatible fc E \<Longrightarrow> e1 \<in> E \<Longrightarrow> e2 \<in> E \<Longrightarrow> b \<in> leaf_bytes e1 \<Longrightarrow> b \<in> recipe_bytes e2 \<Longrightarrow> False"
  unfolding compatible_def collision_free_def by blast

text \<open>Equal keys are equal recipes.\<close>

lemma same_recipe:
  assumes c: "compatible fc E" and e: "e1 \<in> E" "e2 \<in> E"
    and h: "hashes e1 n1 nd1 md1 kds1" "hashes e2 n2 nd2 md2 kds2"
    and k: "task_key e1 nd1 (mod_manifest md1) (map fst kds1) = task_key e2 nd2 (mod_manifest md2) (map fst kds2)"
  shows "md1 = md2" and "map fst kds1 = map fst kds2" and "e_draft e1 = e_draft e2"
    and "jsort (JObj (nd_params nd1)) = jsort (JObj (nd_params nd2))"
proof -
  let ?t1 = "recipe_text (m_name (mod_manifest md1)) (m_version (mod_manifest md1)) (nd_params nd1) (map fst kds1) (e_draft e1)"
  let ?t2 = "recipe_text (m_name (mod_manifest md2)) (m_version (mod_manifest md2)) (nd_params nd2) (map fst kds2) (e_draft e2)"
  have "encode ?t1 = encode ?t2"
    using compatible_hash [OF c e, of "encode ?t1" "encode ?t2"] recipe_bytesI [OF h(1)] recipe_bytesI [OF h(2)] k
    by (simp add: task_key_def recipe_key_def)
  then have t: "?t1 = ?t2" by (rule encode_inj)
  have u: "uses E nd1 md1" "uses E nd2 md2" using h e by (auto simp: uses_def hashes_def)
  then have "wf_json fc (JObj (nd_params nd1))" "wf_json fc (JObj (nd_params nd2))"
    using c unfolding compatible_def well_behaved_def by blast+
  note eqs = recipe_text_inj [OF this t]
  then show "map fst kds1 = map fst kds2" "e_draft e1 = e_draft e2"
    "jsort (JObj (nd_params nd1)) = jsort (JObj (nd_params nd2))" by blast+
  show "md1 = md2" using c u eqs unfolding compatible_def well_behaved_def by blast
qed

text \<open>Edges out of nodes that have the same key read the same port.\<close>

lemma same_port:
  assumes c: "compatible fc E" and e: "e1 \<in> E" "e2 \<in> E"
    and w: "wired_to e1 n1 p1 s1 q1" "wired_to e2 n2 p2 s2 q2"
    and v: "val e1 s1 key res1" "val e2 s2 key res2"
    and r: "dict_get res1 q1 = Some r1" "dict_get res2 q2 = Some r2"
  shows "q1 = q2"
proof -
  obtain nd1 md1 kds1 where h1: "hashes e1 s1 nd1 md1 kds1" "key = task_key e1 nd1 (mod_manifest md1) (map fst kds1)"
      "conforms (mod_manifest md1) res1"
    using v(1) unfolding val_iff contract_error_None by blast
  obtain nd2 md2 kds2 where h2: "hashes e2 s2 nd2 md2 kds2" "key = task_key e2 nd2 (mod_manifest md2) (map fst kds2)"
      "conforms (mod_manifest md2) res2"
    using v(2) unfolding val_iff contract_error_None by blast
  have md: "md1 = md2" using same_recipe(1) [OF c e h1(1) h2(1)] h1(2) h2(2) by simp
  have "reads_port E md1 q1" "reads_port E md1 q2"
    using h1(1) h2(1) md e w conforms_port [OF h1(3) r(1)] conforms_port [OF h2(3) r(2)]
    unfolding reads_port_def hashes_def by blast+
  moreover have "uses E nd1 md1" using h1(1) e(1) by (auto simp: uses_def hashes_def)
  ultimately show ?thesis using c unfolding compatible_def well_behaved_def by blast
qed

definition pinned_val :: "exec_env set \<Rightarrow> string \<Rightarrow> results \<Rightarrow> bool" where
  "pinned_val E key res \<longleftrightarrow> (\<forall>env \<in> E. \<forall>n res'. val env n key res' \<longrightarrow> res' = res)"

definition fed_pinned :: "exec_env set \<Rightarrow> exec_env \<Rightarrow> string \<Rightarrow> port_spec \<Rightarrow> string \<times> bytes \<Rightarrow> bool" where
  "fed_pinned E env n p kd \<longleftrightarrow> bound_to env n p kd \<or>
     (\<exists>src sp res r. wired_to env n p src sp \<and> (val env src (fst kd) res \<and> pinned_val E (fst kd) res) \<and>
        dict_get res sp = Some r \<and> snd kd = r_data r)"

lemma same_data:
  assumes c: "compatible fc E" and e: "e1 \<in> E" "e2 \<in> E"
    and f1: "fed_pinned E e1 n1 p1 kd1" and f2: "fed_with e2 n2 p2 kd2" and k: "fst kd1 = fst kd2"
  shows "kd1 = kd2"
proof -
  have bound: "\<exists>d. kd = (e_hash ev d, d) \<and> d \<in> leaf_bytes ev" if "bound_to ev n p kd" for ev n p kd
    using leaf_bytesI [OF that] that by (auto simp: bound_to_def content_hash_def)
  have mixed: False if "bound_to ev n p kd" "val ev' n' (fst kd) res" "ev \<in> E" "ev' \<in> E" for ev ev' n n' p kd res
  proof -
    obtain d where d: "kd = (e_hash ev d, d)" "d \<in> leaf_bytes ev" using bound [OF \<open>bound_to ev n p kd\<close>] by blast
    obtain b where b: "b \<in> recipe_bytes ev'" "fst kd = e_hash ev' b" using val_key_hash [OF \<open>val ev' n' (fst kd) res\<close>] by blast
    have "d = b" using compatible_hash [OF c \<open>ev \<in> E\<close> \<open>ev' \<in> E\<close>, of d b] d b by simp
    then show False using compatible_leaf_recipe [OF c \<open>ev \<in> E\<close> \<open>ev' \<in> E\<close>] d b by blast
  qed
  from f1 show ?thesis unfolding fed_pinned_def
  proof (elim disjE exE conjE)
    assume b1: "bound_to e1 n1 p1 kd1"
    have "bound_to e2 n2 p2 kd2" using f2 mixed [OF b1 _ e] k by (auto simp: fed_with_def)
    then show ?thesis
      using bound [OF b1] bound [of e2 n2 p2 kd2] k compatible_hash [OF c e] by auto
  next
    fix src sp res r
    assume v: "val e1 src (fst kd1) res" "pinned_val E (fst kd1) res" "dict_get res sp = Some r" "snd kd1 = r_data r"
    assume wire: "wired_to e1 n1 p1 src sp"
    have "\<not> bound_to e2 n2 p2 kd2" using mixed [of e2 n2 p2 kd2 e1 src res] v(1) e k by auto
    then obtain src' sp' res' r' where w: "val e2 src' (fst kd2) res'" "dict_get res' sp' = Some r'" "snd kd2 = r_data r'"
        "wired_to e2 n2 p2 src' sp'"
      using f2 by (auto simp: fed_with_def)
    have "res' = res" using v(2) w(1) e(2) k by (auto simp: pinned_val_def)
    moreover have "sp = sp'" using same_port [OF c e wire w(4) v(1) _ v(3) w(2)] w(1) k by simp
    ultimately have "r = r'" using v(3) w(2) by simp
    then show ?thesis using v w k by (simp add: prod_eq_iff)
  qed
qed

lemma same_inputs:
  assumes c: "compatible fc E" and e: "e1 \<in> E" "e2 \<in> E"
    and l1: "node_lookup e1 n1 = Inr (nd1, md1)"
    and f1: "list_all2 (fed_pinned E e1 n1) (m_inputs (mod_manifest md1)) kds1"
    and h2: "hashes e2 n2 nd2 md2 kds2"
    and k: "task_key e1 nd1 (mod_manifest md1) (map fst kds1) = task_key e2 nd2 (mod_manifest md2) (map fst kds2)"
  shows "md2 = md1 \<and> kds2 = kds1 \<and> e_draft e2 = e_draft e1 \<and>
    jsort (JObj (nd_params nd2)) = jsort (JObj (nd_params nd1))"
proof -
  have "list_all2 (fed_with e1 n1) (m_inputs (mod_manifest md1)) kds1"
    using f1 by (rule list_all2_mono) (auto simp: fed_pinned_def fed_with_def)
  then have h1: "hashes e1 n1 nd1 md1 kds1" using l1 by (simp add: hashes_def)
  note eqs = same_recipe [OF c e h1 h2 k]
  have len: "length kds1 = length kds2" using eqs(2) by (metis length_map)
  have "kds1 ! i = kds2 ! i" if i: "i < length kds1" for i
  proof (rule same_data [OF c e])
    let ?p = "m_inputs (mod_manifest md1) ! i"
    show "fed_pinned E e1 n1 ?p (kds1 ! i)" using list_all2_nthD2 [OF f1 i] .
    show "fed_with e2 n2 ?p (kds2 ! i)"
      using list_all2_nthD2 [of "fed_with e2 n2" "m_inputs (mod_manifest md2)" kds2 i] h2 eqs(1) i len
      by (simp add: hashes_def)
    show "fst (kds1 ! i) = fst (kds2 ! i)" using eqs(2) i len by (metis nth_map)
  qed
  then have "kds1 = kds2" using len by (intro nth_equalityI) simp_all
  with eqs show ?thesis by simp
qed

lemma fed_pinned_fold:
  "(\<lambda>p kd. bound_to env n p kd \<or> (\<exists>src sp res r. wired_to env n p src sp \<and>
      (val env src (fst kd) res \<and> pinned_val E (fst kd) res) \<and>
      dict_get res sp = Some r \<and> snd kd = r_data r)) = fed_pinned E env n"
  by (intro ext) (simp add: fed_pinned_def)

theorem val_pinned:
  assumes "compatible fc E" and "env \<in> E" and "val env n key res"
  shows "pinned_val E key res"
  using assms(3)
proof induction
  case (val_node n nd md kds res)
  have f: "list_all2 (fed_pinned E env n) (m_inputs (mod_manifest md)) kds"
    using val_node.IH unfolding fed_pinned_fold .
  show ?case unfolding pinned_val_def
  proof (intro ballI allI impI)
    fix e2 n2 res2
    assume e2: "e2 \<in> E" and v: "val e2 n2 (task_key env nd (mod_manifest md) (map fst kds)) res2"
    then obtain nd2 md2 kds2 where h: "hashes e2 n2 nd2 md2 kds2"
        "task_key env nd (mod_manifest md) (map fst kds) = task_key e2 nd2 (mod_manifest md2) (map fst kds2)"
        "mod_run md2 (inputs_of (m_inputs (mod_manifest md2)) kds2) (nd_params nd2) (e_draft e2) = Inr res2"
      unfolding val_iff by blast
    note s = same_inputs [OF assms(1,2) e2 val_node.hyps(1) f h(1,2)]
    have "uses E nd md" using val_node.hyps(1) assms(2) by (auto simp: uses_def)
    then have "mod_run md i (nd_params nd2) d = Inr r \<Longrightarrow> mod_run md i (nd_params nd) d = Inr r" for i d r
      using assms(1) s unfolding compatible_def well_behaved_def by blast
    from this [of _ _ res2] show "res2 = res" using h(3) s val_node.hyps(2) by simp
  qed
qed

section \<open>Two ports of one node share a key\<close>

text \<open>
  Two nodes are fed in parallel when each of their inputs comes from one node upstream, from
  whichever of its ports. The input key is that node's key in both cases, so the two nodes have one
  key and the second is served the result of the first, whatever bytes its own ports carry.
\<close>

definition fed_in_parallel :: "exec_env \<Rightarrow> string \<Rightarrow> string \<Rightarrow> port_spec list \<Rightarrow> bool" where
  "fed_in_parallel env b c ps \<longleftrightarrow> (\<forall>p \<in> set ps. \<exists>src q q'. wired_to env b p src q \<and> wired_to env c p src q')"

lemma gather_parallel:
  "fed_in_parallel env b c ps \<Longrightarrow> gather env nk nr b ps ks i1 = Inr (keys, ins) \<Longrightarrow>
     gather env nk nr c ps ks i2 = Inr (keys', ins') \<Longrightarrow> keys' = keys"
proof (induction ps arbitrary: ks i1 i2)
  case (Cons p ps)
  obtain src q q' where w: "wired_to env b p src q" "wired_to env c p src q'"
    using Cons.prems(1) by (auto simp: fed_in_parallel_def)
  have rest: "fed_in_parallel env b c ps" using Cons.prems(1) by (simp add: fed_in_parallel_def)
  from Cons.prems(2,3) w obtain key j1 j2 where
      "gather env nk nr b ps (ks @ [key]) j1 = Inr (keys, ins)" "gather env nk nr c ps (ks @ [key]) j2 = Inr (keys', ins')"
    by (auto simp: wired_to_def split: option.splits)
  from Cons.IH [OF rest this] show ?case .
qed simp

theorem ports_share_a_key:
  assumes l: "node_lookup env b = Inr (nd, md)" "node_lookup env c = Inr (nd', md)" "nd_params nd' = nd_params nd"
    and p: "fed_in_parallel env b c (m_inputs (mod_manifest md))"
    and g: "gather env (x_keys st) (x_results st) b (m_inputs (mod_manifest md)) [] [] = Inr (keys, ins)"
      "gather env (x_keys st) (x_results st) c (m_inputs (mod_manifest md)) [] [] = Inr (keys', ins')"
    and hit: "cache_get (x_cache st) (task_key env nd (mod_manifest md) keys) = Some res"
  shows "begin_task env c st = set_task c (Obtained (task_key env nd (mod_manifest md) keys) res True) st"
proof -
  have "task_key env nd' (mod_manifest md) keys' = task_key env nd (mod_manifest md) keys"
    using gather_parallel [OF p g] l(3) by (simp add: task_key_def)
  then show ?thesis using l(2) g(2) hit by (simp add: begin_task_def Let_def)
qed

end
