(* ===== verification/ExecData.thy ===== *)
theory ExecData
  imports Values
begin

text \<open>
  What the tasks compute: every recorded result is the value of its node (\<open>val\<close>), whether it
  was run or came from the cache; every cache entry is the value of some node of some
  execution of \<open>E\<close>; the calls made for a node are one \<open>NodeCall\<close> and then its requested outputs
  in order.

  What the state says of one node is its \<open>view\<close>; a task's step changes no other node's view.
\<close>

definition port_fed ::
  "exec_env \<Rightarrow> (string, string) dict \<Rightarrow> (string, results) dict \<Rightarrow> string \<Rightarrow> port_spec \<Rightarrow> string \<times> bytes \<Rightarrow> bool" where
  "port_fed env nkeys nresults n p kd \<longleftrightarrow> bound_to env n p kd \<or>
     (\<exists>src sp res r. wired_to env n p src sp \<and> dict_get nkeys src = Some (fst kd) \<and>
        dict_get nresults src = Some res \<and> dict_get res sp = Some r \<and> snd kd = r_data r)"

definition add_input :: "(string, bytes) dict \<Rightarrow> port_spec \<times> string \<times> bytes \<Rightarrow> (string, bytes) dict" where
  "add_input d x = (case x of (p, kd) \<Rightarrow> dict_set (port_name p) (snd kd) d)"

lemma add_input_Pair [simp]: "add_input d (p, kd) = dict_set (port_name p) (snd kd) d"
  by (simp add: add_input_def)

lemma inputs_of_foldl: "inputs_of ps kds = foldl add_input [] (zip ps kds)"
  unfolding inputs_of_def dict_of_def by (intro foldl_cong) (auto simp: add_input_def)

lemma gather_fed:
  "list_all2 (port_fed env nkeys nresults n) ps kds \<Longrightarrow>
     gather env nkeys nresults n ps keys inputs =
       Inr (keys @ map fst kds, foldl add_input inputs (zip ps kds))"
proof (induction ps kds arbitrary: keys inputs rule: list_all2_induct)
  case (Cons p ps kd kds)
  then show ?case
    by (cases kd) (auto simp: port_fed_def bound_to_def wired_to_def)
qed simp

lemma gather_InrD:
  "gather env nkeys nresults n ps keys inputs = Inr (keys', inputs') \<Longrightarrow>
     \<exists>kds. list_all2 (port_fed env nkeys nresults n) ps kds \<and>
       keys' = keys @ map fst kds \<and> inputs' = foldl add_input inputs (zip ps kds)"
proof (induction ps arbitrary: keys inputs)
  case (Cons p ps)
  show ?case
  proof (cases "dict_get (binding_into (e_graph env)) (n, port_name p)")
    case (Some pid)
    then obtain pl where pl: "get_payload (e_ses env) pid = Some pl"
      using Cons.prems by (auto split: option.splits)
    let ?kd = "(content_hash (e_hash env) (pl_data pl), pl_data pl)"
    obtain kds where "list_all2 (port_fed env nkeys nresults n) ps kds"
        "keys' = (keys @ [fst ?kd]) @ map fst kds"
        "inputs' = foldl add_input (dict_set (port_name p) (snd ?kd) inputs) (zip ps kds)"
      using Cons.prems Cons.IH Some pl by fastforce
    moreover have "port_fed env nkeys nresults n p ?kd"
      using Some pl by (auto simp: port_fed_def bound_to_def)
    ultimately show ?thesis
      by (intro exI [of _ "?kd # kds"]) simp
  next
    case None
    then obtain src sp key res r where w: "dict_get (edge_into (e_graph env)) (n, port_name p) = Some (src, sp)"
        "dict_get nkeys src = Some key" "dict_get nresults src = Some res" "dict_get res sp = Some r"
      using Cons.prems by (auto split: option.splits)
    let ?kd = "(key, r_data r)"
    obtain kds where "list_all2 (port_fed env nkeys nresults n) ps kds"
        "keys' = (keys @ [fst ?kd]) @ map fst kds"
        "inputs' = foldl add_input (dict_set (port_name p) (snd ?kd) inputs) (zip ps kds)"
      using Cons.prems Cons.IH None w by fastforce
    moreover have "port_fed env nkeys nresults n p ?kd"
      using None w by (auto simp: port_fed_def wired_to_def)
    ultimately show ?thesis
      by (intro exI [of _ "?kd # kds"]) simp
  qed
qed simp

section \<open>The view of a node\<close>

record node_view =
  v_key :: "string option"
  v_res :: "results option"
  v_executed :: bool
  v_cached :: bool
  v_calls :: "exec_call list"
  v_outs :: "exec_output list"
  v_emitted :: "string \<Rightarrow> exec_output option"

definition node_calls :: "string \<Rightarrow> exec_call list \<Rightarrow> exec_call list" where
  "node_calls n cs = filter (\<lambda>c. case c of NodeCall m hit \<Rightarrow> m = n | OutputCall eo \<Rightarrow> False) cs"

fun out_calls :: "string \<Rightarrow> exec_call list \<Rightarrow> exec_output list" where
  "out_calls n [] = []"
| "out_calls n (OutputCall eo # cs) = (if eo_node eo = n then eo # out_calls n cs else out_calls n cs)"
| "out_calls n (NodeCall m hit # cs) = out_calls n cs"

lemma out_calls_append [simp]: "out_calls n (cs @ ds) = out_calls n cs @ out_calls n ds"
  by (induction n cs rule: out_calls.induct) auto

lemma node_calls_append [simp]: "node_calls n (cs @ ds) = node_calls n cs @ node_calls n ds"
  by (simp add: node_calls_def)

definition view :: "exec_state \<Rightarrow> string \<Rightarrow> node_view" where
  "view st n = \<lparr>v_key = dict_get (x_keys st) n, v_res = dict_get (x_results st) n,
     v_executed = (n \<in> set (x_executed st)), v_cached = (n \<in> set (x_cached st)),
     v_calls = node_calls n (x_calls st), v_outs = out_calls n (x_calls st),
     v_emitted = (\<lambda>p. dict_get (x_emitted st) (n, p))\<rparr>"

definition empty_view :: node_view where
  "empty_view = \<lparr>v_key = None, v_res = None, v_executed = False, v_cached = False,
     v_calls = [], v_outs = [], v_emitted = (\<lambda>p. None)\<rparr>"

definition output_of :: "string \<Rightarrow> results \<Rightarrow> string \<Rightarrow> exec_output option" where
  "output_of n res p = map_option
     (\<lambda>r. \<lparr>eo_node = n, eo_port = p, eo_type = r_type r, eo_data = r_data r\<rparr>) (dict_get res p)"

definition out_ref :: "exec_output \<Rightarrow> string \<times> string" where
  "out_ref eo = (eo_node eo, eo_port eo)"

text \<open>A node that is recorded has its value, and was either run or served from the cache.\<close>

definition recorded_view :: "exec_env \<Rightarrow> string \<Rightarrow> results \<Rightarrow> node_view \<Rightarrow> bool" where
  "recorded_view env n res v \<longleftrightarrow> v_res v = Some res \<and> (\<exists>key. v_key v = Some key \<and> val env n key res) \<and>
     v_executed v \<noteq> v_cached v \<and> (\<forall>p eo. v_emitted v p = Some eo \<longrightarrow> output_of n res p = Some eo)"

definition emitting_view :: "exec_env \<Rightarrow> string \<Rightarrow> results \<Rightarrow> ref_list \<Rightarrow> node_view \<Rightarrow> bool" where
  "emitting_view env n res outs v \<longleftrightarrow> recorded_view env n res v \<and> v_calls v = [NodeCall n (v_cached v)] \<and>
     map out_ref (v_outs v) @ outs = node_outputs (e_graph env) n \<and>
     (\<forall>eo \<in> set (v_outs v). v_emitted v (eo_port eo) = Some eo)"

text \<open>A task fails only as the module does, or by the cancel flag.\<close>

definition fails_with :: "exec_env \<Rightarrow> string \<Rightarrow> exec_error \<Rightarrow> bool" where
  "fails_with env n e \<longleftrightarrow> (\<exists>nd md kds. hashes env n nd md kds \<and>
     (case mod_run md (inputs_of (m_inputs (mod_manifest md)) kds) (nd_params nd) (e_draft env) of
        Inl x \<Rightarrow> e = RunRaised x | Inr res \<Rightarrow> contract_error (mod_manifest md) res = Some e))"

definition task_view :: "exec_env \<Rightarrow> bool \<Rightarrow> string \<Rightarrow> task \<Rightarrow> node_view \<Rightarrow> bool" where
  "task_view env cancelled n t v = (case t of
     Queued \<Rightarrow> v = empty_view
   | Started \<Rightarrow> v = empty_view
   | Missed key inputs \<Rightarrow> v = empty_view \<and>
       (\<exists>nd md kds. hashes env n nd md kds \<and> key = task_key env nd (mod_manifest md) (map fst kds) \<and>
          inputs = inputs_of (m_inputs (mod_manifest md)) kds)
   | Produced key res \<Rightarrow> v = empty_view \<and> val env n key res
   | Storing key res \<Rightarrow> v = empty_view \<and> val env n key res
   | Obtained key res hit \<Rightarrow> v = empty_view \<and> val env n key res
   | Recorded res hit \<Rightarrow> recorded_view env n res v \<and> v_cached v = hit \<and> v_calls v = [] \<and>
       v_outs v = [] \<and> v_emitted v = (\<lambda>p. None)
   | Emitting res outs \<Rightarrow> emitting_view env n res outs v
   | Reporting res eo outs \<Rightarrow> emitting_view env n res (out_ref eo # outs) v \<and>
       v_emitted v (eo_port eo) = Some eo \<and> eo_node eo = n
   | Finished None \<Rightarrow> (\<exists>res. emitting_view env n res [] v)
   | Finished (Some e) \<Rightarrow> v = empty_view \<and> (fails_with env n e \<or> e = ExecutionCancelled \<and> cancelled))"

definition cache_ok :: "exec_env set \<Rightarrow> result_cache \<Rightarrow> bool" where
  "cache_ok E c \<longleftrightarrow> (\<forall>key res. cache_get c key = Some res \<longrightarrow> (\<exists>env \<in> E. \<exists>n. val env n key res))"

definition node_ok :: "exec_env \<Rightarrow> bool \<Rightarrow> string \<Rightarrow> task option \<Rightarrow> node_view \<Rightarrow> bool" where
  "node_ok env cancelled n t v = (case t of
     None \<Rightarrow> v = empty_view | Some t \<Rightarrow> task_view env cancelled n t v)"

lemma node_ok_simps [simp]:
  "node_ok env b n None v \<longleftrightarrow> v = empty_view" "node_ok env b n (Some t) v \<longleftrightarrow> task_view env b n t v"
  by (simp_all add: node_ok_def)

definition data_inv :: "exec_env set \<Rightarrow> exec_env \<Rightarrow> exec_state \<Rightarrow> bool" where
  "data_inv E env st \<longleftrightarrow> cache_ok E (x_cache st) \<and>
     (\<forall>n. node_ok env (x_cancel st) n (dict_get (x_tasks st) n) (view st n))"

lemma view_same:
  "x_keys st' = x_keys st \<Longrightarrow> x_results st' = x_results st \<Longrightarrow> x_executed st' = x_executed st \<Longrightarrow>
     x_cached st' = x_cached st \<Longrightarrow> x_calls st' = x_calls st \<Longrightarrow> x_emitted st' = x_emitted st \<Longrightarrow>
     view st' n = view st n"
  by (simp add: view_def)

section \<open>What a valid graph gives a task\<close>

lemma node_outputs_filter:
  "node_outputs g n = map (\<lambda>r. (o_node r, o_port r)) (filter (\<lambda>r. o_node r = n) (g_outputs g))"
proof -
  have "(case dict_get (foldl add_output_ref d rs) n of None \<Rightarrow> [] | Some xs \<Rightarrow> xs) =
      (case dict_get d n of None \<Rightarrow> [] | Some xs \<Rightarrow> xs) @
      map (\<lambda>r. (o_node r, o_port r)) (filter (\<lambda>r. o_node r = n) rs)" for d rs
    by (induction rs arbitrary: d) (auto simp: add_output_ref_def split: option.splits)
  then show ?thesis by (simp add: node_outputs_def outputs_by_node_def)
qed

definition env_ok :: "exec_env \<Rightarrow> bool" where
  "env_ok env \<longleftrightarrow> valid_graph (e_reg env) (e_ses env) (e_graph env)"

lemma env_ok_lookup:
  assumes "env_ok env" and "n \<in> node_ids (e_graph env)"
  obtains nd md where "node_lookup env n = Inr (nd, md)"
proof -
  obtain nd where nd: "nd \<in> set (g_nodes (e_graph env))" "nd_id nd = n" using assms(2) by (auto simp: node_ids_def)
  then obtain md where "registry_get (e_reg env) (nd_module nd) = Some md"
    using assms(1) by (auto simp: env_ok_def valid_graph_def valid_nodes_def)
  moreover have "dict_get (nodes_by_id (e_graph env)) n = Some nd"
    using nd assms(1) by (simp add: nodes_by_id_get env_ok_def valid_graph_def valid_nodes_def)
  ultimately show ?thesis using that by (simp add: node_lookup_def)
qed

lemma lookup_output:
  assumes "env_ok env" and "node_has_output (e_reg env) (e_graph env) n p ty"
    and "node_lookup env n = Inr (nd, md)"
  obtains ps where "output_port (mod_manifest md) p = Some ps"
proof -
  have d: "distinct (map nd_id (g_nodes (e_graph env)))"
    using assms(1) by (simp add: env_ok_def valid_graph_def valid_nodes_def)
  obtain nd' md' ps where n: "nd' \<in> set (g_nodes (e_graph env))" "nd_id nd' = n"
      "registry_get (e_reg env) (nd_module nd') = Some md'" "output_port (mod_manifest md') p = Some ps"
    using assms(2) by (auto simp: node_has_output_def)
  then have "node_lookup env n = Inr (nd', md')"
    using nodes_by_id_get [OF d, of n nd'] by (simp add: node_lookup_def)
  then show ?thesis using that n(4) assms(3) by simp
qed

lemma val_has_output:
  assumes "env_ok env" and "node_has_output (e_reg env) (e_graph env) n p ty" and "val env n key res"
  obtains r where "dict_get res p = Some r"
proof -
  obtain nd md kds where h: "hashes env n nd md kds" "conforms (mod_manifest md) res"
    using val_conforms [OF assms(3)] by blast
  then obtain ps where "output_port (mod_manifest md) p = Some ps"
    using lookup_output [OF assms(1,2)] by (auto simp: hashes_def)
  from conforms_output_ex [OF h(2) this] that show ?thesis by blast
qed

lemma node_outputs_has_output:
  assumes "env_ok env" and "(m, p) \<in> set (node_outputs (e_graph env) n)"
  shows "m = n \<and> (\<exists>ty. node_has_output (e_reg env) (e_graph env) n p ty)"
  using assms by (auto simp: node_outputs_filter env_ok_def valid_graph_def valid_outputs_def)

lemma node_outputs_distinct:
  assumes "env_ok env" shows "distinct (node_outputs (e_graph env) n)"
proof -
  have "distinct (map (\<lambda>r. (o_node r, o_port r)) (g_outputs (e_graph env)))"
    using assms by (simp add: env_ok_def valid_graph_def valid_outputs_def)
  then show ?thesis unfolding node_outputs_filter by (rule distinct_map_filter)
qed

lemma list_all2_exists: "(\<And>x. x \<in> set xs \<Longrightarrow> \<exists>y. P x y) \<Longrightarrow> \<exists>ys. list_all2 P xs ys"
proof (induction xs)
  case (Cons x xs)
  obtain y where "P x y" using Cons.prems [of x] by auto
  moreover obtain ys where "list_all2 P xs ys" using Cons.IH Cons.prems by auto
  ultimately show ?case by (intro exI [of _ "y # ys"]) simp
qed (intro exI [of _ "[]"], simp)

definition vals_ok :: "exec_env \<Rightarrow> (string, string) dict \<Rightarrow> (string, results) dict \<Rightarrow> string set \<Rightarrow> bool" where
  "vals_ok env nkeys nresults V \<longleftrightarrow> (\<forall>m \<in> V. \<exists>key res. dict_get nkeys m = Some key \<and>
     dict_get nresults m = Some res \<and> val env m key res)"

lemma port_fed_exists:
  assumes ok: "env_ok env" and n: "node_lookup env n = Inr (nd, md)" and p: "p \<in> set (m_inputs (mod_manifest md))"
    and v: "vals_ok env nkeys nresults (preds (e_graph env) n)"
  shows "\<exists>kd. port_fed env nkeys nresults n p kd"
proof -
  let ?g = "e_graph env" and ?k = "(n, port_name p)"
  have w: "valid_wiring (e_reg env) (e_ses env) ?g" and d: "distinct (map nd_id (g_nodes ?g))"
    using ok by (simp_all add: env_ok_def valid_graph_def valid_nodes_def)
  have "nd \<in> set (g_nodes ?g)" "nd_id nd = n" "registry_get (e_reg env) (nd_module nd) = Some md"
    using n nodes_by_id_get [OF d] by (auto simp: node_lookup_def split: option.splits)
  then have "count_list (feed_keys ?g) ?k = 1" using w p by (auto simp: valid_wiring_def)
  then have fed: "?k \<in> set (feed_keys ?g)" by (metis count_notin zero_neq_one)
  show ?thesis
  proof (cases "dict_get (binding_into ?g) ?k")
    case (Some pid)
    then obtain b where b: "b \<in> set (g_bindings ?g)" "b_payload b = pid"
      unfolding binding_into_def by (auto dest: dict_of_get_in)
    then obtain pl where "get_payload (e_ses env) pid = Some pl" using w by (auto simp: valid_wiring_def)
    then show ?thesis using Some by (auto simp: port_fed_def bound_to_def)
  next
    case None
    then have "?k \<notin> (\<lambda>b. (b_node b, b_port b)) ` set (g_bindings ?g)"
      using dict_of_dom [of "\<lambda>b. (b_node b, b_port b)" b_payload "g_bindings ?g" ?k]
      by (simp add: binding_into_def)
    then have "?k \<in> (\<lambda>e. (to_node e, to_port e)) ` set (g_edges ?g)"
      using fed by (auto simp: feed_keys_def)
    then obtain e where e: "dict_get (edge_into ?g) ?k = Some (from_node e, from_port e)"
        "e \<in> set (g_edges ?g)" "to_node e = n"
      using dict_of_dom [of "\<lambda>e. (to_node e, to_port e)" "\<lambda>e. (from_node e, from_port e)" "g_edges ?g" ?k]
        dict_of_get_in [of "\<lambda>e. (to_node e, to_port e)" "\<lambda>e. (from_node e, from_port e)" "g_edges ?g" ?k]
      unfolding edge_into_def by fastforce
    then have "from_node e \<in> preds ?g n" by (force simp: preds_def dep_edges_def)
    then obtain key res where kr: "dict_get nkeys (from_node e) = Some key"
        "dict_get nresults (from_node e) = Some res" "val env (from_node e) key res"
      using v by (auto simp: vals_ok_def)
    moreover obtain ty where "node_has_output (e_reg env) ?g (from_node e) (from_port e) ty"
      using w e(2) by (auto simp: valid_wiring_def)
    ultimately obtain r where "dict_get res (from_port e) = Some r"
      using val_has_output [OF ok] by blast
    then show ?thesis using None e kr
      by (intro exI [of _ "(key, r_data r)"]) (auto simp: port_fed_def wired_to_def)
  qed
qed

lemma wired_pred:
  assumes "wired_to env n p src sp" shows "src \<in> preds (e_graph env) n"
proof -
  from assms obtain e where "e \<in> set (g_edges (e_graph env))" "to_node e = n" "from_node e = src"
    by (auto simp: wired_to_def edge_into_def dest: dict_of_get_in)
  then show ?thesis by (force simp: preds_def dep_edges_def)
qed

lemma port_fed_with:
  assumes "port_fed env nkeys nresults n p kd" and v: "vals_ok env nkeys nresults (preds (e_graph env) n)"
  shows "fed_with env n p kd"
  using assms(1) unfolding port_fed_def fed_with_def
proof (elim disjE exE conjE)
  fix src sp res r
  assume a: "wired_to env n p src sp" "dict_get nkeys src = Some (fst kd)" "dict_get nresults src = Some res"
    "dict_get res sp = Some r" "snd kd = r_data r"
  then have "val env src (fst kd) res" using v wired_pred [OF a(1)] by (auto simp: vals_ok_def)
  with a show "bound_to env n p kd \<or> (\<exists>src sp res r. wired_to env n p src sp \<and> val env src (fst kd) res \<and>
      dict_get res sp = Some r \<and> snd kd = r_data r)" by blast
qed simp

lemma gather_ok:
  assumes ok: "env_ok env" and n: "node_lookup env n = Inr (nd, md)"
    and v: "vals_ok env nkeys nresults (preds (e_graph env) n)"
  obtains kds where "hashes env n nd md kds"
    and "gather env nkeys nresults n (m_inputs (mod_manifest md)) [] [] =
      Inr (map fst kds, inputs_of (m_inputs (mod_manifest md)) kds)"
proof -
  obtain kds where kds: "list_all2 (port_fed env nkeys nresults n) (m_inputs (mod_manifest md)) kds"
    using list_all2_exists port_fed_exists [OF ok n _ v] by metis
  then have "hashes env n nd md kds"
    unfolding hashes_def using n port_fed_with [OF _ v] by (auto intro: list_all2_mono)
  with gather_fed [OF kds, of "[]" "[]"] that show ?thesis by (simp add: inputs_of_foldl)
qed

section \<open>Hits\<close>

lemma hashes_pinned:
  assumes "compatible fc E" and "env \<in> E" and "hashes env n nd md kds"
  shows "list_all2 (fed_pinned E env n) (m_inputs (mod_manifest md)) kds"
proof -
  have "fed_pinned E env n p kd" if "fed_with env n p kd" for p kd
    using that val_pinned [OF assms(1,2)] unfolding fed_with_def fed_pinned_def by blast
  then show ?thesis using assms(3) unfolding hashes_def by (auto intro: list_all2_mono)
qed

lemma hit_val:
  assumes c: "compatible fc E" and e: "env \<in> E" and h: "hashes env n nd md kds" and ok: "cache_ok E ch"
    and hit: "cache_get ch (task_key env nd (mod_manifest md) (map fst kds)) = Some res"
  shows "val env n (task_key env nd (mod_manifest md) (map fst kds)) res"
proof -
  let ?k = "task_key env nd (mod_manifest md) (map fst kds)"
  obtain e' n' where e': "e' \<in> E" "val e' n' ?k res" using ok hit unfolding cache_ok_def by blast
  then obtain nd' md' kds' where h': "hashes e' n' nd' md' kds'"
      "?k = task_key e' nd' (mod_manifest md') (map fst kds')"
      "mod_run md' (inputs_of (m_inputs (mod_manifest md')) kds') (nd_params nd') (e_draft e') = Inr res"
      "contract_error (mod_manifest md') res = None"
    unfolding val_iff by blast
  have l: "node_lookup env n = Inr (nd, md)" using h by (simp add: hashes_def)
  note s = same_inputs [OF c e e'(1) l hashes_pinned [OF c e h] h'(1,2)]
  have "uses E nd md" using l e by (auto simp: uses_def)
  then have "mod_run md i (nd_params nd') d = Inr r \<Longrightarrow> mod_run md i (nd_params nd) d = Inr r" for i d r
    using c s unfolding compatible_def well_behaved_def by blast
  with h'(3) s have "mod_run md (inputs_of (m_inputs (mod_manifest md)) kds) (nd_params nd) (e_draft env) = Inr res"
    by simp
  then show ?thesis unfolding val_iff using h h'(4) s by blast
qed

section \<open>The invariant is kept\<close>

lemma data_inv_vals:
  assumes "data_inv E env st" and "V \<subseteq> done_ok st"
  shows "vals_ok env (x_keys st) (x_results st) V"
  unfolding vals_ok_def
proof
  fix m assume "m \<in> V"
  then have "dict_get (x_tasks st) m = Some (Finished None)" using assms(2) by (auto simp: done_ok_def)
  then have "task_view env (x_cancel st) m (Finished None) (view st m)"
    using assms(1) unfolding data_inv_def by (metis node_ok_simps(2))
  then show "\<exists>key res. dict_get (x_keys st) m = Some key \<and> dict_get (x_results st) m = Some res \<and> val env m key res"
    by (auto simp: task_view_def emitting_view_def recorded_view_def view_def)
qed

lemma task_view_task:
  "data_inv E env st \<Longrightarrow> dict_get (x_tasks st) n = Some t \<Longrightarrow> task_view env (x_cancel st) n t (view st n)"
  unfolding data_inv_def by (metis node_ok_simps(2))

lemma begin_task_inv:
  assumes c: "compatible fc E" "env \<in> E" and ok: "env_ok env" and n: "n \<in> node_ids (e_graph env)"
    and inv: "data_inv E env st" and t: "dict_get (x_tasks st) n = Some Started"
    and p: "preds (e_graph env) n \<subseteq> done_ok st"
  shows "\<exists>t'. begin_task env n st = set_task n t' st \<and> task_view env (x_cancel st) n t' (view st n)"
proof -
  have e: "view st n = empty_view" using task_view_task [OF inv t] by (simp add: task_view_def)
  obtain nd md where l: "node_lookup env n = Inr (nd, md)" using env_ok_lookup [OF ok n] .
  obtain kds where h: "hashes env n nd md kds"
    and g: "gather env (x_keys st) (x_results st) n (m_inputs (mod_manifest md)) [] [] =
      Inr (map fst kds, inputs_of (m_inputs (mod_manifest md)) kds)"
    using gather_ok [OF ok l data_inv_vals [OF inv p]] .
  let ?k = "task_key env nd (mod_manifest md) (map fst kds)"
  show ?thesis
  proof (cases "cache_get (x_cache st) ?k")
    case None
    then show ?thesis using h e
      by (intro exI [of _ "Missed ?k (inputs_of (m_inputs (mod_manifest md)) kds)"])
        (auto simp: begin_task_def l g Let_def task_view_def)
  next
    case (Some res)
    have "cache_ok E (x_cache st)" using inv by (simp add: data_inv_def)
    from hit_val [OF c h this Some] show ?thesis using e Some
      by (intro exI [of _ "Obtained ?k res True"]) (simp add: begin_task_def l g Let_def task_view_def)
  qed
qed

lemma run_task_inv:
  assumes v: "task_view env b n (Missed key inputs) (view st n)"
  shows "\<exists>t'. run_task env n key inputs st = set_task n t' st \<and> task_view env b n t' (view st n)"
proof -
  obtain nd md kds where h: "hashes env n nd md kds" and k: "key = task_key env nd (mod_manifest md) (map fst kds)"
    and i: "inputs = inputs_of (m_inputs (mod_manifest md)) kds" and e: "view st n = empty_view"
    using v by (auto simp: task_view_def)
  have l: "node_lookup env n = Inr (nd, md)" using h by (simp add: hashes_def)
  show ?thesis
  proof (cases "mod_run md inputs (nd_params nd) (e_draft env)")
    case (Inl x)
    have "fails_with env n (RunRaised x)" 
      unfolding fails_with_def using Inl i by (intro exI [of _ nd] exI [of _ md] exI [of _ kds]) (simp add: h)
    then show ?thesis using e Inl
      by (intro exI [of _ "Finished (Some (RunRaised x))"]) (simp add: run_task_def l fail_task_def task_view_def)
  next
    case (Inr res)
    show ?thesis
    proof (cases "contract_error (mod_manifest md) res")
      case None
      have "val env n key res" unfolding val_iff using h k i Inr None by blast
      then show ?thesis using e Inr None
        by (intro exI [of _ "Produced key res"]) (simp add: run_task_def l task_view_def)
    next
      case (Some x)
      have "fails_with env n x"
        unfolding fails_with_def using Inr i Some by (intro exI [of _ nd] exI [of _ md] exI [of _ kds]) (simp add: h)
      then show ?thesis using e Inr Some
        by (intro exI [of _ "Finished (Some x)"]) (simp add: run_task_def l fail_task_def task_view_def)
    qed
  qed
qed

text \<open>Recording, reporting and emitting only change the node's own view.\<close>

lemma view_set_task [simp]: "view (set_task n t st) m = view st m"
  by (simp add: view_def set_task_def)

lemma view_other:
  assumes "m \<noteq> n"
  shows "view (record_result n key res hit st) m = view st m"
    and "view (report_node env n res hit st) m = view st m"
    and "eo_node eo = n \<Longrightarrow> view (report_output n res eo outs st) m = view st m"
  using assms by (auto simp: view_def record_result_def report_node_def report_output_def set_task_def
      node_calls_def)

lemma record_result_inv:
  assumes "task_view env b n (Obtained key res hit) (view st n)"
  shows "task_view env b n (Recorded res hit) (view (record_result n key res hit st) n)"
  using assms by (auto simp: task_view_def recorded_view_def view_def empty_view_def record_result_def
      set_task_def)

lemma report_node_inv:
  assumes "task_view env b n (Recorded res hit) (view st n)"
  shows "task_view env b n (Emitting res (node_outputs (e_graph env) n)) (view (report_node env n res hit st) n)"
  using assms by (auto simp: task_view_def emitting_view_def recorded_view_def view_def report_node_def
      set_task_def node_calls_def)

lemma report_output_inv:
  assumes "task_view env b n (Reporting res eo outs) (view st n)"
  shows "task_view env b n (Emitting res outs) (view (report_output n res eo outs st) n)"
  using assms by (auto simp: task_view_def emitting_view_def recorded_view_def view_def report_output_def
      set_task_def node_calls_def)

lemma emit_output_inv:
  assumes ok: "env_ok env" and v: "task_view env b n (Emitting res outs) (view st n)"
  shows "\<exists>t'. x_tasks (emit_output n res outs st) = dict_set n t' (x_tasks st) \<and>
    task_view env b n t' (view (emit_output n res outs st) n) \<and>
    (\<forall>m. m \<noteq> n \<longrightarrow> view (emit_output n res outs st) m = view st m)"
proof (cases outs)
  case Nil
  then show ?thesis using v
    by (intro exI [of _ "Finished None"]) (auto simp: emit_output_def set_task_def task_view_def view_def)
next
  case (Cons o1 os)
  obtain m p where o1: "o1 = (m, p)" by force
  have ev: "emitting_view env n res ((m, p) # os) (view st n)"
    using v Cons o1 by (simp add: task_view_def)
  then have no: "map out_ref (v_outs (view st n)) @ (m, p) # os = node_outputs (e_graph env) n"
    by (simp add: emitting_view_def)
  then have "(m, p) \<in> set (node_outputs (e_graph env) n)" by (metis in_set_conv_decomp)
  then obtain ty where m: "m = n" and ty: "node_has_output (e_reg env) (e_graph env) n p ty"
    using node_outputs_has_output [OF ok] by blast
  obtain key where "val env n key res" using ev by (auto simp: emitting_view_def recorded_view_def)
  from val_has_output [OF ok ty this] obtain r where r: "dict_get res p = Some r" .
  define eo where "eo = \<lparr>eo_node = n, eo_port = p, eo_type = r_type r, eo_data = r_data r\<rparr>"
  have st: "emit_output n res outs st =
      set_task n (Reporting res eo os) (st\<lparr>x_emitted := dict_set (n, p) eo (x_emitted st)\<rparr>)"
    by (simp add: emit_output_def Cons o1 m r eo_def Let_def)
  have out: "output_of n res p = Some eo" by (simp add: output_of_def r eo_def)
  have new: "p \<notin> eo_port ` set (v_outs (view st n))"
  proof
    assume "p \<in> eo_port ` set (v_outs (view st n))"
    then obtain x where x: "x \<in> set (v_outs (view st n))" "eo_port x = p" by blast
    have "out_ref x \<in> set (node_outputs (e_graph env) n)"
      unfolding no [symmetric] using x(1) by simp
    then have "out_ref x = (n, p)"
      using node_outputs_has_output [OF ok, of "eo_node x" "eo_port x" n] x(2) by (simp add: out_ref_def)
    then have "\<not> distinct (map out_ref (v_outs (view st n)) @ (m, p) # os)"
      using x(1) m by (auto simp: rev_image_eqI)
    then show False using no node_outputs_distinct [OF ok, of n] by simp
  qed
  have vw: "view (emit_output n res outs st) n = (view st n)\<lparr>v_emitted := (v_emitted (view st n))(p := Some eo)\<rparr>"
    unfolding st by (auto simp: view_def set_task_def)
  have "task_view env b n (Reporting res eo os) (view (emit_output n res outs st) n)"
    using ev out new m unfolding vw
    by (auto simp: task_view_def emitting_view_def recorded_view_def out_ref_def eo_def)
  moreover have "view (emit_output n res outs st) k = view st k" if "k \<noteq> n" for k
    using that unfolding st by (auto simp: view_def set_task_def)
  ultimately show ?thesis
    by (intro exI [of _ "Reporting res eo os"]) (simp add: st set_task_def)
qed

lemma data_inv_update:
  assumes inv: "data_inv E env st" and tasks: "x_tasks st' = dict_set n t' (x_tasks st)"
    and v: "task_view env (x_cancel st) n t' (view st' n)" and other: "\<And>m. m \<noteq> n \<Longrightarrow> view st' m = view st m"
    and c: "x_cancel st' = x_cancel st" "cache_ok E (x_cache st')"
  shows "data_inv E env st'"
proof -
  have "node_ok env (x_cancel st') m (dict_get (x_tasks st') m) (view st' m)" for m
  proof (cases "m = n")
    case True
    then show ?thesis using v c(1) by (simp add: tasks)
  next
    case False
    have "node_ok env (x_cancel st) m (dict_get (x_tasks st) m) (view st m)"
      using inv by (simp add: data_inv_def)
    then show ?thesis using False c(1) other [OF False] by (simp add: tasks)
  qed
  then show ?thesis using c(2) by (simp add: data_inv_def)
qed

lemma data_inv_set_task:
  assumes "data_inv E env st" and "task_view env (x_cancel st) n t' (view st n)"
  shows "data_inv E env (set_task n t' st)"
proof (rule data_inv_update [OF assms(1)])
  show "x_tasks (set_task n t' st) = dict_set n t' (x_tasks st)" by (simp add: set_task_def)
  show "x_cancel (set_task n t' st) = x_cancel st" by (simp add: set_task_def)
  show "cache_ok E (x_cache (set_task n t' st))" using assms(1) by (simp add: set_task_def data_inv_def)
qed (simp_all add: assms(2))

lemma cache_ok_put:
  "cache_ok E c \<Longrightarrow> env \<in> E \<Longrightarrow> val env n key res \<Longrightarrow> cache_ok E (cache_put key res c)"
  unfolding cache_ok_def by (auto simp: cache_put_get)

lemma data_inv_task_step:
  assumes c: "compatible fc E" "env \<in> E" and ok: "env_ok env" and sched: "sched_inv (e_graph env) st"
    and inv: "data_inv E env st" and step: "task_step env n st = Some st'"
  shows "data_inv E env st'"
proof -
  obtain t where t: "dict_get (x_tasks st) n = Some t"
    using step by (cases "dict_get (x_tasks st) n") (auto simp: task_step_def)
  then have node: "n \<in> node_ids (e_graph env)" and p: "preds (e_graph env) n \<subseteq> done_ok st"
    using sched_inv_preds [OF sched] by blast+
  note tv = task_view_task [OF inv t]
  have ch: "cache_ok E (x_cache st)" using inv by (simp add: data_inv_def)
  show ?thesis
  proof (cases t)
    case Started
    then have st': "st' = begin_task env n st" using step t by (simp add: task_step_def)
    from begin_task_inv [OF c ok node inv t [unfolded Started] p] obtain t' where
      "begin_task env n st = set_task n t' st" "task_view env (x_cancel st) n t' (view st n)" by blast
    then show ?thesis using data_inv_set_task [OF inv] st' by simp
  next
    case (Missed key inputs)
    then have st': "st' = run_task env n key inputs st" using step t by (simp add: task_step_def)
    from run_task_inv [OF tv [unfolded Missed]] obtain t' where
      "run_task env n key inputs st = set_task n t' st" "task_view env (x_cancel st) n t' (view st n)" by blast
    then show ?thesis using data_inv_set_task [OF inv] st' by simp
  next
    case (Produced key res)
    then have st': "st' = test_cancel n key res st" using step t by (simp add: task_step_def)
    let ?t = "if x_cancel st then Finished (Some ExecutionCancelled) else Storing key res"
    have "st' = set_task n ?t st" by (simp add: st' test_cancel_def fail_task_def)
    moreover have "task_view env (x_cancel st) n ?t (view st n)"
      using tv Produced by (simp add: task_view_def)
    ultimately show ?thesis using data_inv_set_task [OF inv] by metis
  next
    case (Storing key res)
    then have st': "st' = store_result n key res st" using step t by (simp add: task_step_def)
    have v: "val env n key res" "view st n = empty_view" using tv Storing by (simp_all add: task_view_def)
    have "task_view env (x_cancel st) n (Obtained key res False) (view st n)"
      using v by (simp add: task_view_def)
    moreover have "view st' m = view st m" for m
      by (simp add: st' store_result_def set_task_def view_def)
    ultimately show ?thesis using cache_ok_put [OF ch c(2) v(1)]
      by (intro data_inv_update [OF inv, of st' n "Obtained key res False"])
        (simp_all add: st' store_result_def set_task_def)
  next
    case (Obtained key res hit)
    then have st': "st' = record_result n key res hit st" using step t by (simp add: task_step_def)
    show ?thesis
      using record_result_inv [OF tv [unfolded Obtained]] ch view_other(1) [of _ n]
      by (intro data_inv_update [OF inv, of st' n "Recorded res hit"])
        (simp_all add: st', simp_all add: record_result_def set_task_def)
  next
    case (Recorded res hit)
    then have st': "st' = report_node env n res hit st" using step t by (simp add: task_step_def)
    show ?thesis
      using report_node_inv [OF tv [unfolded Recorded]] ch view_other(2) [of _ n]
      by (intro data_inv_update [OF inv, of st' n "Emitting res (node_outputs (e_graph env) n)"])
        (simp_all add: st', simp_all add: report_node_def set_task_def)
  next
    case (Emitting res outs)
    then have st': "st' = emit_output n res outs st" using step t by (simp add: task_step_def)
    obtain t' where t': "x_tasks st' = dict_set n t' (x_tasks st)" "task_view env (x_cancel st) n t' (view st' n)"
        "\<forall>m. m \<noteq> n \<longrightarrow> view st' m = view st m"
      using emit_output_inv [OF ok tv [unfolded Emitting]] unfolding st' by blast
    have "x_cancel st' = x_cancel st" "x_cache st' = x_cache st"
      unfolding st' by (auto simp: emit_output_def fail_task_def set_task_def Let_def
          split: list.splits prod.splits option.splits)
    with t' ch show ?thesis by (intro data_inv_update [OF inv t'(1)]) simp_all
  next
    case (Reporting res eo outs)
    then have st': "st' = report_output n res eo outs st" using step t by (simp add: task_step_def)
    have "eo_node eo = n" using tv Reporting by (simp add: task_view_def)
    then show ?thesis
      using report_output_inv [OF tv [unfolded Reporting]] ch view_other(3) [of _ n]
      by (intro data_inv_update [OF inv, of st' n "Emitting res outs"])
        (simp_all add: st', simp_all add: report_output_def set_task_def)
  qed (use step t in \<open>simp_all add: task_step_def\<close>)
qed

lemma task_view_cancel: "task_view env b n t v \<Longrightarrow> task_view env True n t v"
  by (auto simp: task_view_def split: task.splits option.splits)

lemma node_ok_cancel: "node_ok env b n t v \<Longrightarrow> node_ok env True n t v"
  by (cases t) (auto intro: task_view_cancel)

lemma data_inv_cancel:
  assumes "data_inv E env st" shows "data_inv E env (st\<lparr>x_cancel := True\<rparr>)"
proof -
  have "view (st\<lparr>x_cancel := True\<rparr>) n = view st n" for n by (simp add: view_def)
  then show ?thesis using assms by (auto simp: data_inv_def intro: node_ok_cancel)
qed

lemma data_inv_other_put:
  assumes "data_inv E env st" and "e \<in> E" "val e n key res"
  shows "data_inv E env (st\<lparr>x_cache := cache_put key res (x_cache st)\<rparr>)"
proof -
  have "view (st\<lparr>x_cache := cache_put key res (x_cache st)\<rparr>) n = view st n" for n by (simp add: view_def)
  then show ?thesis using assms by (auto simp: data_inv_def intro: cache_ok_put)
qed

lemma main_step_view: 
  assumes "main_step env ch st = Some st'"
  shows "view st' n = view st n \<and> x_cancel st' = x_cancel st \<and> x_cache st' = x_cache st"
  using assms
  by (auto simp: main_step_def submit_node_def set_task_def process_future_def close_pool_def Let_def view_def
      split: main_pc.splits if_splits list.splits option.splits task.splits sum.splits)

lemma main_step_tasks:
  assumes "main_step env ch st = Some st'" and "sched_inv g st"
  shows "x_tasks st' = x_tasks st \<or>
    (\<exists>n. dict_get (x_tasks st) n = None \<and> x_tasks st' = dict_set n Queued (x_tasks st))"
proof (cases "x_pc st = Submitting \<and> x_ready st \<noteq> []")
  case True
  then obtain n rest where r: "x_ready st = n # rest" by (cases "x_ready st") auto
  then have "n \<notin> submitted st" using assms(2) by (auto simp: sched_inv_def)
  then show ?thesis
    using assms(1) True r by (auto simp: main_step_def submit_node_def set_task_def submitted_def)
next
  case False
  then have "x_tasks st' = x_tasks st"
    using assms(1) by (auto simp: main_step_def process_future_def close_pool_def Let_def
        split: main_pc.splits if_splits list.splits option.splits task.splits sum.splits)
  then show ?thesis by simp
qed

lemma data_inv_main_step:
  assumes "data_inv E env st" and "sched_inv g st" and "main_step env ch st = Some st'"
  shows "data_inv E env st'"
proof -
  note s = main_step_view [OF assms(3)]
  from main_step_tasks [OF assms(3,2)] show ?thesis
  proof (elim disjE exE conjE)
    assume "x_tasks st' = x_tasks st"
    then show ?thesis using assms(1) s by (simp add: data_inv_def)
  next
    fix n assume n: "dict_get (x_tasks st) n = None" "x_tasks st' = dict_set n Queued (x_tasks st)"
    then have "view st n = empty_view" using assms(1) unfolding data_inv_def by (metis node_ok_simps(1))
    then have "task_view env (x_cancel st) n Queued (view st' n)" using s by (simp add: task_view_def)
    then show ?thesis using s assms(1)
      by (intro data_inv_update [OF assms(1) n(2)]) (simp_all add: data_inv_def)
  qed
qed

definition shared_by :: "exec_env set \<Rightarrow> string \<Rightarrow> results \<Rightarrow> bool" where
  "shared_by E key res \<longleftrightarrow> (\<exists>env \<in> E. \<exists>n. val env n key res)"

theorem data_inv_step:
  assumes c: "compatible fc E" "env \<in> E" and ok: "env_ok env" and sched: "sched_inv (e_graph env) st"
    and inv: "data_inv E env st" and a: "allowed (shared_by E) a" and step: "exec_step env a st = Some st'"
  shows "data_inv E env st'"
proof (cases a)
  case Start
  have "dict_ok (x_tasks st)" using sched by (simp add: sched_inv_def)
  then obtain n where "dict_get (x_tasks st) n = Some Queued" "st' = set_task n Started st"
    using step Start pool_stepD [of env st st'] by (auto simp: exec_step_def)
  then show ?thesis using data_inv_set_task [OF inv, of n Started] task_view_task [OF inv]
    by (fastforce simp: task_view_def)
next
  case (Task nid)
  then show ?thesis using step data_inv_task_step [OF c ok sched inv] by (simp add: exec_step_def)
next
  case (Main ch)
  then show ?thesis using step data_inv_main_step [OF inv sched] by (simp add: exec_step_def)
next
  case Cancel
  then show ?thesis using step data_inv_cancel [OF inv] by (simp add: exec_step_def)
next
  case (OtherPut key res)
  then show ?thesis using step a data_inv_other_put [OF inv] by (auto simp: exec_step_def shared_by_def)
qed

lemma data_inv_start:
  assumes "exec_start env c cancel = Inr s0" and "cache_ok E c"
  shows "data_inv E env s0"
  using exec_start_fields [OF assms(1)] assms(2)
  by (auto simp: data_inv_def view_def empty_view_def node_calls_def)

theorem reach_data_inv:
  assumes c: "compatible fc E" "env \<in> E" and s0: "exec_start env c cancel = Inr s0" and ch: "cache_ok E c"
    and r: "reach env (shared_by E) s0 s"
  shows "data_inv E env s"
  using r
proof induction
  case reach_init
  show ?case by (rule data_inv_start [OF s0 ch])
next
  case (reach_step s a s')
  have "env_ok env" using exec_start_valid [OF s0] by (simp add: env_ok_def)
  from data_inv_step [OF c this reach_sched_inv [OF s0 reach_step(1)] reach_step(4,2,3)] show ?case .
qed

end
