(* ===== verification/JobRuns.thy ===== *)
theory JobRuns
  imports Jobs ExecData
begin

text \<open>
  What every interleaving of a session's job actions keeps: identifiers are fresh and payloads
  stay, the log is well formed, and the events of each job spell its lifecycle.
\<close>

section \<open>Field lemmas\<close>

lemma job_get_simps [simp]:
  "job_get (update_job jid f m) k = (if k = jid then map_option f (job_get m k) else job_get m k)"
  "job_get (log_event ty d m) k = job_get m k"
  "job_get (set_thread jid th m) k = job_get m k"
  by (auto simp: job_get_def update_job_def log_event_def set_thread_def split: option.splits)

lemma jm_simps [simp]:
  "jm_events (update_job jid f m) = jm_events m" "jm_threads (update_job jid f m) = jm_threads m"
  "jm_session (update_job jid f m) = jm_session m" "jm_tokens (update_job jid f m) = jm_tokens m"
  "jm_events (log_event ty d m) = log_append ty d (jm_events m)"
  "jm_threads (log_event ty d m) = jm_threads m" "jm_session (log_event ty d m) = jm_session m"
  "jm_tokens (log_event ty d m) = jm_tokens m"
  "jm_events (set_thread jid th m) = jm_events m" "jm_session (set_thread jid th m) = jm_session m"
  "jm_tokens (set_thread jid th m) = jm_tokens m"
  "jm_threads (set_thread jid th m) = dict_set jid th (jm_threads m)"
  by (auto simp: update_job_def log_event_def set_thread_def split: option.splits)

lemma set_status_simps [simp]:
  "jm_threads (set_status jid s m) = jm_threads m" "jm_session (set_status jid s m) = jm_session m"
  "jm_tokens (set_status jid s m) = jm_tokens m"
  "job_get (set_status jid s m) k =
     (if k = jid then map_option (\<lambda>j. j\<lparr>j_status := s\<rparr>) (job_get m k) else job_get m k)"
  "jm_events (set_status jid s m) =
     log_append ''job.status'' [(''job'', JStr jid), (''status'', JStr (status_text s))] (jm_events m)"
  by (simp_all add: set_status_def)

definition output_record :: "string \<Rightarrow> exec_output \<Rightarrow> string option \<Rightarrow> job_output" where
  "output_record pid eo grp = \<lparr>jo_node = eo_node eo, jo_port = eo_port eo, jo_type = eo_type eo,
     jo_payload = pid, jo_group = grp\<rparr>"

lemma announce_simps [simp]:
  "jm_threads (announce tok jid eo grp m) = jm_threads m"
  "jm_session (announce tok jid eo grp m) =
     snd (add_payload (tok (jm_tokens m)) (eo_type eo) (eo_data eo) (jm_session m))"
  "jm_tokens (announce tok jid eo grp m) = Suc (jm_tokens m)"
  "job_get (announce tok jid eo grp m) k = (if k = jid
     then map_option (\<lambda>j. j\<lparr>j_outputs := j_outputs j @ [output_record (tok (jm_tokens m)) eo grp]\<rparr>) (job_get m k)
     else job_get m k)"
  "jm_events (announce tok jid eo grp m) = log_append ''job.output''
     ((''job'', JStr jid) # job_output_fields (output_record (tok (jm_tokens m)) eo grp)) (jm_events m)"
  by (simp_all add: announce_def add_payload_def Let_def output_record_def job_get_def
      update_job_def log_event_def split: option.splits)

lemma shutdown_simps [simp]:
  "jm_threads (shutdown m) = jm_threads m" "jm_session (shutdown m) = jm_session m"
  "jm_tokens (shutdown m) = jm_tokens m" "jm_events (shutdown m) = jm_events m"
  "job_get (shutdown m) k =
     map_option (\<lambda>j. if j_status j \<in> terminal then j else j\<lparr>j_cancel := True\<rparr>) (job_get m k)"
proof -
  have "map_of (map (\<lambda>(k, v). (k, f v)) xs) k = map_option f (map_of xs k)" for f :: "job \<Rightarrow> job" and xs
    by (induction xs) auto
  then show "job_get (shutdown m) k =
      map_option (\<lambda>j. if j_status j \<in> terminal then j else j\<lparr>j_cancel := True\<rparr>) (job_get m k)"
    by (simp add: shutdown_def job_get_def)
qed (simp_all add: shutdown_def)

lemma job_cancel_simps [simp]:
  "jm_threads (snd (job_cancel jid m)) = jm_threads m" "jm_session (snd (job_cancel jid m)) = jm_session m"
  "jm_tokens (snd (job_cancel jid m)) = jm_tokens m" "jm_events (snd (job_cancel jid m)) = jm_events m"
  "job_get (snd (job_cancel jid m)) k =
     (if k = jid then map_option (\<lambda>j. j\<lparr>j_cancel := True\<rparr>) (job_get m k) else job_get m k)"
  by (auto simp: job_cancel_def split: option.splits)

lemma upload_simps [simp]:
  "jm_threads (upload tok ty data m) = jm_threads m"
  "jm_session (upload tok ty data m) = snd (add_payload (tok (jm_tokens m)) ty data (jm_session m))"
  "jm_tokens (upload tok ty data m) = Suc (jm_tokens m)" "jm_events (upload tok ty data m) = jm_events m"
  "job_get (upload tok ty data m) k = job_get m k"
  by (simp_all add: upload_def job_get_def)

definition new_job :: "string \<Rightarrow> job" where
  "new_job jid = \<lparr>j_id = jid, j_status = Pending, j_outputs = [], j_error = None, j_cancel = False\<rparr>"

definition new_thread :: "graph \<Rightarrow> bool \<Rightarrow> job_thread" where
  "new_thread g draft = \<lparr>th_graph = g, th_draft = draft, th_phase = Created, th_group_of = [],
     th_pinned = [], th_held = [], th_next = []\<rparr>"

lemma submit_simps [simp]:
  "jm_threads (snd (submit tok g draft m)) = dict_set (tok (jm_tokens m)) (new_thread g draft) (jm_threads m)"
  "jm_session (snd (submit tok g draft m)) = jm_session m"
  "jm_tokens (snd (submit tok g draft m)) = Suc (jm_tokens m)"
  "job_get (snd (submit tok g draft m)) k =
     (if k = tok (jm_tokens m) then Some (new_job k) else job_get m k)"
  "jm_events (snd (submit tok g draft m)) = log_append ''job.status''
     [(''job'', JStr (tok (jm_tokens m))), (''status'', JStr ''pending'')] (jm_events m)"
  by (auto simp: submit_def Let_def job_get_def set_status_def update_job_def log_event_def new_job_def
      new_thread_def status_text_def)

section \<open>The loop under the gate\<close>

definition announce_all ::
  "(nat \<Rightarrow> string) \<Rightarrow> string \<Rightarrow> string option \<Rightarrow> exec_output list \<Rightarrow> manager \<Rightarrow> manager" where
  "announce_all tok jid grp eos m = fold (\<lambda>eo. announce tok jid eo grp) eos m"

lemma announce_all_simps [simp]:
  "announce_all tok jid grp [] m = m"
  "announce_all tok jid grp (eo # eos) m = announce_all tok jid grp eos (announce tok jid eo grp m)"
  by (simp_all add: announce_all_def)

lemma announce_all_fields [simp]:
  "jm_threads (announce_all tok jid grp eos m) = jm_threads m"
  "jm_tokens (announce_all tok jid grp eos m) = jm_tokens m + length eos"
  by (induction eos arbitrary: m) simp_all

definition present :: "(out_key, exec_output) dict \<Rightarrow> out_key list \<Rightarrow> out_key list" where
  "present buf ks = takeWhile (\<lambda>k. dict_get buf k \<noteq> None) ks"

lemma flush_spec:
  assumes "distinct ks"
  shows "flush tok jid g ks buf i m = (foldl (\<lambda>b k. dict_pop k b) buf (present buf ks),
    i + length (present buf ks), announce_all tok jid (Some g) (map (the \<circ> dict_get buf) (present buf ks)) m)"
  using assms
proof (induction ks arbitrary: buf i m)
  case (Cons k ks)
  show ?case
  proof (cases "dict_get buf k")
    case (Some eo)
    have "present (dict_pop k buf) ks = present buf ks"
      unfolding present_def using Cons.prems by (intro takeWhile_cong) auto
    moreover have "\<forall>x \<in> set (present buf ks). x \<noteq> k"
      using Cons.prems by (auto simp: present_def dest: set_takeWhileD)
    ultimately show ?thesis
      using Cons Some by (simp add: present_def comp_def cong: map_cong)
  qed (simp add: present_def)
qed (simp add: present_def)

lemma foldl_pop_get: "dict_get (foldl (\<lambda>b k. dict_pop k b) buf ks) j = (if j \<in> set ks then None else dict_get buf j)"
  by (induction ks arbitrary: buf) auto

section \<open>What each action is made of\<close>

text \<open>\<open>on_output\<close> announces a list of outputs in one group and updates the gate of its thread.\<close>

definition group_for :: "job_thread \<Rightarrow> exec_output \<Rightarrow> string option" where
  "group_for th eo = (case dict_get (th_group_of th) (out_ref eo) of None \<Rightarrow> None | Some g \<Rightarrow> g)"

definition gate_of :: "job_thread \<Rightarrow> exec_output \<Rightarrow> (string \<times> out_key list) option" where
  "gate_of th eo = (case group_for th eo of None \<Rightarrow> None | Some g \<Rightarrow> map_option (Pair g) (dict_get (th_pinned th) g))"

definition held_in :: "job_thread \<Rightarrow> string \<Rightarrow> (out_key, exec_output) dict" where
  "held_in th g = (case dict_get (th_held th) g of None \<Rightarrow> [] | Some b \<Rightarrow> b)"

definition cursor_in :: "job_thread \<Rightarrow> string \<Rightarrow> nat" where
  "cursor_in th g = (case dict_get (th_next th) g of None \<Rightarrow> 0 | Some i \<Rightarrow> i)"

lemma on_output_free:
  "gate_of th eo = None \<Longrightarrow> on_output tok jid th eo m = announce_all tok jid (group_for th eo) [eo] m"
  by (auto simp: gate_of_def group_for_def on_output_def out_ref_def Let_def split: option.splits)

lemma on_output_gated:
  assumes "gate_of th eo = Some (g, sq)" and "distinct sq"
  defines "buf \<equiv> dict_set (out_ref eo) eo (held_in th g)" and "rest \<equiv> drop (cursor_in th g) sq"
  shows "on_output tok jid th eo m = set_thread jid
    (th\<lparr>th_held := dict_set g (foldl (\<lambda>b k. dict_pop k b) buf (present buf rest)) (th_held th),
       th_next := dict_set g (cursor_in th g + length (present buf rest)) (th_next th)\<rparr>)
    (announce_all tok jid (Some g) (map (the \<circ> dict_get buf) (present buf rest)) m)"
proof -
  have d: "distinct rest" using assms(2) by (simp add: rest_def)
  have "group_for th eo = Some g" "dict_get (th_pinned th) g = Some sq"
    using assms(1) by (auto simp: gate_of_def split: option.splits)
  then show ?thesis
    using flush_spec [OF d, of tok jid g buf "cursor_in th g" m]
    by (simp add: on_output_def group_for_def out_ref_def Let_def held_in_def cursor_in_def
        buf_def rest_def split: prod.splits)
qed


section \<open>Runs\<close>

lemma job_steps_append:
  "job_steps tok xt (as @ bs) m = Option.bind (job_steps tok xt as m) (job_steps tok xt bs)"
  by (induction as arbitrary: m) (auto split: bind_splits)

lemma job_steps_snoc:
  "job_steps tok xt (as @ [a]) m = Some m' \<longleftrightarrow>
     (\<exists>m1. job_steps tok xt as m = Some m1 \<and> job_step tok xt a m1 = Some m')"
  by (auto simp: job_steps_append split: bind_splits)

lemma job_steps_induct [consumes 1, case_names start step]:
  assumes "job_steps tok xt as m0 = Some m"
    and "P [] m0"
    and "\<And>as a m m'. job_steps tok xt as m0 = Some m \<Longrightarrow> P as m \<Longrightarrow> job_step tok xt a m = Some m' \<Longrightarrow>
      P (as @ [a]) m'"
  shows "P as m"
  using assms(1)
proof (induction as arbitrary: m rule: rev_induct)
  case (snoc a as)
  then obtain m1 where "job_steps tok xt as m0 = Some m1" "job_step tok xt a m1 = Some m"
    by (auto simp: job_steps_snoc)
  then show ?case using snoc.IH assms(3) by blast
qed (use assms(2) in simp)

lemma job_stepE [consumes 1, case_names submit start node emit finish cancel upload shutdown]:
  assumes "job_step tok xt a m = Some m'"
  obtains g draft where "a = Submit g draft" "m' = snd (submit tok g draft m)"
  | jid th where "a = Begin jid" "dict_get (jm_threads m) jid = Some th" "th_phase th = Created"
      "m' = begin_run jid th m"
  | jid th nid hit where "a = Call jid (NodeCall nid hit)" "dict_get (jm_threads m) jid = Some th"
      "th_phase th = Live" "m' = on_node jid nid hit m"
  | jid th eo where "a = Call jid (OutputCall eo)" "dict_get (jm_threads m) jid = Some th"
      "th_phase th = Live" "m' = on_output tok jid th eo m"
  | jid th r where "a = Finish jid r" "dict_get (jm_threads m) jid = Some th" "th_phase th = Live"
      "m' = finish_run xt jid th r m"
  | jid where "a = CancelJob jid" "m' = snd (job_cancel jid m)"
  | ty data where "a = Upload ty data" "m' = upload tok ty data m"
  | "a = Shutdown" "m' = shutdown m"
  using assms
  by (auto simp: job_step_def split: job_action.splits option.splits if_splits exec_call.splits)

text \<open>
  The thread's gate is what \<open>begin_run\<close> built from the graph; the graphs that reach \<open>submit\<close> were
  validated, so their output references are distinct and their groups declared.
\<close>

definition ref_of :: "output_ref \<Rightarrow> out_key" where
  "ref_of r = (o_node r, o_port r)"

definition gate_graph :: "graph \<Rightarrow> bool" where
  "gate_graph g \<longleftrightarrow> distinct (map ref_of (g_outputs g)) \<and>
     (\<forall>r \<in> set (g_outputs g). \<forall>grp. o_group r = Some grp \<longrightarrow>
        dict_get (dict_of grp_id grp_order (g_groups g)) grp \<noteq> None)"

definition members :: "output_ref list \<Rightarrow> string \<Rightarrow> out_key list" where
  "members rs grp = map ref_of (filter (\<lambda>r. o_group r = Some grp) rs)"

lemma members_Cons: "members (r # rs) grp = (if o_group r = Some grp then ref_of r # members rs grp else members rs grp)"
  by (simp add: members_def)

lemma distinct_members: "distinct (map ref_of rs) \<Longrightarrow> distinct (members rs grp)"
  unfolding members_def by (rule distinct_map_filter)

definition pinned_group :: "graph \<Rightarrow> string \<Rightarrow> bool" where
  "pinned_group g grp \<longleftrightarrow> dict_get (dict_of grp_id grp_order (g_groups g)) grp = Some ''pinned''"

definition sequence_of :: "graph \<Rightarrow> string \<Rightarrow> out_key list option" where
  "sequence_of g grp = (if pinned_group g grp \<and> members (g_outputs g) grp \<noteq> []
     then Some (members (g_outputs g) grp) else None)"

lemma pin_outputs_spec:
  assumes "\<forall>r \<in> set rs. \<forall>grp. o_group r = Some grp \<longrightarrow> dict_get orders grp \<noteq> None"
  shows "\<exists>go' pinned'. pin_outputs orders rs go pinned = Inr (go', pinned') \<and>
    go' = foldl (\<lambda>d r. dict_set (ref_of r) (o_group r) d) go rs \<and>
    (dict_ok pinned \<longrightarrow> dict_ok pinned') \<and>
    (\<forall>grp. dict_get pinned' grp =
       (if dict_get orders grp = Some ''pinned'' \<and> members rs grp \<noteq> []
        then Some ((case dict_get pinned grp of None \<Rightarrow> [] | Some xs \<Rightarrow> xs) @ members rs grp)
        else dict_get pinned grp))"
  using assms
proof (induction rs arbitrary: go pinned)
  case (Cons r rs)
  show ?case
  proof (cases "o_group r")
    case None
    then show ?thesis
      using Cons.IH [of "dict_set (ref_of r) None go" pinned] Cons.prems
      by (auto simp: members_Cons ref_of_def)
  next
    case (Some grp)
    then obtain ord where ord: "dict_get orders grp = Some ord" using Cons.prems by auto
    let ?p = "if ord = ''pinned'' then dict_set grp ((case dict_get pinned grp of None \<Rightarrow> [] | Some xs \<Rightarrow> xs) @ [ref_of r]) pinned
        else pinned"
    obtain go' pinned' where IH: "pin_outputs orders rs (dict_set (ref_of r) (Some grp) go) ?p = Inr (go', pinned')"
        "go' = foldl (\<lambda>d r. dict_set (ref_of r) (o_group r) d) (dict_set (ref_of r) (Some grp) go) rs"
        "dict_ok ?p \<longrightarrow> dict_ok pinned'"
        "\<And>h. dict_get pinned' h = (if dict_get orders h = Some ''pinned'' \<and> members rs h \<noteq> []
           then Some ((case dict_get ?p h of None \<Rightarrow> [] | Some xs \<Rightarrow> xs) @ members rs h) else dict_get ?p h)"
      using Cons.IH [of "dict_set (ref_of r) (Some grp) go" ?p] Cons.prems by auto
    have "pin_outputs orders (r # rs) go pinned = Inr (go', pinned')"
      using IH(1) Some ord by (auto simp: ref_of_def Let_def split: if_splits)
    moreover have "dict_get pinned' h =
       (if dict_get orders h = Some ''pinned'' \<and> members (r # rs) h \<noteq> []
        then Some ((case dict_get pinned h of None \<Rightarrow> [] | Some xs \<Rightarrow> xs) @ members (r # rs) h)
        else dict_get pinned h)" for h
      unfolding IH(4) using Some ord by (auto simp: members_Cons)
    ultimately show ?thesis using IH(2,3) Some by (intro exI [of _ go'] exI [of _ pinned']) auto
  qed
qed (simp add: members_def)

end
