(* ===== verification/JobLife.thy ===== *)
theory JobLife
  imports JobRuns
begin

text \<open>
  The invariants of a session under every interleaving of its jobs' actions: identifiers are
  fresh, payloads are never lost or replaced, and the events of a job follow its lifecycle
  (\<open>life_step\<close>, an automaton that is the specification of the event stream of ADR 0007).
\<close>

section \<open>Identifiers and payloads\<close>

definition used :: "(nat \<Rightarrow> string) \<Rightarrow> manager \<Rightarrow> string set" where
  "used tok m = tok ` {..<jm_tokens m}"

definition ids_inv :: "(nat \<Rightarrow> string) \<Rightarrow> session \<Rightarrow> manager \<Rightarrow> bool" where
  "ids_inv tok ses0 m \<longleftrightarrow>
     dom (job_get m) = dom (dict_get (jm_threads m)) \<and> dom (job_get m) \<subseteq> used tok m \<and>
     get_payload ses0 \<subseteq>\<^sub>m get_payload (jm_session m) \<and>
     dom (get_payload (jm_session m)) \<subseteq> dom (get_payload ses0) \<union> used tok m"

definition fresh_tokens :: "(nat \<Rightarrow> string) \<Rightarrow> session \<Rightarrow> bool" where
  "fresh_tokens tok ses0 \<longleftrightarrow> inj tok \<and> range tok \<inter> dom (get_payload ses0) = {}"

lemma fresh_token: "fresh_tokens tok ses0 \<Longrightarrow> tok (jm_tokens m) \<notin> used tok m"
  by (auto simp: fresh_tokens_def inj_on_def used_def)

lemma used_Suc: "jm_tokens m' = Suc (jm_tokens m) \<Longrightarrow> used tok m' = insert (tok (jm_tokens m)) (used tok m)"
  by (simp add: used_def lessThan_Suc)

lemma ids_new:
  assumes "ids_inv tok ses0 m" and "fresh_tokens tok ses0"
  shows "tok (jm_tokens m) \<notin> dom (get_payload (jm_session m))" "tok (jm_tokens m) \<notin> dom (job_get m)"
proof -
  have "tok (jm_tokens m) \<notin> dom (get_payload ses0)" using assms(2) by (auto simp: fresh_tokens_def)
  then show "tok (jm_tokens m) \<notin> dom (get_payload (jm_session m))" "tok (jm_tokens m) \<notin> dom (job_get m)"
    using fresh_token [OF assms(2), of m] assms(1) unfolding ids_inv_def by blast+
qed

lemma get_payload_add:
  "get_payload (snd (add_payload i ty b s)) = (get_payload s)(i \<mapsto> \<lparr>pl_id = i, pl_type = ty, pl_data = b\<rparr>)"
  by (rule ext) (simp add: add_payload_get)

text \<open>A payload under a fresh identifier keeps every other payload.\<close>

lemma ids_payload:
  assumes "ids_inv tok ses0 m" and "fresh_tokens tok ses0"
    and ses: "jm_session m' = snd (add_payload (tok (jm_tokens m)) ty b (jm_session m))"
    and "jm_tokens m' = Suc (jm_tokens m)" and th: "jm_threads m' = jm_threads m"
    and jobs: "dom (job_get m') = dom (job_get m)"
  shows "ids_inv tok ses0 m'" and "get_payload (jm_session m) \<subseteq>\<^sub>m get_payload (jm_session m')"
proof -
  show le: "get_payload (jm_session m) \<subseteq>\<^sub>m get_payload (jm_session m')"
    using ids_new(1) [OF assms(1,2)] unfolding ses get_payload_add by (auto simp: map_le_def)
  have "dom (get_payload (jm_session m')) = insert (tok (jm_tokens m)) (dom (get_payload (jm_session m)))"
    unfolding ses get_payload_add by simp
  moreover have "get_payload ses0 \<subseteq>\<^sub>m get_payload (jm_session m')"
    using assms(1) le map_le_trans unfolding ids_inv_def by blast
  ultimately show "ids_inv tok ses0 m'"
    using assms(1) unfolding ids_inv_def used_Suc [OF assms(4)] th jobs by blast
qed

lemma ids_same:
  "ids_inv tok ses0 m \<Longrightarrow> jm_session m' = jm_session m \<Longrightarrow> jm_tokens m' = jm_tokens m \<Longrightarrow>
     dom (dict_get (jm_threads m')) = dom (dict_get (jm_threads m)) \<Longrightarrow> dom (job_get m') = dom (job_get m) \<Longrightarrow>
     ids_inv tok ses0 m'"
  unfolding ids_inv_def used_def by metis

lemma ids_announce_all:
  assumes "fresh_tokens tok ses0"
  shows "ids_inv tok ses0 m \<Longrightarrow> ids_inv tok ses0 (announce_all tok jid grp eos m) \<and>
    get_payload (jm_session m) \<subseteq>\<^sub>m get_payload (jm_session (announce_all tok jid grp eos m))"
proof (induction eos arbitrary: m)
  case (Cons eo eos)
  have d: "dom (job_get (announce tok jid eo grp m)) = dom (job_get m)" by (auto simp: dom_def)
  note p = ids_payload [OF Cons.prems assms announce_simps(2) announce_simps(3) announce_simps(1) d]
  show ?case using Cons.IH [OF p(1)] map_le_trans [OF p(2)] by simp
qed simp

section \<open>What an announcement comes down to\<close>

lemma flush_announces:
  "flush tok jid g ks buf i m = (buf', i', m') \<Longrightarrow> \<exists>eos. m' = announce_all tok jid (Some g) eos m"
proof (induction ks arbitrary: buf i m)
  case Nil
  then have "m' = announce_all tok jid (Some g) [] m" by simp
  then show ?case by blast
next
  case (Cons k ks)
  show ?case
  proof (cases "dict_get buf k")
    case None
    then have "m' = announce_all tok jid (Some g) [] m" using Cons.prems by simp
    then show ?thesis by blast
  next
    case (Some eo)
    then obtain eos where "m' = announce_all tok jid (Some g) eos (announce tok jid eo (Some g) m)"
      using Cons.IH [of "dict_pop k buf" "Suc i" "announce tok jid eo (Some g) m"] Cons.prems by auto
    then have "m' = announce_all tok jid (Some g) (eo # eos) m" by simp
    then show ?thesis by blast
  qed
qed

lemma on_output_form:
  assumes "dict_get (jm_threads m) jid = Some th"
  obtains th' grp eos where
    "on_output tok jid th eo m = set_thread jid th' (announce_all tok jid grp eos m)" "th_phase th' = th_phase th"
  | grp where "on_output tok jid th eo m = announce_all tok jid grp [eo] m"
proof (cases "gate_of th eo")
  case None
  then show ?thesis using that(2) on_output_free by blast
next
  case (Some gs)
  then obtain g sq where g: "group_for th eo = Some g" "dict_get (th_pinned th) g = Some sq"
    by (auto simp: gate_of_def split: option.splits)
  obtain buf' i' m' where fl: "flush tok jid g (drop (cursor_in th g) sq) (dict_set (out_ref eo) eo (held_in th g))
      (cursor_in th g) m = (buf', i', m')" using prod_cases3 by blast
  obtain eos where eos: "m' = announce_all tok jid (Some g) eos m" using flush_announces [OF fl] by blast
  have "on_output tok jid th eo m = set_thread jid (th\<lparr>th_held := dict_set g buf' (th_held th),
      th_next := dict_set g i' (th_next th)\<rparr>) m'"
    using g fl by (simp add: on_output_def group_for_def out_ref_def Let_def held_in_def cursor_in_def)
  then show ?thesis using that(1) eos by simp
qed


section \<open>Every action keeps the identifiers and the payloads\<close>

lemma finish_run_simps [simp]:
  "jm_session (finish_run xt jid th r m) = jm_session m" "jm_tokens (finish_run xt jid th r m) = jm_tokens m"
  "jm_threads (finish_run xt jid th r m) = dict_set jid (th\<lparr>th_phase := Ended\<rparr>) (jm_threads m)"
  "dom (job_get (finish_run xt jid th r m)) = dom (job_get m)"
  by (auto simp: finish_run_def fail_job_def split: option.splits if_splits)

lemma begin_run_simps [simp]:
  "jm_session (begin_run jid th m) = jm_session m" "jm_tokens (begin_run jid th m) = jm_tokens m"
  "dom (job_get (begin_run jid th m)) = dom (job_get m)"
  "dom (dict_get (jm_threads (begin_run jid th m))) = insert jid (dom (dict_get (jm_threads m)))"
  by (auto simp: begin_run_def Let_def split: sum.splits if_splits)

lemma on_node_simps [simp]:
  "jm_session (on_node jid nid hit m) = jm_session m" "jm_tokens (on_node jid nid hit m) = jm_tokens m"
  "jm_threads (on_node jid nid hit m) = jm_threads m" "job_get (on_node jid nid hit m) k = job_get m k"
  by (simp_all add: on_node_def)

lemma ids_step:
  assumes inv: "ids_inv tok ses0 m" and tok: "fresh_tokens tok ses0" and "job_step tok xt a m = Some m'"
  shows "ids_inv tok ses0 m' \<and> get_payload (jm_session m) \<subseteq>\<^sub>m get_payload (jm_session m')"
  using assms(3)
proof (cases rule: job_stepE)
  case (submit g draft)
  have jobs: "dom (job_get m') = insert (tok (jm_tokens m)) (dom (job_get m))"
    by (auto simp: submit split: if_splits)
  have threads: "dom (dict_get (jm_threads m')) = insert (tok (jm_tokens m)) (dom (dict_get (jm_threads m)))"
    by (auto simp: submit split: if_splits)
  have u: "used tok m' = insert (tok (jm_tokens m)) (used tok m)" by (rule used_Suc) (simp add: submit)
  have ses: "jm_session m' = jm_session m" by (simp add: submit)
  show ?thesis
    using inv unfolding ids_inv_def jobs threads u ses by (intro conjI map_le_refl) blast+
next
  case (start jid th)
  then have "ids_inv tok ses0 m'" by (intro ids_same [OF inv]) (auto split: if_splits)
  then show ?thesis using start by simp
next
  case (node jid th nid hit)
  then have "ids_inv tok ses0 m'" by (intro ids_same [OF inv]) (auto split: if_splits)
  then show ?thesis using node by simp
next
  case (emit jid th eo)
  from emit(2) show ?thesis
  proof (cases rule: on_output_form [where tok = tok and eo = eo])
    case (1 th' grp eos)
    note a = ids_announce_all [OF tok inv, of jid grp eos]
    from a have "ids_inv tok ses0 m'"
      using emit(2) unfolding emit(4) 1(1) by (intro ids_same [OF conjunct1 [OF a]]) (auto split: if_splits)
    then show ?thesis using a unfolding emit(4) 1(1) by simp
  next
    case (2 grp)
    show ?thesis unfolding emit(4) 2 by (rule ids_announce_all [OF tok inv])
  qed
next
  case (finish jid th r)
  then have "ids_inv tok ses0 m'" by (intro ids_same [OF inv]) (auto split: if_splits)
  then show ?thesis using finish by simp
next
  case (cancel jid)
  then have "ids_inv tok ses0 m'" by (intro ids_same [OF inv]) (auto split: if_splits)
  then show ?thesis using cancel by simp
next
  case (upload ty data)
  have "dom (job_get m') = dom (job_get m)" by (auto simp: upload)
  from ids_payload [OF inv tok _ _ _ this] show ?thesis using upload by simp
next
  case shutdown
  then have "ids_inv tok ses0 m'" by (intro ids_same [OF inv]) (auto split: if_splits)
  then show ?thesis using shutdown by simp
qed

lemma ids_init: "ids_inv tok ses0 (manager_init ses0)"
  by (auto simp: ids_inv_def manager_init_def job_get_def)

section \<open>The lifecycle of a job\<close>

datatype life = Unborn | Waits | Works | Settled job_status | Closed job_status

definition closing_event :: "job_status \<Rightarrow> string" where
  "closing_event s = ''job.'' @ status_text s"

definition life_step :: "string \<Rightarrow> life \<Rightarrow> string \<Rightarrow> params \<Rightarrow> life option" where
  "life_step jid l ty data =
     (if dict_get data ''job'' \<noteq> Some (JStr jid) then Some l
      else case l of
        Unborn \<Rightarrow> (if ty = ''job.status'' \<and> dict_get data ''status'' = Some (JStr ''pending'') then Some Waits else None)
      | Waits \<Rightarrow> (if ty = ''job.status'' \<and> dict_get data ''status'' = Some (JStr ''running'') then Some Works else None)
      | Works \<Rightarrow>
          (if ty \<in> {''node.completed'', ''job.output''} then Some Works
           else if ty = ''job.status'' then
             map_option Settled (find (\<lambda>s. dict_get data ''status'' = Some (JStr (status_text s)))
               [Completed, Failed, Cancelled])
           else None)
      | Settled s \<Rightarrow> (if ty = closing_event s then Some (Closed s) else None)
      | Closed s \<Rightarrow> None)"

fun life_run :: "string \<Rightarrow> event list \<Rightarrow> life option" where
  "life_run jid [] = Some Unborn"
| "life_run jid (e # es) = Option.bind (life_run jid es) (\<lambda>l. life_step jid l (ev_type e) (ev_data e))"

definition life_of :: "job_status \<Rightarrow> life" where
  "life_of s = (case s of Pending \<Rightarrow> Waits | Running \<Rightarrow> Works | _ \<Rightarrow> Closed s)"

definition life_in :: "string \<Rightarrow> manager \<Rightarrow> life option" where
  "life_in jid m = life_run jid (rev (jm_events m))"

lemma life_append [simp]:
  "life_run jid (rev (log_append ty data l)) = Option.bind (life_run jid (rev l)) (\<lambda>x. life_step jid x ty data)"
  by (simp add: log_append_def)

definition phase_of :: "job_status \<Rightarrow> phase" where
  "phase_of s = (case s of Pending \<Rightarrow> Created | Running \<Rightarrow> Live | _ \<Rightarrow> Ended)"

text \<open>A job that does not exist has no event; the invariant speaks of a job through its status only.\<close>

definition life_at :: "job_status option \<Rightarrow> life" where
  "life_at s = (case s of None \<Rightarrow> Unborn | Some s \<Rightarrow> life_of s)"

definition life_inv :: "manager \<Rightarrow> bool" where
  "life_inv m \<longleftrightarrow> (\<forall>jid. life_in jid m = Some (life_at (map_option j_status (job_get m jid))) \<and>
    map_option th_phase (dict_get (jm_threads m) jid) = map_option phase_of (map_option j_status (job_get m jid)))"

lemma life_other: "dict_get d ''job'' = Some (JStr k) \<Longrightarrow> k \<noteq> jid \<Longrightarrow> life_step jid l ty d = Some l"
  by (simp add: life_step_def)

lemma life_status:
  "life_step jid Unborn ''job.status'' [(''job'', JStr jid), (''status'', JStr ''pending'')] = Some Waits"
  "life_step jid Waits ''job.status'' [(''job'', JStr jid), (''status'', JStr (status_text Running))] = Some Works"
  "s \<in> terminal \<Longrightarrow>
     life_step jid Works ''job.status'' [(''job'', JStr jid), (''status'', JStr (status_text s))] = Some (Settled s)"
  "life_step jid (Settled s) (closing_event s) ((''job'', JStr jid) # d) = Some (Closed s)"
  "life_step jid Works ''job.output'' ((''job'', JStr jid) # d) = Some Works"
  "life_step jid Works ''node.completed'' ((''job'', JStr jid) # d) = Some Works"
  by (auto simp: life_step_def status_text_def terminal_def)

lemma life_in_same [simp]:
  "life_in k (update_job jid f m) = life_in k m" "life_in k (set_thread jid th m) = life_in k m"
  "life_in k (upload tok ty b m) = life_in k m" "life_in k (shutdown m) = life_in k m"
  "life_in k (snd (job_cancel jid m)) = life_in k m"
  by (simp_all add: life_in_def)

lemma life_in_log:
  "life_in k (log_event ty d m) = Option.bind (life_in k m) (\<lambda>l. life_step k l ty d)"
  "life_in k (set_status jid s m) = Option.bind (life_in k m)
     (\<lambda>l. life_step k l ''job.status'' [(''job'', JStr jid), (''status'', JStr (status_text s))])"
  "life_in k (announce tok jid eo grp m) = Option.bind (life_in k m) (\<lambda>l. life_step k l ''job.output''
     ((''job'', JStr jid) # job_output_fields (output_record (tok (jm_tokens m)) eo grp)))"
  "life_in k (snd (submit tok g draft m)) = Option.bind (life_in k m) (\<lambda>l. life_step k l ''job.status''
     [(''job'', JStr (tok (jm_tokens m))), (''status'', JStr ''pending'')])"
  by (simp_all add: life_in_def)

lemma life_announce:
  assumes "life_in jid m = Some Works" and "life_in k m = Some l"
  shows "life_in k (announce tok jid eo grp m) = Some l"
  using assms by (cases "k = jid") (auto simp: life_in_log life_status life_other)

lemma life_announce_all:
  "life_in jid m = Some Works \<Longrightarrow> life_in k m = Some l \<Longrightarrow> life_in k (announce_all tok jid grp eos m) = Some l"
  by (induction eos arbitrary: m) (simp_all add: life_announce)

lemma life_finish:
  assumes "life_in jid m = Some Works" and "s \<in> terminal" and "life_in k m = Some l"
  shows "life_in k (log_event (closing_event s) ((''job'', JStr jid) # d) (set_status jid s m)) =
    Some (if k = jid then Closed s else l)"
  using assms by (auto simp: life_in_log life_status life_other)

lemma job_get_announce_all:
  "\<exists>rs. job_get (announce_all tok jid grp eos m) k =
     (if k = jid then map_option (\<lambda>j. j\<lparr>j_outputs := j_outputs j @ rs\<rparr>) (job_get m k) else job_get m k)"
proof (induction eos arbitrary: m)
  case Nil
  show ?case by (intro exI [of _ "[]"]) (simp add: option.map_ident)
next
  case (Cons eo eos)
  obtain rs where "job_get (announce_all tok jid grp eos (announce tok jid eo grp m)) k =
      (if k = jid then map_option (\<lambda>j. j\<lparr>j_outputs := j_outputs j @ rs\<rparr>) (job_get (announce tok jid eo grp m) k)
       else job_get (announce tok jid eo grp m) k)" using Cons by blast
  then show ?case
    by (intro exI [of _ "output_record (tok (jm_tokens m)) eo grp # rs"]) (auto simp: option.map_comp comp_def)
qed

lemma status_announce_all [simp]:
  "map_option j_status (job_get (announce_all tok jid grp eos m) k) = map_option j_status (job_get m k)"
  using job_get_announce_all [of tok jid grp eos m k] by (auto simp: option.map_comp comp_def)

lemma dom_announce_all [simp]: "dom (job_get (announce_all tok jid grp eos m)) = dom (job_get m)"
proof -
  have "job_get (announce_all tok jid grp eos m) k = None \<longleftrightarrow> job_get m k = None" for k
    using status_announce_all [of tok jid grp eos m k] by (metis option.map_disc_iff)
  then show ?thesis by (simp add: dom_def)
qed

lemma life_invD:
  assumes "life_inv m" obtains l where "life_in k m = Some l"
  using assms unfolding life_inv_def by blast

lemma life_live:
  assumes "life_inv m" and "dict_get (jm_threads m) jid = Some th"
  obtains j where "job_get m jid = Some j" "th_phase th = phase_of (j_status j)"
    "life_in jid m = Some (life_of (j_status j))"
  proof -
  have "life_in jid m = Some (life_at (map_option j_status (job_get m jid)))"
    "map_option th_phase (dict_get (jm_threads m) jid) = map_option phase_of (map_option j_status (job_get m jid))"
    using assms(1) unfolding life_inv_def by blast+
  with assms(2) show thesis using that by (cases "job_get m jid") (auto simp: life_at_def)
qed

lemma phase_of_simps [simp]:
  "phase_of s = Created \<longleftrightarrow> s = Pending" "phase_of s = Live \<longleftrightarrow> s = Running"
  "phase_of s = Ended \<longleftrightarrow> s \<in> terminal"
  by (cases s; simp add: phase_of_def terminal_def)+

lemma life_of_simps [simp]: "life_of Pending = Waits" "life_of Running = Works" "s \<in> terminal \<Longrightarrow> life_of s = Closed s"
  by (auto simp: life_of_def terminal_def)

lemma life_running:
  assumes "life_inv m" and "dict_get (jm_threads m) jid = Some th" and "th_phase th = Live"
  obtains j where "job_get m jid = Some j" "j_status j = Running" "life_in jid m = Some Works"
proof -
  obtain j where j: "job_get m jid = Some j" "th_phase th = phase_of (j_status j)"
      "life_in jid m = Some (life_of (j_status j))"
    by (rule life_live [OF assms(1,2)])
  then have "j_status j = Running" using assms(3) phase_of_simps(2) by metis
  with j show thesis using that by simp
qed

lemma life_inv_upd:
  assumes "life_inv m" and "\<And>k. k \<noteq> jid \<Longrightarrow> life_in k m' = life_in k m"
    and "\<And>k. k \<noteq> jid \<Longrightarrow> map_option j_status (job_get m' k) = map_option j_status (job_get m k)"
    and "\<And>k. k \<noteq> jid \<Longrightarrow> map_option th_phase (dict_get (jm_threads m') k) = map_option th_phase (dict_get (jm_threads m) k)"
    and "map_option j_status (job_get m' jid) = Some s" and "life_in jid m' = Some (life_of s)"
    and "map_option th_phase (dict_get (jm_threads m') jid) = Some (phase_of s)"
  shows "life_inv m'"
proof -
  have "life_in k m' = Some (life_at (map_option j_status (job_get m' k))) \<and>
      map_option th_phase (dict_get (jm_threads m') k) = map_option phase_of (map_option j_status (job_get m' k))" for k
    using assms by (cases "k = jid") (auto simp: life_inv_def life_at_def)
  then show ?thesis by (simp add: life_inv_def)
qed

lemma life_inv_same:
  assumes "life_inv m" and "\<And>k. life_in k m' = life_in k m"
    and "\<And>k. map_option j_status (job_get m' k) = map_option j_status (job_get m k)"
    and "\<And>k. map_option th_phase (dict_get (jm_threads m') k) = map_option th_phase (dict_get (jm_threads m) k)"
  shows "life_inv m'"
  using assms by (simp add: life_inv_def)


text \<open>The graphs that reach \<open>submit\<close> were validated: their groups are declared.\<close>

definition submits_ok :: "job_action \<Rightarrow> bool" where
  "submits_ok a = (case a of Submit g draft \<Rightarrow> gate_graph g | _ \<Rightarrow> True)"

definition tables_of :: "graph \<Rightarrow> (out_key, string option) dict \<Rightarrow> (string, out_key list) dict \<Rightarrow> bool" where
  "tables_of g go pinned \<longleftrightarrow> go = dict_of ref_of o_group (g_outputs g) \<and> dict_ok pinned \<and>
     (\<forall>grp. dict_get pinned grp = sequence_of g grp)"

lemma begin_run_form:
  assumes "gate_graph (th_graph th)"
  obtains go pinned where "tables_of (th_graph th) go pinned"
    "begin_run jid th m = set_thread jid (th\<lparr>th_phase := Live, th_group_of := go, th_pinned := pinned,
       th_held := [], th_next := map (\<lambda>(g, ks). (g, 0)) pinned\<rparr>) (set_status jid Running m)"
proof -
  let ?orders = "dict_of grp_id grp_order (g_groups (th_graph th))" and ?rs = "g_outputs (th_graph th)"
  obtain go pinned where p: "pin_outputs ?orders ?rs [] [] = Inr (go, pinned)"
      "go = foldl (\<lambda>d r. dict_set (ref_of r) (o_group r) d) [] ?rs" "dict_ok pinned"
      "\<forall>grp. dict_get pinned grp = (if dict_get ?orders grp = Some ''pinned'' \<and> members ?rs grp \<noteq> []
        then Some (members ?rs grp) else None)"
    using pin_outputs_spec [of ?rs ?orders "[]" "[]"] assms by (auto simp: gate_graph_def)
  then have "tables_of (th_graph th) go pinned"
    by (auto simp: tables_of_def dict_of_def sequence_of_def pinned_group_def)
  moreover have "begin_run jid th m = set_thread jid (th\<lparr>th_phase := Live, th_group_of := go, th_pinned := pinned,
       th_held := [], th_next := map (\<lambda>(g, ks). (g, 0)) pinned\<rparr>) (set_status jid Running m)"
    using p(1) by (simp add: begin_run_def)
  ultimately show thesis using that by blast
qed

definition graphs_ok :: "manager \<Rightarrow> bool" where
  "graphs_ok m \<longleftrightarrow> (\<forall>jid th. dict_get (jm_threads m) jid = Some th \<longrightarrow> gate_graph (th_graph th))"

lemma life_output:
  assumes "life_inv m" and "dict_get (jm_threads m) jid = Some th" and "th_phase th = Live"
  shows "life_inv (on_output tok jid th eo m)"
proof -
  obtain j where j: "job_get m jid = Some j" "j_status j = Running" "life_in jid m = Some Works"
    by (rule life_running [OF assms])
  have l: "life_in k (announce_all tok jid grp eos m) = life_in k m" for k grp eos
    using life_announce_all [OF j(3)] life_invD [OF assms(1), of k] by metis
  from assms(2) show ?thesis
  proof (cases rule: on_output_form [where tok = tok and eo = eo])
    case (1 th' grp eos)
    then show ?thesis using assms(2,3) l
      by (auto simp: option.map_comp comp_def intro!: life_inv_same [OF assms(1)])
  next
    case (2 grp)
    show ?thesis unfolding 2 by (rule life_inv_same [OF assms(1)]) (simp_all only: l status_announce_all announce_all_fields)
  qed
qed

lemma life_node:
  assumes "life_inv m" and "dict_get (jm_threads m) jid = Some th" and "th_phase th = Live"
  shows "life_inv (on_node jid nid hit m)"
proof -
  obtain j where j: "job_get m jid = Some j" "j_status j = Running" "life_in jid m = Some Works"
    by (rule life_running [OF assms])
  have "life_in k (on_node jid nid hit m) = life_in k m" for k
  proof -
    obtain l where "life_in k m = Some l" using life_invD [OF assms(1)] .
    then show ?thesis using j(3) by (cases "k = jid") (simp_all add: on_node_def life_in_log life_status life_other)
  qed
  then show ?thesis by (intro life_inv_same [OF assms(1)]) simp_all
qed

lemma life_finish_run:
  assumes "life_inv m" and "dict_get (jm_threads m) jid = Some th" and "th_phase th = Live"
  shows "life_inv (finish_run xt jid th r m)"
proof -
  obtain j where j: "job_get m jid = Some j" "j_status j = Running" "life_in jid m = Some Works"
    by (rule life_running [OF assms])
  define s where "s = (case r of None \<Rightarrow> Completed | Some e \<Rightarrow> if e = ExecutionCancelled then Cancelled else Failed)"
  have s: "s \<in> terminal" by (auto simp: s_def terminal_def split: option.splits)
  obtain m1 d where m1: "finish_run xt jid th r m = set_thread jid (th\<lparr>th_phase := Ended\<rparr>)
      (log_event (closing_event s) ((''job'', JStr jid) # d) (set_status jid s m1))"
      "\<And>k. life_in k m1 = life_in k m" "\<And>k. map_option j_status (job_get m1 k) = map_option j_status (job_get m k)"
      "jm_threads m1 = jm_threads m"
  proof (cases r)
    case None
    show thesis by (rule that [of "[]" m]) (simp_all add: None finish_run_def s_def closing_event_def status_text_def)
  next
    case (Some e)
    show thesis
    proof (cases "e = ExecutionCancelled")
      case True
      show thesis by (rule that [of "[]" m])
          (simp_all add: Some True finish_run_def s_def closing_event_def status_text_def)
    next
      case False
      let ?m = "update_job jid (\<lambda>j. j\<lparr>j_error := Some (error_text xt e)\<rparr>) m"
      show thesis by (rule that [of "[(''error'', JStr (error_text xt e))]" ?m])
          (auto simp: Some False finish_run_def fail_job_def s_def closing_event_def status_text_def
            option.map_comp comp_def)
    qed
  qed
  have l: "life_in k (finish_run xt jid th r m) = (if k = jid then Some (Closed s) else life_in k m)" for k
  proof -
    obtain l where "life_in k m = Some l" using life_invD [OF assms(1)] .
    then show ?thesis using life_finish [of jid m1 s k] j(3) s m1(2) unfolding m1(1) by simp
  qed
  show ?thesis
  proof (rule life_inv_upd [OF assms(1), where jid = jid and s = s])
    have "map_option j_status (job_get m1 jid) = Some Running" using j m1(3) [of jid] by simp
    then obtain j1 where "job_get m1 jid = Some j1" by auto
    then show "map_option j_status (job_get (finish_run xt jid th r m) jid) = Some s" by (simp add: m1(1))
    show "life_in jid (finish_run xt jid th r m) = Some (life_of s)" using l s by simp
    show "map_option th_phase (dict_get (jm_threads (finish_run xt jid th r m)) jid) = Some (phase_of s)"
      using s by (auto simp: phase_of_def terminal_def)
    show "map_option j_status (job_get (finish_run xt jid th r m) k) = map_option j_status (job_get m k)" if "k \<noteq> jid" for k
      using that m1(3) [of k] by (simp add: m1(1))
    show "life_in k (finish_run xt jid th r m) = life_in k m" if "k \<noteq> jid" for k using that by (simp add: l)
  qed (simp add: m1(1,4))
qed

lemma life_begin:
  assumes "life_inv m" and "dict_get (jm_threads m) jid = Some th" and "th_phase th = Created"
    and "gate_graph (th_graph th)"
  shows "life_inv (begin_run jid th m)"
proof -
  obtain j where j: "job_get m jid = Some j" "th_phase th = phase_of (j_status j)"
      "life_in jid m = Some (life_of (j_status j))"
    by (rule life_live [OF assms(1,2)])
  then have p: "j_status j = Pending" using assms(3) phase_of_simps(1) by metis
  obtain go pinned where b0: "begin_run jid th m = set_thread jid (th\<lparr>th_phase := Live, th_group_of := go,
      th_pinned := pinned, th_held := [], th_next := map (\<lambda>(g, ks). (g, 0)) pinned\<rparr>) (set_status jid Running m)"
    by (rule begin_run_form [OF assms(4)])
  then obtain th' where b: "begin_run jid th m = set_thread jid th' (set_status jid Running m)" "th_phase th' = Live"
    by simp
  have l: "life_in k (begin_run jid th m) = (if k = jid then Some Works else life_in k m)" for k
  proof -
    obtain l where "life_in k m = Some l" using life_invD [OF assms(1)] .
    then show ?thesis using j(3) p unfolding b(1)
      by (cases "k = jid") (simp_all add: life_in_log life_status life_other)
  qed
  show ?thesis
  proof (rule life_inv_upd [OF assms(1), where jid = jid and s = Running])
    show "life_in jid (begin_run jid th m) = Some (life_of Running)" by (simp add: l)
    show "map_option j_status (job_get (begin_run jid th m) jid) = Some Running" using j(1) by (simp add: b(1))
    show "map_option th_phase (dict_get (jm_threads (begin_run jid th m)) jid) = Some (phase_of Running)"
      using b by (simp add: phase_of_def)
    show "life_in k (begin_run jid th m) = life_in k m" if "k \<noteq> jid" for k using that by (simp add: l)
  qed (simp_all add: b(1))
qed

lemma life_submit:
  assumes "life_inv m" and "job_get m (tok (jm_tokens m)) = None"
  shows "life_inv (snd (submit tok g draft m))"
proof -
  let ?jid = "tok (jm_tokens m)" and ?m = "snd (submit tok g draft m)"
  have u: "life_in ?jid m = Some Unborn" using assms by (simp add: life_inv_def life_at_def)
  have l: "life_in k ?m = (if k = ?jid then Some Waits else life_in k m)" for k
  proof -
    obtain l where "life_in k m = Some l" using life_invD [OF assms(1)] .
    then show ?thesis using u by (cases "k = ?jid") (simp_all add: life_in_log life_status life_other)
  qed
  show ?thesis
    by (rule life_inv_upd [OF assms(1), where jid = ?jid and s = Pending])
      (simp_all add: l new_job_def new_thread_def phase_of_def)
qed

lemma graphs_step:
  assumes "graphs_ok m" and "submits_ok a" and "job_step tok xt a m = Some m'"
  shows "graphs_ok m'"
  using assms(3)
proof (cases rule: job_stepE)
  case (emit jid th eo)
  have g: "gate_graph (th_graph th)" using assms(1) emit(2) by (auto simp: graphs_ok_def)
  have "on_output tok jid th eo m = m1 \<Longrightarrow> jm_threads m1 = jm_threads m \<or>
      (\<exists>th'. jm_threads m1 = dict_set jid th' (jm_threads m) \<and> th_graph th' = th_graph th)" for m1
    using flush_announces
    by (fastforce simp: on_output_def Let_def announce_simps split: option.splits prod.splits)
  then show ?thesis using assms(1) g emit(4) by (fastforce simp: graphs_ok_def split: if_splits)
qed (use assms(1,2) in \<open>auto simp: graphs_ok_def submits_ok_def new_thread_def begin_run_def Let_def
       split: if_splits sum.splits\<close>)

lemma life_step_inv:
  assumes inv: "life_inv m" and ids: "ids_inv tok ses0 m" "fresh_tokens tok ses0" and "graphs_ok m"
    and step: "job_step tok xt a m = Some m'"
  shows "life_inv m'"
  using step
proof (cases rule: job_stepE)
  case (submit g draft)
  show ?thesis unfolding submit using ids_new(2) [OF ids] by (intro life_submit [OF inv]) auto
next
  case (start jid th)
  then show ?thesis using assms(4) life_begin [OF inv] by (auto simp: graphs_ok_def)
next
  case (cancel jid)
  then show ?thesis by (intro life_inv_same [OF inv]) (simp_all add: option.map_comp comp_def)
next
  case (upload ty data)
  then show ?thesis by (intro life_inv_same [OF inv]) simp_all
next
  case shutdown
  have "map_option j_status (job_get (shutdown m) k) = map_option j_status (job_get m k)" for k
    by (cases "job_get m k") auto
  with shutdown show ?thesis by (intro life_inv_same [OF inv]) simp_all
qed (simp_all add: life_node [OF inv] life_output [OF inv] life_finish_run [OF inv])

section \<open>Every run of a session\<close>

theorem session_runs:
  assumes tok: "fresh_tokens tok ses0" and ok: "list_all submits_ok as"
    and run: "job_steps tok xt as (manager_init ses0) = Some m"
  shows "ids_inv tok ses0 m \<and> graphs_ok m \<and> life_inv m"
  using run ok
proof (induction rule: job_steps_induct)
  case start
  show ?case by (simp add: ids_init)
      (simp add: graphs_ok_def life_inv_def manager_init_def job_get_def life_in_def life_at_def)
next
  case (step as a m m')
  then show ?case
    using ids_step [OF _ tok] graphs_step life_step_inv [OF _ _ tok] by auto
qed

end
