(* ===== verification/JobGate.thy ===== *)
theory JobGate
  imports JobLife
begin

text \<open>
  The pinned-order gate of ADR 0014 in every interleaving: what a job has announced is, for
  each pinned group, the longest prefix of the group's declared sequence that has arrived, and
  everything else in the order of arrival; each announced payload holds what arrived.
\<close>

section \<open>What arrived and what it becomes\<close>

definition calls_in :: "string \<Rightarrow> job_action list \<Rightarrow> exec_call list" where
  "calls_in jid as = concat (map (\<lambda>a. case a of Call k c \<Rightarrow> if k = jid then [c] else [] | _ \<Rightarrow> []) as)"

definition outputs_of :: "exec_call list \<Rightarrow> exec_output list" where
  "outputs_of cs = concat (map (\<lambda>c. case c of OutputCall eo \<Rightarrow> [eo] | NodeCall n h \<Rightarrow> []) cs)"

definition arrived :: "string \<Rightarrow> job_action list \<Rightarrow> exec_output list" where
  "arrived jid as = outputs_of (calls_in jid as)"

lemma arrived_simps [simp]:
  "arrived jid [] = []"
  "arrived jid (as @ [Call k (OutputCall eo)]) = arrived jid as @ (if k = jid then [eo] else [])"
  "arrived jid (as @ [Call k (NodeCall n h)]) = arrived jid as"
  "arrived jid (as @ [Submit g b]) = arrived jid as" "arrived jid (as @ [Begin k]) = arrived jid as"
  "arrived jid (as @ [Finish k r]) = arrived jid as" "arrived jid (as @ [CancelJob k]) = arrived jid as"
  "arrived jid (as @ [Upload ty bs]) = arrived jid as" "arrived jid (as @ [Shutdown]) = arrived jid as"
  by (auto simp: arrived_def calls_in_def outputs_of_def)

definition ref_group :: "graph \<Rightarrow> out_key \<Rightarrow> string option" where
  "ref_group g k = (case dict_get (dict_of ref_of o_group (g_outputs g)) k of None \<Rightarrow> None | Some x \<Rightarrow> x)"

definition in_group :: "graph \<Rightarrow> string \<Rightarrow> exec_output \<Rightarrow> bool" where
  "in_group g grp eo \<longleftrightarrow> ref_group g (out_ref eo) = Some grp"

definition gated :: "graph \<Rightarrow> exec_output \<Rightarrow> bool" where
  "gated g eo \<longleftrightarrow> (case ref_group g (out_ref eo) of None \<Rightarrow> False | Some grp \<Rightarrow> sequence_of g grp \<noteq> None)"

definition delivers :: "graph \<Rightarrow> session \<Rightarrow> job_output \<Rightarrow> exec_output \<Rightarrow> bool" where
  "delivers g ses r eo \<longleftrightarrow> (jo_node r, jo_port r) = out_ref eo \<and> jo_type r = eo_type eo \<and>
     jo_group r = ref_group g (out_ref eo) \<and>
     get_payload ses (jo_payload r) = Some \<lparr>pl_id = jo_payload r, pl_type = eo_type eo, pl_data = eo_data eo\<rparr>"

lemma delivers_mono: "delivers g ses r eo \<Longrightarrow> get_payload ses \<subseteq>\<^sub>m get_payload ses' \<Longrightarrow> delivers g ses' r eo"
  by (auto simp: delivers_def map_le_def dom_def)

lemma all2_delivers_mono:
  "list_all2 (delivers g ses) rs eos \<Longrightarrow> get_payload ses \<subseteq>\<^sub>m get_payload ses' \<Longrightarrow> list_all2 (delivers g ses') rs eos"
  by (erule list_all2_mono) (rule delivers_mono)

lemma member_group:
  assumes "gate_graph g" and "k \<in> set (members (g_outputs g) grp)" shows "ref_group g k = Some grp"
proof -
  obtain r where r: "r \<in> set (g_outputs g)" "o_group r = Some grp" "ref_of r = k"
    using assms(2) by (auto simp: members_def)
  have "dict_get (dict_of ref_of o_group (g_outputs g)) (ref_of r) = Some (o_group r)"
    using assms(1) r(1) unfolding gate_graph_def by (intro dict_of_get_elem) blast+
  with r show ?thesis by (simp add: ref_group_def)
qed

lemma sequence_member:
  assumes "gate_graph g" and "sequence_of g grp = Some sq"
  shows "distinct sq" "k \<in> set sq \<Longrightarrow> ref_group g k = Some grp"
  using assms member_group [OF assms(1)] distinct_members
  by (auto simp: sequence_of_def gate_graph_def split: if_splits)

section \<open>The invariant of one group\<close>

definition group_inv ::
  "graph \<Rightarrow> string \<Rightarrow> out_key list \<Rightarrow> nat \<Rightarrow> (out_key, exec_output) dict \<Rightarrow> exec_output list \<Rightarrow> exec_output list \<Rightarrow> bool" where
  "group_inv g grp sq i buf arr ann \<longleftrightarrow> i \<le> length sq \<and>
     map out_ref (filter (in_group g grp) ann) = take i sq \<and> set (take i sq) \<subseteq> out_ref ` set arr \<and>
     (\<forall>k \<in> set (drop i sq). dict_get buf k \<noteq> None \<longleftrightarrow> k \<in> out_ref ` set arr) \<and>
     (i < length sq \<longrightarrow> dict_get buf (sq ! i) = None) \<and>
     (\<forall>k eo. dict_get buf k = Some eo \<longrightarrow> out_ref eo = k \<and> eo \<in> set arr)"

lemma group_inv_prefix:
  assumes "group_inv g grp sq i buf arr ann"
  shows "map out_ref (filter (in_group g grp) ann) = takeWhile (\<lambda>k. k \<in> out_ref ` set arr) sq"
proof -
  have "takeWhile (\<lambda>k. k \<in> out_ref ` set arr) (take i sq @ drop i sq) =
      take i sq @ takeWhile (\<lambda>k. k \<in> out_ref ` set arr) (drop i sq)"
    using assms by (intro takeWhile_append2) (auto simp: group_inv_def)
  moreover have "takeWhile (\<lambda>k. k \<in> out_ref ` set arr) (drop i sq) = []"
  proof (cases "i < length sq")
    case True
    then have "sq ! i \<in> set (drop i sq)" by (metis Cons_nth_drop_Suc list.set_intros(1))
    then have "sq ! i \<notin> out_ref ` set arr" using assms True by (auto simp: group_inv_def)
    then show ?thesis using True by (metis Cons_nth_drop_Suc takeWhile.simps(2))
  qed simp
  ultimately show ?thesis using assms by (simp add: group_inv_def)
qed

lemma group_inv_other:
  assumes g: "gate_graph g" "sequence_of g grp = Some sq"
    and inv: "group_inv g grp sq i buf arr ann" and "\<not> in_group g grp eo" and "\<forall>e \<in> set new. \<not> in_group g grp e"
  shows "group_inv g grp sq i buf (arr @ [eo]) (ann @ new)"
proof -
  have "out_ref eo \<notin> set sq" using sequence_member(2) [OF g] assms(4) unfolding in_group_def by blast
  then have "out_ref eo \<notin> set (drop i sq)" by (meson in_set_dropD)
  moreover have "filter (in_group g grp) (ann @ new) = filter (in_group g grp) ann" using assms(5) by simp
  ultimately show ?thesis using inv unfolding group_inv_def by auto
qed

lemma group_inv_arrive:
  fixes eo :: exec_output
  assumes g: "gate_graph g" "sequence_of g grp = Some sq" and inv: "group_inv g grp sq i buf arr ann"
  defines "buf1 \<equiv> dict_set (out_ref eo) eo buf"
  defines "ps \<equiv> present buf1 (drop i sq)"
  defines "new \<equiv> map (the \<circ> dict_get buf1) ps"
  shows "group_inv g grp sq (i + length ps) (foldl (\<lambda>b k. dict_pop k b) buf1 ps) (arr @ [eo]) (ann @ new)"
    and "\<forall>e \<in> set new. ref_group g (out_ref e) = Some grp \<and> e \<in> set (arr @ [eo])"
proof -
  note sq = sequence_member [OF g]
  have "dict_get buf k = Some e \<Longrightarrow> out_ref e = k \<and> e \<in> set arr" for k e
    using inv unfolding group_inv_def by blast
  then have buf1: "dict_get buf1 k = Some e \<Longrightarrow> out_ref e = k \<and> e \<in> set (arr @ [eo])" for k e
    unfolding buf1_def by (cases "k = out_ref eo") simp_all
  have ps: "ps = take (length ps) (drop i sq)" unfolding ps_def present_def by (rule takeWhile_eq_take)
  have pk: "\<exists>e. dict_get buf1 k = Some e \<and> out_ref e = k \<and> e \<in> set (arr @ [eo])" if "k \<in> set ps" for k
  proof -
    have "dict_get buf1 k \<noteq> None" using that unfolding ps_def present_def by (blast dest: set_takeWhileD)
    then show ?thesis using buf1 by blast
  qed
  have psq: "set ps \<subseteq> set sq" using ps by (metis in_set_dropD in_set_takeD subsetI)
  show new: "\<forall>e \<in> set new. ref_group g (out_ref e) = Some grp \<and> e \<in> set (arr @ [eo])"
    using pk psq sq(2) by (fastforce simp: new_def)
  have "out_ref (the (dict_get buf1 k)) = k" if "k \<in> set ps" for k using pk [OF that] by (metis option.sel)
  then have refs: "map out_ref new = ps" by (simp add: new_def map_idI)
  have i: "i \<le> length sq" "map out_ref (filter (in_group g grp) ann) = take i sq"
    using inv by (auto simp: group_inv_def)
  have tk: "take (i + length ps) sq = take i sq @ ps" using ps by (simp add: take_add)
  have "filter (in_group g grp) new = new" using new by (auto simp: in_group_def)
  then have c2: "map out_ref (filter (in_group g grp) (ann @ new)) = take (i + length ps) sq"
    using i(2) refs tk by simp
  have c1: "i + length ps \<le> length sq"
    using i(1) length_takeWhile_le [of _ "drop i sq"] by (simp add: ps_def present_def le_diff_conv2 add.commute)
  have c3: "set (take (i + length ps) sq) \<subseteq> out_ref ` set (arr @ [eo])"
  proof -
    have "set (take i sq) \<subseteq> out_ref ` set arr" using inv by (simp add: group_inv_def)
    moreover have "set ps \<subseteq> out_ref ` set (arr @ [eo])" using pk by blast
    ultimately show ?thesis unfolding tk by auto
  qed
  have c4: "dict_get (foldl (\<lambda>b k. dict_pop k b) buf1 ps) k \<noteq> None \<longleftrightarrow> k \<in> out_ref ` set (arr @ [eo])"
    if k: "k \<in> set (drop (i + length ps) sq)" for k
  proof -
    have "k \<in> set (drop i sq)" using k by (metis add.commute drop_drop in_set_dropD)
    then have "dict_get buf k \<noteq> None \<longleftrightarrow> k \<in> out_ref ` set arr" using inv by (simp add: group_inv_def)
    then have "dict_get buf1 k \<noteq> None \<longleftrightarrow> k \<in> out_ref ` set (arr @ [eo])" by (auto simp: buf1_def)
    moreover have "distinct (take (i + length ps) sq @ drop (i + length ps) sq)" using sq(1) by simp
    then have "k \<notin> set ps" using k unfolding distinct_append tk by auto
    ultimately show ?thesis by (simp add: foldl_pop_get)
  qed
  have c5: "dict_get (foldl (\<lambda>b k. dict_pop k b) buf1 ps) (sq ! (i + length ps)) = None"
    if "i + length ps < length sq"
  proof -
    have "length (takeWhile (\<lambda>k. dict_get buf1 k \<noteq> None) (drop i sq)) < length (drop i sq)"
      using that by (simp add: ps_def present_def)
    from nth_length_takeWhile [OF this] have "dict_get buf1 (sq ! (i + length ps)) = None"
      using i(1) by (simp add: ps_def present_def)
    then show ?thesis by (simp add: foldl_pop_get)
  qed
  show "group_inv g grp sq (i + length ps) (foldl (\<lambda>b k. dict_pop k b) buf1 ps) (arr @ [eo]) (ann @ new)"
    unfolding group_inv_def
  proof (intro conjI ballI impI allI)
    fix k e assume "dict_get (foldl (\<lambda>b k. dict_pop k b) buf1 ps) k = Some e"
    then have "dict_get buf1 k = Some e" by (simp add: foldl_pop_get split: if_splits)
    then show "out_ref e = k" "e \<in> set (arr @ [eo])" using buf1 by blast+
  qed (use c1 c2 c3 c4 c5 in blast)+
qed


section \<open>The invariant of a thread\<close>

definition gate_inv :: "graph \<Rightarrow> job_thread \<Rightarrow> exec_output list \<Rightarrow> exec_output list \<Rightarrow> bool" where
  "gate_inv g th arr ann \<longleftrightarrow> tables_of g (th_group_of th) (th_pinned th) \<and> set ann \<subseteq> set arr \<and>
     filter (\<lambda>eo. \<not> gated g eo) ann = filter (\<lambda>eo. \<not> gated g eo) arr \<and>
     (\<forall>grp sq. sequence_of g grp = Some sq \<longrightarrow>
        group_inv g grp sq (cursor_in th grp) (held_in th grp) arr ann)"

lemma group_for_ref: "tables_of g (th_group_of th) (th_pinned th) \<Longrightarrow> group_for th eo = ref_group g (out_ref eo)"
  by (simp add: group_for_def tables_of_def ref_group_def)

lemma gate_of_gated:
  assumes "tables_of g (th_group_of th) (th_pinned th)"
  shows "gate_of th eo = None \<longleftrightarrow> \<not> gated g eo"
    and "gate_of th eo = Some (grp, sq) \<longleftrightarrow> in_group g grp eo \<and> sequence_of g grp = Some sq"
proof -
  have t: "dict_get (th_pinned th) h = sequence_of g h" for h using assms by (simp add: tables_of_def)
  show "gate_of th eo = None \<longleftrightarrow> \<not> gated g eo"
    "gate_of th eo = Some (grp, sq) \<longleftrightarrow> in_group g grp eo \<and> sequence_of g grp = Some sq"
    by (auto simp: gate_of_def group_for_ref [OF assms] gated_def in_group_def t split: option.splits)
qed

text \<open>What \<open>on_output\<close> announces, and the gate it leaves.\<close>

lemma gate_arrive:
  assumes g: "gate_graph g" and inv: "gate_inv g th arr ann"
  obtains th' grp new where "on_output tok jid th eo m =
      (if gated g eo then set_thread jid th' (announce_all tok jid grp new m) else announce_all tok jid grp new m)"
    and "gate_inv g (if gated g eo then th' else th) (arr @ [eo]) (ann @ new)"
    and "\<forall>e \<in> set new. ref_group g (out_ref e) = grp" and "th_phase th' = th_phase th" "th_graph th' = th_graph th"
proof -
  have tb: "tables_of g (th_group_of th) (th_pinned th)" using inv by (simp add: gate_inv_def)
  note gt = gate_of_gated [OF tb, of eo]
  show thesis
  proof (cases "gated g eo")
    case False
    have "group_inv g grp sq (cursor_in th grp) (held_in th grp) (arr @ [eo]) (ann @ [eo])"
      if "sequence_of g grp = Some sq" for grp sq
    proof (rule group_inv_other [OF g that])
      show "group_inv g grp sq (cursor_in th grp) (held_in th grp) arr ann" using inv that by (simp add: gate_inv_def)
      show "\<not> in_group g grp eo" using False that by (auto simp: gated_def in_group_def)
      then show "\<forall>e \<in> set [eo]. \<not> in_group g grp e" by simp
    qed
    then have gi: "gate_inv g th (arr @ [eo]) (ann @ [eo])" using inv by (auto simp: gate_inv_def)
    have oo: "on_output tok jid th eo m = announce_all tok jid (ref_group g (out_ref eo)) [eo] m"
    proof -
      have "gate_of th eo = None" using gt(1) False by blast
      from on_output_free [OF this] show ?thesis by (simp only: group_for_ref [OF tb])
    qed
    show thesis
      by (rule that [of th "ref_group g (out_ref eo)" "[eo]"]) (simp_all only: False if_False oo gi list.set ball_simps)
  next
    case True
    then obtain grp sq where gs: "gate_of th eo = Some (grp, sq)" using gt(1) by (cases "gate_of th eo") auto
    then have s: "in_group g grp eo" "sequence_of g grp = Some sq" using gt(2) by auto
    note sq = sequence_member [OF g s(2)]
    define i where "i = cursor_in th grp"
    define buf where "buf = dict_set (out_ref eo) eo (held_in th grp)"
    define ps where "ps = present buf (drop i sq)"
    define new where "new = map (the \<circ> dict_get buf) ps"
    define left where "left = foldl (\<lambda>b k. dict_pop k b) buf ps"
    define th1 where "th1 = th\<lparr>th_held := dict_set grp left (th_held th),
       th_next := dict_set grp (i + length ps) (th_next th)\<rparr>"
    have "group_inv g grp sq i (held_in th grp) arr ann" using inv s(2) by (simp add: gate_inv_def i_def)
    note ar = group_inv_arrive [OF g s(2) this, of eo, folded buf_def, folded ps_def, folded new_def left_def]
    have th: "cursor_in th1 h = (if h = grp then i + length ps else cursor_in th h)"
      "held_in th1 h = (if h = grp then left else held_in th h)" for h
      by (simp_all add: cursor_in_def held_in_def th1_def)
    have "group_inv g h hs (cursor_in th1 h) (held_in th1 h) (arr @ [eo]) (ann @ new)"
      if "sequence_of g h = Some hs" for h hs
    proof (cases "h = grp")
      case True
      then show ?thesis using ar(1) s(2) that unfolding th by simp
    next
      case False
      have "group_inv g h hs (cursor_in th h) (held_in th h) (arr @ [eo]) (ann @ new)"
      proof (rule group_inv_other [OF g that])
        show "group_inv g h hs (cursor_in th h) (held_in th h) arr ann" using inv that by (simp add: gate_inv_def)
        show "\<not> in_group g h eo" using s(1) False by (simp add: in_group_def)
        show "\<forall>e \<in> set new. \<not> in_group g h e"
        proof
          fix e assume "e \<in> set new"
          then have "ref_group g (out_ref e) = Some grp" using ar(2) by blast
          then show "\<not> in_group g h e" using False by (simp add: in_group_def)
        qed
      qed
      then show ?thesis unfolding th using False by simp
    qed
    moreover have "filter (\<lambda>e. \<not> gated g e) new = []"
      using ar(2) s(2) unfolding filter_empty_conv gated_def by fastforce
    moreover have "set new \<subseteq> set (arr @ [eo])" using ar(2) by blast
    moreover have "th_group_of th1 = th_group_of th" "th_pinned th1 = th_pinned th" by (simp_all add: th1_def)
    ultimately have gi: "gate_inv g th1 (arr @ [eo]) (ann @ new)"
      using inv True unfolding gate_inv_def by auto
    have oo: "on_output tok jid th eo m = set_thread jid th1 (announce_all tok jid (Some grp) new m)"
      using on_output_gated [OF gs sq(1), of tok jid m]
      unfolding th1_def new_def left_def ps_def buf_def i_def .
    show thesis
      by (rule that [of th1 "Some grp" new]) (use True oo gi ar(2) in \<open>simp_all add: th1_def\<close>)
  qed
qed

section \<open>Every job of a session\<close>

definition deliver_at ::
  "exec_output list \<Rightarrow> session \<Rightarrow> job_thread option \<Rightarrow> job_output list option \<Rightarrow> bool" where
  "deliver_at arr ses tho outo \<longleftrightarrow> (case tho of
     None \<Rightarrow> arr = []
   | Some th \<Rightarrow> \<exists>os. outo = Some os \<and>
       (if th_phase th = Created then arr = [] \<and> os = []
        else \<exists>ann. list_all2 (delivers (th_graph th) ses) os ann \<and> gate_inv (th_graph th) th arr ann))"

definition deliver_inv :: "job_action list \<Rightarrow> manager \<Rightarrow> bool" where
  "deliver_inv as m \<longleftrightarrow> (\<forall>jid. deliver_at (arrived jid as) (jm_session m) (dict_get (jm_threads m) jid)
     (map_option j_outputs (job_get m jid)))"

lemma deliver_at_mono:
  "deliver_at arr ses tho outo \<Longrightarrow> get_payload ses \<subseteq>\<^sub>m get_payload ses' \<Longrightarrow> deliver_at arr ses' tho outo"
  unfolding deliver_at_def using all2_delivers_mono
  by (cases tho) (simp, (simp only: option.case if_bool_eq_conj), blast)

lemma deliver_inv_same:
  assumes "deliver_inv as m" and "get_payload (jm_session m) \<subseteq>\<^sub>m get_payload (jm_session m')"
    and "\<And>jid. arrived jid as' = arrived jid as" and "jm_threads m' = jm_threads m"
    and "\<And>jid. map_option j_outputs (job_get m' jid) = map_option j_outputs (job_get m jid)"
  shows "deliver_inv as' m'"
  using assms(1) deliver_at_mono [OF _ assms(2)] unfolding deliver_inv_def assms(3-5) by blast

lemma deliver_inv_upd:
  assumes "deliver_inv as m" and "get_payload (jm_session m) \<subseteq>\<^sub>m get_payload (jm_session m')"
    and "\<And>k. k \<noteq> jid \<Longrightarrow> arrived k as' = arrived k as"
    and "\<And>k. k \<noteq> jid \<Longrightarrow> dict_get (jm_threads m') k = dict_get (jm_threads m) k"
    and "\<And>k. k \<noteq> jid \<Longrightarrow> map_option j_outputs (job_get m' k) = map_option j_outputs (job_get m k)"
    and "deliver_at (arrived jid as') (jm_session m') (dict_get (jm_threads m') jid) (map_option j_outputs (job_get m' jid))"
  shows "deliver_inv as' m'"
  unfolding deliver_inv_def
proof
  fix k
  show "deliver_at (arrived k as') (jm_session m') (dict_get (jm_threads m') k) (map_option j_outputs (job_get m' k))"
  proof (cases "k = jid")
    case False
    then show ?thesis
      using assms(1) deliver_at_mono [OF _ assms(2)] assms(3-5) [OF False] unfolding deliver_inv_def by simp
  qed (use assms(6) in simp)
qed

lemma announce_all_delivers:
  assumes tok: "fresh_tokens tok ses0"
  shows "ids_inv tok ses0 m \<Longrightarrow> job_get m jid = Some j \<Longrightarrow> \<forall>e \<in> set eos. ref_group g (out_ref e) = grp \<Longrightarrow>
    \<exists>rs. map_option j_outputs (job_get (announce_all tok jid grp eos m) jid) = Some (j_outputs j @ rs) \<and>
      list_all2 (delivers g (jm_session (announce_all tok jid grp eos m))) rs eos"
proof (induction eos arbitrary: m j)
  case (Cons eo eos)
  let ?m = "announce tok jid eo grp m" and ?r = "output_record (tok (jm_tokens m)) eo grp"
  have d: "dom (job_get ?m) = dom (job_get m)" by (auto simp: dom_def)
  note p = ids_payload [OF Cons.prems(1) tok announce_simps(2) announce_simps(3) announce_simps(1) d]
  have r: "delivers g (jm_session ?m) ?r eo"
    using Cons.prems(3) by (simp add: delivers_def output_record_def out_ref_def get_payload_add)
  have j: "job_get ?m jid = Some (j\<lparr>j_outputs := j_outputs j @ [?r]\<rparr>)" using Cons.prems(2) by simp
  obtain rs where rs: "map_option j_outputs (job_get (announce_all tok jid grp eos ?m) jid) =
      Some (j_outputs j @ [?r] @ rs)" "list_all2 (delivers g (jm_session (announce_all tok jid grp eos ?m))) rs eos"
    using Cons.IH [OF p(1) j] Cons.prems(3) by auto
  have "delivers g (jm_session (announce_all tok jid grp eos ?m)) ?r eo"
    using delivers_mono [OF r] ids_announce_all [OF tok p(1)] by blast
  with rs show ?case by (intro exI [of _ "?r # rs"]) simp
qed simp

lemma map_option_outputs [simp]:
  "map_option j_outputs (map_option (\<lambda>j. j\<lparr>j_status := s\<rparr>) x) = map_option j_outputs x"
  "map_option j_outputs (map_option (\<lambda>j. j\<lparr>j_error := e\<rparr>) x) = map_option j_outputs x"
  "map_option j_outputs (map_option (\<lambda>j. j\<lparr>j_cancel := c\<rparr>) x) = map_option j_outputs x"
  by (cases x; simp)+

lemma deliver_output:
  assumes inv: "deliver_inv as m" and ids: "ids_inv tok ses0 m" and tok: "fresh_tokens tok ses0"
    and gr: "graphs_ok m" and th: "dict_get (jm_threads m) jid = Some th" "th_phase th = Live"
  shows "deliver_inv (as @ [Call jid (OutputCall eo)]) (on_output tok jid th eo m)"
proof -
  let ?g = "th_graph th" and ?arr = "arrived jid as"
  have g: "gate_graph ?g" using gr th(1) by (auto simp: graphs_ok_def)
  have "deliver_at ?arr (jm_session m) (Some th) (map_option j_outputs (job_get m jid))"
    using inv th(1) unfolding deliver_inv_def by metis
  then obtain j ann where j: "job_get m jid = Some j"
      and ann: "list_all2 (delivers ?g (jm_session m)) (j_outputs j) ann" "gate_inv ?g th ?arr ann"
    using th(2) by (auto simp: deliver_at_def)
  obtain th' grp new where o: "on_output tok jid th eo m = (if gated ?g eo
        then set_thread jid th' (announce_all tok jid grp new m) else announce_all tok jid grp new m)"
      "gate_inv ?g (if gated ?g eo then th' else th) (?arr @ [eo]) (ann @ new)"
      "\<forall>e \<in> set new. ref_group ?g (out_ref e) = grp" "th_phase th' = th_phase th" "th_graph th' = ?g"
    by (rule gate_arrive [OF g ann(2)])
  let ?m = "announce_all tok jid grp new m"
  obtain rs where rs: "map_option j_outputs (job_get ?m jid) = Some (j_outputs j @ rs)"
      "list_all2 (delivers ?g (jm_session ?m)) rs new"
    using announce_all_delivers [OF tok ids j o(3)] by blast
  have le: "get_payload (jm_session m) \<subseteq>\<^sub>m get_payload (jm_session ?m)" using ids_announce_all [OF tok ids] by blast
  have "list_all2 (delivers ?g (jm_session ?m)) (j_outputs j @ rs) (ann @ new)"
    by (intro list_all2_appendI rs(2) all2_delivers_mono [OF ann(1) le])
  then have at: "deliver_at (?arr @ [eo]) (jm_session ?m) (Some (if gated ?g eo then th' else th))
      (map_option j_outputs (job_get ?m jid))"
    using o(2,4,5) th(2) unfolding deliver_at_def rs(1) by (auto split: if_splits)
  have "map_option j_outputs (job_get ?m k) = map_option j_outputs (job_get m k)" if "k \<noteq> jid" for k
    using that job_get_announce_all [of tok jid grp new m k] by auto
  then show ?thesis
    using le at th(1) by (cases "gated ?g eo"; intro deliver_inv_upd [OF inv, where jid = jid]) (simp_all add: o(1))
qed


lemma deliver_begin:
  assumes inv: "deliver_inv as m" and gr: "graphs_ok m" and life: "life_inv m"
    and th: "dict_get (jm_threads m) jid = Some th" "th_phase th = Created"
  shows "deliver_inv (as @ [Begin jid]) (begin_run jid th m)"
proof -
  let ?g = "th_graph th"
  have g: "gate_graph ?g" using gr th(1) by (auto simp: graphs_ok_def)
  obtain go pinned where tb: "tables_of ?g go pinned" and b: "begin_run jid th m = set_thread jid (th\<lparr>th_phase := Live,
      th_group_of := go, th_pinned := pinned, th_held := [], th_next := map (\<lambda>(g, ks). (g, 0)) pinned\<rparr>)
      (set_status jid Running m)"
    by (rule begin_run_form [OF g])
  have d: "deliver_at (arrived jid as) (jm_session m) (Some th) (map_option j_outputs (job_get m jid))"
    using inv th(1) unfolding deliver_inv_def by metis
  then have e: "arrived jid as = []" "map_option j_outputs (job_get m jid) = Some []"
    using th(2) by (auto simp: deliver_at_def)
  have "map_of (map (\<lambda>(g, ks). (g, 0 :: nat)) ps) x = map_option (\<lambda>ks. 0) (map_of ps x)" for ps :: "(string, out_key list) dict" and x
    by (induction ps) auto
  then have "gate_inv ?g (th\<lparr>th_phase := Live, th_group_of := go, th_pinned := pinned, th_held := [],
      th_next := map (\<lambda>(g, ks). (g, 0)) pinned\<rparr>) [] []"
    using tb by (auto simp: gate_inv_def group_inv_def cursor_in_def held_in_def split: option.splits)
  then show ?thesis
    unfolding b using e th(2) by (intro deliver_inv_upd [OF inv, where jid = jid]) (auto simp: deliver_at_def)
qed

lemma deliver_submit:
  assumes inv: "deliver_inv as m" and ids: "ids_inv tok ses0 m" and tok: "fresh_tokens tok ses0"
  shows "deliver_inv (as @ [Submit g draft]) (snd (submit tok g draft m))"
proof -
  let ?jid = "tok (jm_tokens m)"
  have "dict_get (jm_threads m) ?jid = None"
    using ids_new(2) [OF ids tok] ids by (auto simp: ids_inv_def domIff)
  then have "arrived ?jid as = []" using inv by (auto simp: deliver_inv_def deliver_at_def split: option.splits)
      (metis option.distinct(1))
  then show ?thesis
    by (intro deliver_inv_upd [OF inv, where jid = ?jid]) (simp_all add: deliver_at_def new_thread_def new_job_def)
qed

lemma deliver_finish:
  assumes inv: "deliver_inv as m" and th: "dict_get (jm_threads m) jid = Some th" "th_phase th = Live"
  shows "deliver_inv (as @ [Finish jid r]) (finish_run xt jid th r m)"
proof -
  have "deliver_at (arrived jid as) (jm_session m) (Some th) (map_option j_outputs (job_get m jid))"
    using inv th(1) unfolding deliver_inv_def by metis
  then have d: "deliver_at (arrived jid as) (jm_session m) (Some (th\<lparr>th_phase := Ended\<rparr>)) (map_option j_outputs (job_get m jid))"
    using th(2) by (auto simp: deliver_at_def gate_inv_def group_for_def cursor_in_def held_in_def)
  have o: "map_option j_outputs (job_get (finish_run xt jid th r m) k) = map_option j_outputs (job_get m k)" for k
    by (auto simp: finish_run_def fail_job_def split: option.splits)
  show ?thesis
    using d th(1) by (intro deliver_inv_upd [OF inv, where jid = jid]) (simp_all add: o)
qed

lemma deliver_step:
  assumes inv: "deliver_inv as m" and ids: "ids_inv tok ses0 m" and tok: "fresh_tokens tok ses0"
    and gr: "graphs_ok m" and life: "life_inv m" and step: "job_step tok xt a m = Some m'"
  shows "deliver_inv (as @ [a]) m'"
  using step
proof (cases rule: job_stepE)
  case (submit g draft)
  show ?thesis unfolding submit by (rule deliver_submit [OF inv ids tok])
next
  case (start jid th)
  then show ?thesis using deliver_begin [OF inv gr life] by simp
next
  case (node jid th nid hit)
  then show ?thesis by (intro deliver_inv_same [OF inv]) simp_all
next
  case (emit jid th eo)
  then show ?thesis using deliver_output [OF inv ids tok gr] by simp
next
  case (finish jid th r)
  then show ?thesis using deliver_finish [OF inv] by simp
next
  case (cancel jid)
  then show ?thesis by (intro deliver_inv_same [OF inv]) simp_all
next
  case (upload ty data)
  have "get_payload (jm_session m) \<subseteq>\<^sub>m get_payload (jm_session m')" using ids_step [OF ids tok step] by blast
  with upload show ?thesis by (intro deliver_inv_same [OF inv]) simp_all
next
  case shutdown
  have "map_option j_outputs (job_get (shutdown m) k) = map_option j_outputs (job_get m k)" for k
    by (cases "job_get m k") auto
  with shutdown show ?thesis by (intro deliver_inv_same [OF inv]) simp_all
qed

theorem session_delivers:
  assumes tok: "fresh_tokens tok ses0" and ok: "list_all submits_ok as"
    and run: "job_steps tok xt as (manager_init ses0) = Some m"
  shows "deliver_inv as m"
  using run ok
proof (induction rule: job_steps_induct)
  case start
  show ?case by (simp add: deliver_inv_def deliver_at_def manager_init_def)
next
  case (step as a m m')
  then show ?case using deliver_step [OF _ _ tok] session_runs [OF tok _ step(1)] by auto
qed

end
