(* ===== verification/ExecRun.thy ===== *)
theory ExecRun
  imports ExecData
begin

text \<open>
  How an execution ends: the outputs are those of the sequential evaluation without a cache,
  errors are the modules' own or the cancellation, every node is reported once and after the
  nodes it depends on, and no more than \<open>pool_size\<close> tasks run at a time.
\<close>

section \<open>The sequential evaluation\<close>

fun eval_nodes ::
  "exec_env \<Rightarrow> string list \<Rightarrow> (string, string) dict \<Rightarrow> (string, results) dict \<Rightarrow>
     exec_error + (string, string) dict \<times> (string, results) dict" where
  "eval_nodes env [] nkeys nresults = Inr (nkeys, nresults)"
| "eval_nodes env (n # ns) nkeys nresults =
     ebind (node_lookup env n) (\<lambda>(nd, md).
     ebind (gather env nkeys nresults n (m_inputs (mod_manifest md)) [] []) (\<lambda>(keys, inputs).
       case mod_run md inputs (nd_params nd) (e_draft env) of
         Inl x \<Rightarrow> Inl (RunRaised x)
       | Inr res \<Rightarrow>
           (case contract_error (mod_manifest md) res of
              Some e \<Rightarrow> Inl e
            | None \<Rightarrow>
                eval_nodes env ns (dict_set n (task_key env nd (mod_manifest md) keys) nkeys)
                  (dict_set n res nresults))))"

fun read_outputs :: "output_ref list \<Rightarrow> (string, results) dict \<Rightarrow> exec_error + exec_output list" where
  "read_outputs [] nresults = Inr []"
| "read_outputs (r # rs) nresults =
     (case Option.bind (dict_get nresults (o_node r)) (\<lambda>res. output_of (o_node r) res (o_port r)) of
        None \<Rightarrow> Inl (KeyErr [o_node r, o_port r])
      | Some eo \<Rightarrow> ebind (read_outputs rs nresults) (\<lambda>os. Inr (eo # os)))"

definition sequential_outputs :: "exec_env \<Rightarrow> exec_error + exec_output list" where
  "sequential_outputs env = (case topological_order (e_graph env) of
     None \<Rightarrow> Inl AssertionFailed
   | Some order \<Rightarrow>
       ebind (eval_nodes env order [] []) (\<lambda>(nkeys, nresults).
         read_outputs (g_outputs (e_graph env)) nresults))"

lemma bound_det: "bound_to env n p kd \<Longrightarrow> bound_to env n p kd' \<Longrightarrow> kd' = kd"
  by (auto simp: bound_to_def)

lemma bound_not_wired: "bound_to env n p kd \<Longrightarrow> \<not> wired_to env n p src sp"
  by (auto simp: bound_to_def wired_to_def)

lemma wired_det: "wired_to env n p src sp \<Longrightarrow> wired_to env n p src' sp' \<Longrightarrow> src' = src \<and> sp' = sp"
  by (auto simp: wired_to_def)

lemma fed_det:
  assumes "fed_with env n p kd'" and "bound_to env n p kd \<or> (\<exists>src sp res r. wired_to env n p src sp \<and>
        (\<forall>x xa. val env src x xa \<longrightarrow> x = fst kd \<and> xa = res) \<and>
        dict_get res sp = Some r \<and> snd kd = r_data r)"
  shows "kd' = kd"
  using assms(2)
proof (elim disjE exE conjE)
  assume "bound_to env n p kd"
  then show ?thesis
    using assms(1) bound_det [of env n p kd kd'] bound_not_wired [of env n p kd] unfolding fed_with_def by blast
next
  fix src sp res r
  assume a: "wired_to env n p src sp" "\<forall>x xa. val env src x xa \<longrightarrow> x = fst kd \<and> xa = res"
    "dict_get res sp = Some r" "snd kd = r_data r"
  then obtain res' r' where b: "val env src (fst kd') res'" "dict_get res' sp = Some r'" "snd kd' = r_data r'"
    using assms(1) bound_not_wired [of env n p kd'] wired_det [OF a(1)] unfolding fed_with_def by blast
  then have "fst kd' = fst kd" "res' = res" using a(2) by blast+
  then show ?thesis using a b by (simp add: prod_eq_iff)
qed

lemma val_det: "val env n k res \<Longrightarrow> val env n k' res' \<Longrightarrow> k' = k \<and> res' = res"
proof (induction arbitrary: k' res' rule: val.induct)
  case (val_node n nd md kds res)
  obtain nd' md' kds' where h: "hashes env n nd' md' kds'"
      "k' = task_key env nd' (mod_manifest md') (map fst kds')"
      "mod_run md' (inputs_of (m_inputs (mod_manifest md')) kds') (nd_params nd') (e_draft env) = Inr res'"
    using val_node.prems unfolding val_iff by blast
  have same: "nd' = nd" "md' = md" using h(1) val_node.hyps(1) by (simp_all add: hashes_def)
  have "kds' ! i = kds ! i" if i: "i < length kds" for i
  proof -
    let ?p = "m_inputs (mod_manifest md) ! i"
    have "fed_with env n ?p (kds' ! i)"
      using h(1) same i val_node.IH unfolding hashes_def by (simp add: list_all2_conv_all_nth)
    moreover have "bound_to env n ?p (kds ! i) \<or> (\<exists>src sp res r. wired_to env n ?p src sp \<and>
        (\<forall>x xa. val env src x xa \<longrightarrow> x = fst (kds ! i) \<and> xa = res) \<and>
        dict_get res sp = Some r \<and> snd (kds ! i) = r_data r)"
      using list_all2_nthD2 [OF val_node.IH i] by blast
    ultimately show ?thesis by (rule fed_det)
  qed
  moreover have "length kds' = length kds"
    using h(1) same val_node.IH unfolding hashes_def by (simp add: list_all2_conv_all_nth)
  ultimately have "kds' = kds" by (intro nth_equalityI) simp_all
  then show ?case using h same val_node.hyps(2) by simp
qed

lemma hashes_det:
  assumes "hashes env n nd md kds" and "hashes env n nd' md' kds'"
  shows "nd' = nd \<and> md' = md \<and> kds' = kds"
proof -
  have same: "nd' = nd" "md' = md" using assms by (simp_all add: hashes_def)
  have len: "length kds' = length kds"
    using assms same unfolding hashes_def by (simp add: list_all2_conv_all_nth)
  have "kds' ! i = kds ! i" if i: "i < length kds" for i
  proof -
    have "fed_with env n (m_inputs (mod_manifest md) ! i) (kds ! i)"
      "fed_with env n (m_inputs (mod_manifest md) ! i) (kds' ! i)"
      using assms same i len unfolding hashes_def by (simp_all add: list_all2_conv_all_nth)
    then show ?thesis
      using fed_det [of env n _ "kds' ! i" "kds ! i"] val_det unfolding fed_with_def by blast
  qed
  then show ?thesis using same len by (auto intro: nth_equalityI)
qed

lemma val_not_fails: "val env n k res \<Longrightarrow> \<not> fails_with env n e"
  unfolding val_iff fails_with_def by (auto dest: hashes_det)

definition has_val :: "exec_env \<Rightarrow> string \<Rightarrow> bool" where
  "has_val env n \<longleftrightarrow> (\<exists>k res. val env n k res)"

lemma vals_ok_set:
  "vals_ok env nkeys nresults V \<Longrightarrow> val env n k res \<Longrightarrow>
     vals_ok env (dict_set n k nkeys) (dict_set n res nresults) (insert n V)"
  by (auto simp: vals_ok_def)

lemma vals_ok_mono: "vals_ok env nkeys nresults V \<Longrightarrow> W \<subseteq> V \<Longrightarrow> vals_ok env nkeys nresults W"
  by (auto simp: vals_ok_def)

lemma edges_forward_preds:
  "edges_forward (dep_edges g) (acc @ n # ns) \<Longrightarrow> preds g n \<subseteq> set acc"
  unfolding edges_forward_def preds_def by blast

lemma eval_nodes_val:
  assumes ok: "env_ok env" and fw: "edges_forward (dep_edges (e_graph env)) (acc @ ns)"
    and sub: "set ns \<subseteq> node_ids (e_graph env)" and v: "vals_ok env nkeys nresults (set acc)"
  shows "(\<forall>n \<in> set ns. has_val env n) \<longleftrightarrow>
    (\<exists>r. eval_nodes env ns nkeys nresults = Inr r)"
    and "eval_nodes env ns nkeys nresults = Inr (nkeys', nresults') \<Longrightarrow>
      vals_ok env nkeys' nresults' (set (acc @ ns))"
proof -
  have "((\<forall>n \<in> set ns. has_val env n) \<longleftrightarrow> (\<exists>r. eval_nodes env ns nkeys nresults = Inr r)) \<and>
    (eval_nodes env ns nkeys nresults = Inr (nkeys', nresults') \<longrightarrow>
      vals_ok env nkeys' nresults' (set (acc @ ns)))"
    using fw sub v
  proof (induction ns arbitrary: acc nkeys nresults)
    case (Cons n ns)
    obtain nd md where l: "node_lookup env n = Inr (nd, md)"
      using env_ok_lookup [OF ok] Cons.prems(2) by auto
    have p: "vals_ok env nkeys nresults (preds (e_graph env) n)"
      using vals_ok_mono [OF Cons.prems(3) edges_forward_preds [OF Cons.prems(1)]] .
    obtain kds where h: "hashes env n nd md kds" and g: "gather env nkeys nresults n (m_inputs (mod_manifest md)) [] [] =
        Inr (map fst kds, inputs_of (m_inputs (mod_manifest md)) kds)"
      using gather_ok [OF ok l p] .
    let ?k = "task_key env nd (mod_manifest md) (map fst kds)"
    let ?run = "mod_run md (inputs_of (m_inputs (mod_manifest md)) kds) (nd_params nd) (e_draft env)"
    show ?case
    proof (cases "\<exists>res. ?run = Inr res \<and> contract_error (mod_manifest md) res = None")
      case True
      then obtain res where r: "?run = Inr res" "contract_error (mod_manifest md) res = None" by blast
      have v: "val env n ?k res" unfolding val_iff using h r by blast
      have "has_val env n" using v by (auto simp: has_val_def)
      then show ?thesis
        using Cons.IH [of "acc @ [n]" "dict_set n ?k nkeys" "dict_set n res nresults"] Cons.prems
          vals_ok_set [OF Cons.prems(3) v] by (simp add: l g r)
    next
      case False
      have "\<not> has_val env n" unfolding has_val_def val_iff using False h hashes_det by blast
      moreover have "\<exists>e. eval_nodes env (n # ns) nkeys nresults = Inl e"
        using False by (cases ?run) (auto simp: l g split: option.splits)
      ultimately show ?thesis by auto
    qed
  qed auto
  then show "(\<forall>n \<in> set ns. has_val env n) \<longleftrightarrow> (\<exists>r. eval_nodes env ns nkeys nresults = Inr r)"
    and "eval_nodes env ns nkeys nresults = Inr (nkeys', nresults') \<Longrightarrow>
      vals_ok env nkeys' nresults' (set (acc @ ns))" by blast+
qed

lemma topological_order_forward:
  assumes "env_ok env" and "topological_order (e_graph env) = Some order"
  shows "edges_forward (dep_edges (e_graph env)) order \<and> set order = node_ids (e_graph env) \<and> distinct order"
proof -
  have "edges_closed (e_graph env)" using valid_edges_closed assms(1) unfolding env_ok_def .
  then have "fst ` set (dep_edges (e_graph env)) \<union> snd ` set (dep_edges (e_graph env)) \<subseteq> node_ids (e_graph env)"
    by (auto simp: edges_closed_def)
  then show ?thesis
    using topological_order_Some [OF assms(2)] by (auto simp: node_ids_def)
qed

lemma env_ok_order: "env_ok env \<Longrightarrow> \<exists>order. topological_order (e_graph env) = Some order"
  using topological_order_None [of "e_graph env"] by (auto simp: env_ok_def valid_graph_def)

definition node_output :: "exec_env \<Rightarrow> string \<Rightarrow> string \<Rightarrow> exec_output \<Rightarrow> bool" where
  "node_output env n p eo \<longleftrightarrow> (\<exists>k res. val env n k res \<and> output_of n res p = Some eo)"

lemma read_outputs_val:
  assumes ok: "env_ok env" and v: "vals_ok env nkeys nresults (node_ids (e_graph env))"
    and rs: "set rs \<subseteq> set (g_outputs (e_graph env))"
  shows "\<exists>os. read_outputs rs nresults = Inr os \<and>
    list_all2 (\<lambda>r eo. node_output env (o_node r) (o_port r) eo) rs os"
  using rs
proof (induction rs)
  case (Cons r rs)
  have "(o_node r, o_port r) \<in> set (node_outputs (e_graph env) (o_node r))"
    using Cons.prems by (auto simp: node_outputs_filter)
  then obtain ty where ty: "node_has_output (e_reg env) (e_graph env) (o_node r) (o_port r) ty"
    using node_outputs_has_output [OF ok] by blast
  then have "o_node r \<in> node_ids (e_graph env)" by (rule node_has_output_id)
  then obtain k res where kr: "dict_get nresults (o_node r) = Some res" "val env (o_node r) k res"
    using v by (auto simp: vals_ok_def)
  then obtain x where "dict_get res (o_port r) = Some x" using val_has_output [OF ok ty] by blast
  then obtain eo where "output_of (o_node r) res (o_port r) = Some eo" by (simp add: output_of_def)
  moreover obtain os where "read_outputs rs nresults = Inr os"
      "list_all2 (\<lambda>r eo. node_output env (o_node r) (o_port r) eo) rs os"
    using Cons by auto
  ultimately show ?case using kr by (auto simp: node_output_def)
qed simp

lemma node_output_det: "node_output env n p eo \<Longrightarrow> node_output env n p eo' \<Longrightarrow> eo' = eo"
  unfolding node_output_def using val_det by fastforce

lemma node_outputs_det:
  "list_all2 (\<lambda>r eo. node_output env (o_node r) (o_port r) eo) rs os \<Longrightarrow>
     list_all2 (\<lambda>r eo. node_output env (o_node r) (o_port r) eo) rs os' \<Longrightarrow> os' = os"
proof (induction rs os arbitrary: os' rule: list_all2_induct)
  case (Cons r rs eo os)
  then obtain eo' os'' where "os' = eo' # os''" "node_output env (o_node r) (o_port r) eo'"
      "list_all2 (\<lambda>r eo. node_output env (o_node r) (o_port r) eo) rs os''"
    by (auto simp: list_all2_Cons1)
  then show ?case using Cons node_output_det by blast
qed simp

theorem sequential_outputs_spec:
  assumes ok: "env_ok env"
  shows "sequential_outputs env = Inr os \<longleftrightarrow> (\<forall>n \<in> node_ids (e_graph env). has_val env n) \<and>
    list_all2 (\<lambda>r eo. node_output env (o_node r) (o_port r) eo) (g_outputs (e_graph env)) os"
proof -
  obtain order where o: "topological_order (e_graph env) = Some order" using env_ok_order [OF ok] by blast
  have f: "edges_forward (dep_edges (e_graph env)) ([] @ order)" "set order = node_ids (e_graph env)"
    using topological_order_forward [OF ok o] by simp_all
  have v0: "vals_ok env [] [] (set [])" by (simp add: vals_ok_def)
  show ?thesis
  proof (cases "\<exists>r. eval_nodes env order [] [] = Inr r")
    case True
    then obtain nk nr where e: "eval_nodes env order [] [] = Inr (nk, nr)" by auto
    have "vals_ok env nk nr (node_ids (e_graph env))"
      using eval_nodes_val(2) [OF ok f(1) _ v0 e] f(2) by simp
    from read_outputs_val [OF ok this subset_refl] obtain os' where
      os': "read_outputs (g_outputs (e_graph env)) nr = Inr os'"
      "list_all2 (\<lambda>r eo. node_output env (o_node r) (o_port r) eo) (g_outputs (e_graph env)) os'"
      by blast
    have "\<forall>n \<in> node_ids (e_graph env). has_val env n"
      using eval_nodes_val(1) [OF ok f(1) _ v0] True f(2) by simp
    moreover have "sequential_outputs env = Inr os'" by (simp add: sequential_outputs_def o e os')
    moreover have "os = os'"
      if "list_all2 (\<lambda>r eo. node_output env (o_node r) (o_port r) eo) (g_outputs (e_graph env)) os"
      using node_outputs_det [OF os'(2) that] .
    ultimately show ?thesis using os'(2) by auto
  next
    case False
    then obtain e where "eval_nodes env order [] [] = Inl e" by (cases "eval_nodes env order [] []") auto
    then have "sequential_outputs env = Inl e" by (simp add: sequential_outputs_def o)
    moreover have "\<not> (\<forall>n \<in> node_ids (e_graph env). has_val env n)"
      using eval_nodes_val(1) [OF ok f(1) _ v0] False f(2) by simp
    ultimately show ?thesis by simp
  qed
qed

section \<open>How an execution ends\<close>

lemma all_done:
  assumes s: "sched_inv g st" and "x_ready st = []" "x_in_flight st = []" and pc: "\<not> failing_pc (x_pc st)"
    and cl: "edges_closed g" and ac: "acyclic (set (dep_edges g))"
  shows "node_ids g \<subseteq> done_ok st"
proof
  fix n assume "n \<in> node_ids g"
  have "wf (set (dep_edges g))" using ac by (intro finite_acyclic_wf) simp_all
  then show "n \<in> done_ok st" using \<open>n \<in> node_ids g\<close>
  proof (induction n rule: wf_induct_rule)
    case (less n)
    have "preds g n \<subseteq> done_ok st"
      using less edges_closed_preds [OF cl] by (auto simp: preds_def)
    then have "n \<in> submitted st" using s less.prems assms(2) unfolding sched_inv_def by simp
    then show ?case using s pc assms(3) unfolding sched_inv_def by auto
  qed
qed

definition end_inv :: "exec_env \<Rightarrow> exec_state \<Rightarrow> bool" where
  "end_inv env st \<longleftrightarrow> (case x_pc st of
     Closing (Some e) \<Rightarrow> e = ExecutionCancelled \<and> x_cancel st \<or> (\<exists>n. fails_with env n e)
   | Raised e \<Rightarrow> list_all finished (dict_values (x_tasks st)) \<and>
       (e = ExecutionCancelled \<and> x_cancel st \<or> (\<exists>n. fails_with env n e))
   | Returned rep \<Rightarrow> list_all finished (dict_values (x_tasks st)) \<and>
       collect_outputs (g_outputs (e_graph env)) (x_emitted st) = Inr (rep_outputs rep) \<and>
       rep_executed rep = x_executed st \<and> rep_cached rep = x_cached st
   | AwaitAll \<Rightarrow> x_cancel st
   | _ \<Rightarrow> True)"

lemma collect_outputs_val:
  assumes ok: "env_ok env" and inv: "data_inv E env st" and d: "node_ids (e_graph env) \<subseteq> done_ok st"
    and rs: "set rs \<subseteq> set (g_outputs (e_graph env))"
  shows "\<exists>os. collect_outputs rs (x_emitted st) = Inr os \<and>
    list_all2 (\<lambda>r eo. node_output env (o_node r) (o_port r) eo) rs os"
  using rs
proof (induction rs)
  case (Cons r rs)
  let ?n = "o_node r"
  have ref: "(?n, o_port r) \<in> set (node_outputs (e_graph env) ?n)"
    using Cons.prems by (auto simp: node_outputs_filter)
  then have "?n \<in> node_ids (e_graph env)"
    using node_outputs_has_output [OF ok] node_has_output_id by blast
  then have "dict_get (x_tasks st) ?n = Some (Finished None)" using d by (auto simp: done_ok_def)
  then obtain res where ev: "emitting_view env ?n res [] (view st ?n)"
    using task_view_task [OF inv] by (fastforce simp: task_view_def)
  then have "(?n, o_port r) \<in> out_ref ` set (v_outs (view st ?n))"
    using ref by (auto simp: emitting_view_def simp flip: set_map)
  then obtain eo where "eo \<in> set (v_outs (view st ?n))" "eo_port eo = o_port r" by (auto simp: out_ref_def)
  then have em: "v_emitted (view st ?n) (o_port r) = Some eo" using ev by (auto simp: emitting_view_def)
  then have "node_output env ?n (o_port r) eo"
    using ev unfolding emitting_view_def recorded_view_def node_output_def by blast
  moreover have "dict_get (x_emitted st) (?n, o_port r) = Some eo" using em by (simp add: view_def)
  moreover obtain os where "collect_outputs rs (x_emitted st) = Inr os"
      "list_all2 (\<lambda>r eo. node_output env (o_node r) (o_port r) eo) rs os"
    using Cons by auto
  ultimately show ?case by auto
qed simp

lemma no_task_step:
  assumes "list_all finished (dict_values (x_tasks st))"
  shows "task_step env n st = None" "pool_step env st = None"
proof -
  show "task_step env n st = None"
  proof (cases "dict_get (x_tasks st) n")
    case (Some t)
    then have "finished t" using assms dict_get_values [OF Some] by (auto simp: list_all_iff)
    then show ?thesis using Some by (auto simp: task_step_def finished_def split: task.splits)
  qed (simp add: task_step_def)
  have "find (\<lambda>(nid, t). t = Queued) (x_tasks st) = None"
    using assms by (auto simp: find_None_iff list_all_iff finished_def)
  then show "pool_step env st = None" by (simp add: pool_step_def)
qed

lemma end_inv_worker:
  assumes "end_inv env st" and "task_step env n st = Some st' \<or> pool_step env st = Some st'"
  shows "end_inv env st'"
proof -
  have nf: "\<not> list_all finished (dict_values (x_tasks st))" using assms(2) no_task_step by fastforce
  have "x_pc st' = x_pc st \<and> x_cancel st' = x_cancel st"
    using assms(2) by (auto simp: pool_step_def set_task_def split: if_splits elim: task_step_frame)
  then show ?thesis using assms(1) nf
    by (auto simp: end_inv_def split: main_pc.splits option.splits)
qed

lemma end_inv_process:
  assumes ok: "env_ok env" and sched: "sched_inv (e_graph env) st" and inv: "data_inv E env st"
    and pc: "x_pc st = Processing (f # fs)" and step: "process_future ch f fs st = Some st'"
  shows "end_inv env st'"
proof -
  have cl: "edges_closed (e_graph env)" using valid_edges_closed ok unfolding env_ok_def .
  have fl: "f \<in> set (x_in_flight st)" "task_finished st f"
    using sched pc by (auto simp: sched_inv_def pc_inv_def)
  then obtain r where r: "dict_get (x_tasks st) f = Some (Finished r)"
    using task_finishedD by blast
  show ?thesis
  proof (cases r)
    case (Some e)
    then have "task_view env (x_cancel st) f (Finished (Some e)) (view st f)" using task_view_task [OF inv] r by simp
    then show ?thesis using step r Some by (auto simp: process_future_def Let_def end_inv_def task_view_def)
  next
    case None
    have "f \<in> node_ids (e_graph env)" using sched fl by (auto simp: sched_inv_def)
    moreover have "sets_for (node_ids (e_graph env)) (\<lambda>f. {n. f \<in> preds (e_graph env) n}) (x_dependents st)"
      using sched by (simp add: sched_inv_def)
    ultimately obtain ds where ds: "dict_get (x_dependents st) f = Some ds"
      using sets_for_get by blast
    then have ch: "distinct ch" "set ch = set ds"
      using step r None by (auto simp: process_future_def Let_def split: if_splits)
    obtain deps ready where "release f ch (x_deps st) (x_ready st) = Inr (deps, ready)"
      using sched_inv_finished_future [OF sched cl pc _ ds ch] r None by auto
    then show ?thesis using step r None ds ch by (auto simp: process_future_def Let_def end_inv_def)
  qed
qed

lemma end_inv_close:
  assumes ok: "env_ok env" and sched: "sched_inv (e_graph env) st" and inv: "data_inv E env st"
    and e: "end_inv env st" and pc: "x_pc st = Closing r" and step: "close_pool env r st = Some st'"
  shows "end_inv env st'"
proof (cases r)
  case None
  have "edges_closed (e_graph env)" "acyclic (set (dep_edges (e_graph env)))"
    using valid_edges_closed ok unfolding env_ok_def valid_graph_def by blast+
  moreover have "x_ready st = []" "x_in_flight st = []" "\<not> failing_pc (x_pc st)"
    using sched pc None by (auto simp: sched_inv_def pc_inv_def failing_pc_def)
  ultimately have "node_ids (e_graph env) \<subseteq> done_ok st" using all_done [OF sched] by blast
  from collect_outputs_val [OF ok inv this subset_refl] obtain os where
    "collect_outputs (g_outputs (e_graph env)) (x_emitted st) = Inr os" by blast
  then show ?thesis using step None by (auto simp: close_pool_def end_inv_def split: if_splits)
next
  case (Some x)
  then show ?thesis using e step pc by (auto simp: close_pool_def end_inv_def split: if_splits)
qed

lemma end_inv_main_step:
  assumes ok: "env_ok env" and sched: "sched_inv (e_graph env) st" and inv: "data_inv E env st"
    and e: "end_inv env st" and step: "main_step env ch st = Some st'"
  shows "end_inv env st'"
proof (cases "x_pc st")
  case (Processing fs)
  then show ?thesis using step end_inv_process [OF ok sched inv]
    by (cases fs) (auto simp: main_step_def end_inv_def)
next
  case (Closing r)
  then show ?thesis using step end_inv_close [OF ok sched inv e Closing] by (simp add: main_step_def)
next
  case Submitting
  then show ?thesis using step
    by (auto simp: main_step_def end_inv_def submit_node_def set_task_def split: list.splits)
next
  case AwaitAll
  then show ?thesis using step e by (auto simp: main_step_def end_inv_def split: if_splits)
qed (use step in \<open>auto simp: main_step_def end_inv_def split: if_splits\<close>)

lemma end_inv_step:
  assumes ok: "env_ok env" and sched: "sched_inv (e_graph env) st" and inv: "data_inv E env st"
    and e: "end_inv env st" and step: "exec_step env a st = Some st'"
  shows "end_inv env st'"
proof (cases a)
  case (Main ch)
  then show ?thesis using step end_inv_main_step [OF ok sched inv e] by (simp add: exec_step_def)
next
  case Cancel
  then show ?thesis using step e
    by (auto simp: exec_step_def end_inv_def split: main_pc.splits option.splits)
next
  case (OtherPut k res)
  then show ?thesis using step e
    by (auto simp: exec_step_def end_inv_def split: main_pc.splits option.splits)
qed (use step end_inv_worker [OF e] in \<open>auto simp: exec_step_def\<close>)

theorem reach_end_inv:
  assumes c: "compatible fc E" "env \<in> E" and s0: "exec_start env c cancel = Inr s0" and ch: "cache_ok E c"
    and r: "reach env (shared_by E) s0 s"
  shows "end_inv env s"
  using r
proof induction
  case reach_init
  show ?case using exec_start_fields [OF s0] by (simp add: end_inv_def)
next
  case (reach_step s a s')
  have "env_ok env" using exec_start_valid [OF s0] by (simp add: env_ok_def)
  from end_inv_step [OF this reach_sched_inv [OF s0 reach_step(1)] reach_data_inv [OF c s0 ch reach_step(1)]
      reach_step(4,3)] show ?case .
qed

section \<open>The results\<close>

theorem returned_sequential:
  assumes c: "compatible fc E" "env \<in> E" and s0: "exec_start env c cancel = Inr s0" and ch: "cache_ok E c"
    and r: "reach env (shared_by E) s0 s" and pc: "x_pc s = Returned rep"
  shows "sequential_outputs env = Inr (rep_outputs rep)"
proof -
  have ok: "env_ok env" using exec_start_valid [OF s0] by (simp add: env_ok_def)
  note sched = reach_sched_inv [OF s0 r] and inv = reach_data_inv [OF c s0 ch r]
  have "edges_closed (e_graph env)" "acyclic (set (dep_edges (e_graph env)))"
    using valid_edges_closed ok unfolding env_ok_def valid_graph_def by blast+
  then have d: "node_ids (e_graph env) \<subseteq> done_ok s"
    using sched pc by (intro all_done [OF sched]) (auto simp: sched_inv_def pc_inv_def failing_pc_def)
  have "has_val env n" if "n \<in> node_ids (e_graph env)" for n
    using data_inv_vals [OF inv d] that unfolding vals_ok_def has_val_def by blast
  moreover have "collect_outputs (g_outputs (e_graph env)) (x_emitted s) = Inr (rep_outputs rep)"
    using reach_end_inv [OF c s0 ch r] pc by (simp add: end_inv_def)
  ultimately show ?thesis
    using collect_outputs_val [OF ok inv d subset_refl] sequential_outputs_spec [OF ok] by auto
qed

theorem raised_reason:
  assumes c: "compatible fc E" "env \<in> E" and s0: "exec_start env c cancel = Inr s0" and ch: "cache_ok E c"
    and r: "reach env (shared_by E) s0 s" and pc: "x_pc s = Raised e"
  shows "e = ExecutionCancelled \<and> x_cancel s \<or> (\<exists>n. fails_with env n e) \<and> (\<forall>os. sequential_outputs env \<noteq> Inr os)"
proof -
  have ok: "env_ok env" using exec_start_valid [OF s0] by (simp add: env_ok_def)
  have "\<forall>os. sequential_outputs env \<noteq> Inr os" if f: "fails_with env n e" for n
  proof -
    have "\<exists>nd. dict_get (nodes_by_id (e_graph env)) n = Some nd"
      using f by (auto simp: fails_with_def hashes_def node_lookup_def split: option.splits)
    then have "n \<in> node_ids (e_graph env)"
      using dict_of_dom [of nd_id "\<lambda>n. n" "g_nodes (e_graph env)" n] by (simp add: nodes_by_id_def node_ids_def)
    moreover have "\<not> has_val env n" using val_not_fails f unfolding has_val_def by blast
    ultimately show ?thesis using sequential_outputs_spec [OF ok] by blast
  qed
  then show ?thesis using reach_end_inv [OF c s0 ch r] pc by (auto simp: end_inv_def)
qed

end
