(* ===== verification/ExecLive.thy ===== *)
theory ExecLive
  imports ExecRun
begin

text \<open>
  Executions end: from every reachable state that is not an end some thread can move
  (\<open>exec_progress\<close>), every move of the pool, a task or the main thread lowers \<open>exec_measure\<close>
  (\<open>exec_measure_step\<close>), and the moves of other threads leave it alone. So every schedule has at
  most \<open>20 * nodes + 2 * outputs + 4\<close> moves, whatever its order.
\<close>

definition live_inv :: "exec_state \<Rightarrow> bool" where
  "live_inv st \<longleftrightarrow> (case x_pc st of
     Submitting \<Rightarrow> x_ready st \<noteq> [] \<or> x_in_flight st \<noteq> []
   | Waiting \<Rightarrow> x_in_flight st \<noteq> []
   | _ \<Rightarrow> True)"

lemma live_inv_step:
  assumes "live_inv st" and "exec_step env a st = Some st'"
  shows "live_inv st'"
proof (cases a)
  case Start
  then show ?thesis using assms
    by (auto simp: exec_step_def pool_step_def set_task_def live_inv_def split: if_splits main_pc.splits)
next
  case (Task n)
  then have "x_pc st' = x_pc st \<and> x_ready st' = x_ready st \<and> x_in_flight st' = x_in_flight st"
    using assms(2) by (auto simp: exec_step_def elim: task_step_frame)
  then show ?thesis using assms(1) by (auto simp: live_inv_def split: main_pc.splits)
next
  case (Main ch)
  then show ?thesis using assms
    by (auto simp: exec_step_def main_step_def process_future_def close_pool_def submit_node_def set_task_def
        live_inv_def Let_def split: main_pc.splits if_splits list.splits option.splits task.splits sum.splits)
qed (use assms in \<open>auto simp: exec_step_def live_inv_def split: main_pc.splits\<close>)

lemma reach_live_inv:
  assumes "exec_start env c cancel = Inr s0" and "reach env P s0 s"
  shows "live_inv s"
  using assms(2)
proof induction
  case reach_init
  show ?case using exec_start_fields [OF assms(1)] by (simp add: live_inv_def)
qed (rule live_inv_step)

section \<open>Progress\<close>

definition ended :: "exec_state \<Rightarrow> bool" where
  "ended st = (case x_pc st of Returned rep \<Rightarrow> True | Raised e \<Rightarrow> True | _ \<Rightarrow> False)"

fun internal :: "exec_action \<Rightarrow> bool" where
  "internal Start = True" | "internal (Task n) = True" | "internal (Main ch) = True"
| "internal Cancel = False" | "internal (OtherPut k r) = False"

lemma running_can_move: "dict_get (x_tasks st) n = Some t \<Longrightarrow> running t \<Longrightarrow> \<exists>st'. task_step env n st = Some st'"
  by (cases t) (auto simp: task_step_def running_def)

lemma queued_can_start:
  assumes "dict_ok (x_tasks st)" and "dict_get (x_tasks st) n = Some Queued"
    and "\<And>m t. dict_get (x_tasks st) m = Some t \<Longrightarrow> \<not> running t"
  shows "\<exists>st'. pool_step env st = Some st'"
proof -
  have "filter running (dict_values (x_tasks st)) = []"
    using assms(3) dict_values_get [OF assms(1)] unfolding filter_empty_conv by blast
  moreover have "0 < pool_size env" by (simp add: pool_size_def)
  moreover have "find (\<lambda>(nid, t). t = Queued) (x_tasks st) \<noteq> None"
    using map_of_SomeD [OF assms(2)] by (auto simp: find_None_iff)
  ultimately show ?thesis by (auto simp: pool_step_def)
qed

lemma main_can_move:
  assumes fin: "\<And>m t. dict_get (x_tasks st) m = Some t \<Longrightarrow> finished t"
    and sched: "sched_inv g st" and pc: "\<not> ended st"
  shows "\<exists>ch st'. main_step env ch st = Some st'"
proof -
  have ok: "dict_ok (x_tasks st)" and fl: "set (x_in_flight st) \<subseteq> submitted st" "distinct (x_in_flight st)"
    using sched by (auto simp: sched_inv_def)
  have tf: "n \<in> submitted st \<Longrightarrow> task_finished st n" for n
    using fin by (auto simp: submitted_def task_finished_def)
  then have all: "list_all (task_finished st) (x_in_flight st)" using fl by (auto simp: list_all_iff)
  have "list_all finished (dict_values (x_tasks st))"
    using fin dict_values_get [OF ok] by (fastforce simp: list_all_iff)
  then show ?thesis
  proof (cases "x_pc st")
    case Waiting
    then show ?thesis using all fl(2) by (intro exI [of _ "x_in_flight st"]) (simp add: main_step_def)
  next
    case (Processing fs)
    show ?thesis
    proof (cases fs)
      case (Cons f fs')
      have "f \<in> submitted st" using sched Processing Cons by (auto simp: sched_inv_def pc_inv_def)
      then obtain r where r: "dict_get (x_tasks st) f = Some (Finished r)"
        using tf task_finishedD by blast
      then have "\<exists>st'. process_future (remdups (the (dict_get (x_dependents st) f))) f fs' st = Some st'"
        by (auto simp: process_future_def Let_def split: option.splits sum.splits)
      then show ?thesis using Processing Cons by (auto simp: main_step_def)
    qed (auto simp: main_step_def Processing)
  next
    case (Closing r)
    then show ?thesis using \<open>list_all finished (dict_values (x_tasks st))\<close>
      by (auto simp: main_step_def close_pool_def)
  qed (use pc all in \<open>auto simp: main_step_def ended_def\<close>)
qed

lemma sched_progress:
  assumes sched: "sched_inv g st" and pc: "\<not> ended st"
  shows "\<exists>a st'. internal a \<and> exec_step env a st = Some st'"
proof -
  have ok: "dict_ok (x_tasks st)" using sched by (simp add: sched_inv_def)
  consider (run) n t where "dict_get (x_tasks st) n = Some t" "running t"
    | (queued) n where "dict_get (x_tasks st) n = Some Queued" "\<And>m t. dict_get (x_tasks st) m = Some t \<Longrightarrow> \<not> running t"
    | (fin) "\<And>m t. dict_get (x_tasks st) m = Some t \<Longrightarrow> finished t"
  proof -
    have "finished t" if "\<not> running t" "t \<noteq> Queued" for t
      using that by (cases t) (auto simp: running_def finished_def)
    then show ?thesis using that by metis
  qed
  then show ?thesis
  proof cases
    case run
    then obtain st' where "exec_step env (Task n) st = Some st'"
      using running_can_move by (fastforce simp: exec_step_def)
    then show ?thesis by (metis internal.simps(2))
  next
    case queued
    then obtain st' where "exec_step env Start st = Some st'"
      using queued_can_start [OF ok] by (fastforce simp: exec_step_def)
    then show ?thesis by (metis internal.simps(1))
  next
    case fin
    then obtain ch st' where "exec_step env (Main ch) st = Some st'"
      using main_can_move [OF fin sched pc] by (fastforce simp: exec_step_def)
    then show ?thesis by (metis internal.simps(3))
  qed
qed

section \<open>Termination\<close>

definition task_rank :: "nat \<Rightarrow> task \<Rightarrow> nat" where
  "task_rank l t = (case t of
     Queued \<Rightarrow> 10 + 2 * l | Started \<Rightarrow> 9 + 2 * l | Missed k i \<Rightarrow> 8 + 2 * l | Produced k r \<Rightarrow> 7 + 2 * l
   | Storing k r \<Rightarrow> 6 + 2 * l | Obtained k r h \<Rightarrow> 5 + 2 * l | Recorded r h \<Rightarrow> 4 + 2 * l
   | Emitting r outs \<Rightarrow> 1 + 2 * length outs | Reporting r eo outs \<Rightarrow> 2 + 2 * length outs
   | Finished e \<Rightarrow> 0)"

definition node_rank :: "graph \<Rightarrow> exec_state \<Rightarrow> string \<Rightarrow> nat" where
  "node_rank g st n = (let l = length (node_outputs g n) in
     case dict_get (x_tasks st) n of
       None \<Rightarrow> 20 + 2 * l
     | Some t \<Rightarrow> task_rank l t + (if n \<in> set (x_in_flight st) then 5 else 0))"

definition pc_rank :: "main_pc \<Rightarrow> nat" where
  "pc_rank pc = (case pc of Loop \<Rightarrow> 4 | Submitting \<Rightarrow> 3 | Waiting \<Rightarrow> 2
     | Processing fs \<Rightarrow> (if fs = [] then 5 else 1) | AwaitAll \<Rightarrow> 3 | Closing r \<Rightarrow> 1
     | Returned rep \<Rightarrow> 0 | Raised e \<Rightarrow> 0)"

definition exec_measure :: "graph \<Rightarrow> exec_state \<Rightarrow> nat" where
  "exec_measure g st = (\<Sum>n \<in> node_ids g. node_rank g st n) + pc_rank (x_pc st)"

lemma finite_node_ids [simp]: "finite (node_ids g)"
  by (simp add: node_ids_def)

lemma exec_measure_node:
  assumes "n \<in> node_ids g" and "\<And>m. m \<noteq> n \<Longrightarrow> node_rank g st' m = node_rank g st m"
    and "node_rank g st' n + pc_rank (x_pc st') < node_rank g st n + pc_rank (x_pc st)"
  shows "exec_measure g st' < exec_measure g st"
proof -
  have "(\<Sum>m \<in> node_ids g. node_rank g s m) = node_rank g s n + (\<Sum>m \<in> node_ids g - {n}. node_rank g s m)" for s
    using assms(1) by (simp add: sum.remove)
  moreover have "(\<Sum>m \<in> node_ids g - {n}. node_rank g st' m) = (\<Sum>m \<in> node_ids g - {n}. node_rank g st m)"
    using assms(2) by (intro sum.cong) auto
  ultimately show ?thesis using assms(3) by (simp add: exec_measure_def)
qed

lemma task_step_rank:
  assumes "task_step env n st = Some st'" and "dict_get (x_tasks st) n = Some t"
  shows "task_rank (length (node_outputs (e_graph env) n)) (the (dict_get (x_tasks st') n)) <
    task_rank (length (node_outputs (e_graph env) n)) t"
  using assms
  by (cases t) (auto simp: task_step_def task_defs task_rank_def
      split: sum.splits prod.splits option.splits list.splits if_splits)

lemma measure_task_step:
  assumes sched: "sched_inv (e_graph env) st" and step: "task_step env n st = Some st'"
  shows "exec_measure (e_graph env) st' < exec_measure (e_graph env) st"
proof -
  obtain t t' where t: "dict_get (x_tasks st) n = Some t" "x_tasks st' = dict_set n t' (x_tasks st)"
      "x_pc st' = x_pc st" "x_in_flight st' = x_in_flight st"
    using task_step_frame [OF step] by metis
  then have "n \<in> node_ids (e_graph env)" using sched by (auto simp: sched_inv_def submitted_def)
  then show ?thesis
    using task_step_rank [OF step t(1)] t by (intro exec_measure_node) (auto simp: node_rank_def Let_def)
qed

lemma measure_pool_step:
  assumes sched: "sched_inv (e_graph env) st" and step: "pool_step env st = Some st'"
  shows "exec_measure (e_graph env) st' < exec_measure (e_graph env) st"
proof -
  have "dict_ok (x_tasks st)" using sched by (simp add: sched_inv_def)
  then obtain n where n: "dict_get (x_tasks st) n = Some Queued" "st' = set_task n Started st"
    using pool_stepD [OF step] by blast
  then have "n \<in> node_ids (e_graph env)" using sched by (auto simp: sched_inv_def submitted_def)
  then show ?thesis
    using n by (intro exec_measure_node [of n]) (auto simp: node_rank_def Let_def set_task_def task_rank_def)
qed

lemma node_rank_same:
  "x_tasks st' = x_tasks st \<Longrightarrow> x_in_flight st' = x_in_flight st \<Longrightarrow> node_rank g st' n = node_rank g st n"
  by (cases "dict_get (x_tasks st) n") (simp_all add: node_rank_def Let_def)

lemma measure_pc:
  "x_tasks st' = x_tasks st \<Longrightarrow> x_in_flight st' = x_in_flight st \<Longrightarrow> pc_rank (x_pc st') < pc_rank (x_pc st) \<Longrightarrow>
     exec_measure g st' < exec_measure g st"
  by (simp add: exec_measure_def node_rank_same [of st' st])

lemma measure_submit:
  assumes sched: "sched_inv g st" and pc: "x_pc st = Submitting" and r: "x_ready st = n # rest"
  shows "exec_measure g (submit_node n (st\<lparr>x_ready := rest\<rparr>)) < exec_measure g st"
proof -
  have "n \<in> node_ids g" "dict_get (x_tasks st) n = None"
    using sched r by (auto simp: sched_inv_def submitted_def)
  then show ?thesis using pc
    by (intro exec_measure_node [of n])
      (auto simp: node_rank_def Let_def submit_node_def set_task_def task_rank_def)
qed

lemma measure_process:
  assumes sched: "sched_inv g st" and pc: "x_pc st = Processing (f # fs)"
    and step: "process_future ch f fs st = Some st'"
  shows "exec_measure g st' < exec_measure g st"
proof -
  have f: "f \<in> set (x_in_flight st)" "f \<in> node_ids g" "f \<in> submitted st"
    using sched pc by (auto simp: sched_inv_def pc_inv_def)
  then obtain t where t: "dict_get (x_tasks st) f = Some t" by (auto simp: submitted_def)
  have st': "x_tasks st' = x_tasks st" "x_in_flight st' = removeAll f (x_in_flight st)"
    using step by (auto simp: process_future_def Let_def split: option.splits task.splits sum.splits if_splits)
  have "pc_rank (x_pc st') \<le> 5"
    by (auto simp: pc_rank_def split: main_pc.splits)
  then show ?thesis using f(1,2) t pc
    by (intro exec_measure_node [of f]) (auto simp: node_rank_def Let_def st' pc_rank_def)
qed

lemma measure_main_step:
  assumes sched: "sched_inv g st" and live: "live_inv st" and step: "main_step env ch st = Some st'"
  shows "exec_measure g st' < exec_measure g st"
proof (cases "x_pc st")
  case Submitting
  then show ?thesis using step measure_submit [OF sched Submitting]
    by (auto simp: main_step_def pc_rank_def intro!: measure_pc split: list.splits)
next
  case Waiting
  then show ?thesis using step live
    by (auto simp: main_step_def pc_rank_def live_inv_def intro!: measure_pc split: if_splits)
next
  case (Processing fs)
  then show ?thesis using step measure_process [OF sched]
    by (cases fs) (auto simp: main_step_def pc_rank_def intro!: measure_pc)
next
  case (Closing r)
  then show ?thesis using step
    by (auto simp: main_step_def close_pool_def pc_rank_def intro!: measure_pc
        split: if_splits option.splits sum.splits)
qed (use step in \<open>auto simp: main_step_def pc_rank_def intro!: measure_pc split: if_splits\<close>)

lemma exec_measure_step:
  assumes "sched_inv (e_graph env) st" and "live_inv st" and "exec_step env a st = Some st'"
  shows "if internal a then exec_measure (e_graph env) st' < exec_measure (e_graph env) st
    else exec_measure (e_graph env) st' = exec_measure (e_graph env) st"
proof (cases a)
  case Start
  then show ?thesis using assms measure_pool_step by (simp add: exec_step_def)
next
  case (Task n)
  then show ?thesis using assms measure_task_step by (simp add: exec_step_def)
next
  case (Main ch)
  then show ?thesis using assms measure_main_step by (simp add: exec_step_def)
qed (use assms in \<open>auto simp: exec_step_def exec_measure_def intro!: sum.cong node_rank_same\<close>)

lemma exec_run_bounded:
  assumes "sched_inv (e_graph env) st" and "live_inv st" and "edges_closed (e_graph env)"
    and "exec_run env as st = Some st'"
  shows "length (filter internal as) + exec_measure (e_graph env) st' \<le> exec_measure (e_graph env) st"
  using assms
proof (induction as arbitrary: st)
  case (Cons a as)
  then obtain s1 where s1: "exec_step env a st = Some s1" "exec_run env as s1 = Some st'"
    by (auto simp: bind_eq_Some_conv)
  have "length (filter internal as) + exec_measure (e_graph env) st' \<le> exec_measure (e_graph env) s1"
    using Cons.IH [OF sched_inv_step [OF Cons.prems(1,3) s1(1)] live_inv_step [OF Cons.prems(2) s1(1)]
        Cons.prems(3) s1(2)] .
  then show ?case using exec_measure_step [OF Cons.prems(1,2) s1(1)] by (auto split: if_splits)
qed simp

lemma sum_node_outputs:
  assumes "\<And>r. r \<in> set rs \<Longrightarrow> o_node r \<in> V" and "finite V"
  shows "(\<Sum>n \<in> V. length (filter (\<lambda>r. o_node r = n) rs)) = length rs"
  using assms
proof (induction rs)
  case (Cons r rs)
  have "(\<Sum>n \<in> V. length (filter (\<lambda>r. o_node r = n) (r # rs))) =
      (\<Sum>n \<in> V. (if n = o_node r then 1 else 0) + length (filter (\<lambda>r. o_node r = n) rs))"
    by (intro sum.cong) auto
  then show ?case using Cons by (simp add: sum.distrib)
qed simp

lemma exec_measure_start:
  assumes s0: "exec_start env c cancel = Inr s0"
  shows "exec_measure (e_graph env) s0 \<le> 20 * length (g_nodes (e_graph env)) + 2 * length (g_outputs (e_graph env)) + 4"
proof -
  let ?g = "e_graph env"
  have ok: "env_ok env" using exec_start_valid [OF s0] by (simp add: env_ok_def)
  note f = exec_start_fields [OF s0]
  have "o_node r \<in> node_ids ?g" if "r \<in> set (g_outputs ?g)" for r
    using ok that node_has_output_id by (auto simp: env_ok_def valid_graph_def valid_outputs_def)
  then have "(\<Sum>n \<in> node_ids ?g. length (node_outputs ?g n)) = length (g_outputs ?g)"
    unfolding node_outputs_filter length_map by (intro sum_node_outputs) auto
  moreover have "card (node_ids ?g) \<le> length (g_nodes ?g)"
    unfolding node_ids_def by (metis card_length list.set_map length_map)
  moreover have "exec_measure ?g s0 = 20 * card (node_ids ?g) + 2 * (\<Sum>n \<in> node_ids ?g. length (node_outputs ?g n)) + 4"
    using f by (simp add: exec_measure_def node_rank_def Let_def pc_rank_def sum.distrib sum_distrib_left)
  ultimately show ?thesis by simp
qed

theorem exec_terminates:
  assumes s0: "exec_start env c cancel = Inr s0" and run: "exec_run env as s0 = Some s"
  shows "length (filter internal as) \<le>
    20 * length (g_nodes (e_graph env)) + 2 * length (g_outputs (e_graph env)) + 4"
proof -
  have "edges_closed (e_graph env)" using valid_edges_closed [OF exec_start_valid [OF s0]] .
  moreover have "live_inv s0" using reach_live_inv [OF s0 reach_init] .
  ultimately show ?thesis
    using exec_run_bounded [OF sched_inv_start [OF s0] _ _ run] exec_measure_start [OF s0] by linarith
qed

end
