(* ===== verification/ExecCalls.thy ===== *)
theory ExecCalls
  imports ExecLive
begin

text \<open>
  What the callbacks see and what the pool and the cache are spared: a node is reported once,
  after every node it depends on; the report splits the nodes into run and cached; no more
  than \<open>pool_size\<close> tasks run at once; after the cancel flag is set only tasks that had passed
  its test store anything.
\<close>

section \<open>Reports\<close>

lemma returned_done:
  assumes s0: "exec_start env c cancel = Inr s0" and r: "reach env P s0 s" and pc: "x_pc s = Returned rep"
  shows "node_ids (e_graph env) \<subseteq> done_ok s"
proof -
  have "valid_graph (e_reg env) (e_ses env) (e_graph env)" using exec_start_valid [OF s0] .
  then have "edges_closed (e_graph env)" "acyclic (set (dep_edges (e_graph env)))"
    using valid_edges_closed unfolding valid_graph_def by blast+
  then show ?thesis
    using reach_sched_inv [OF s0 r] pc
    by (intro all_done) (auto simp: sched_inv_def pc_inv_def failing_pc_def)
qed

theorem returned_report:
  assumes c: "compatible fc E" "env \<in> E" and s0: "exec_start env c cancel = Inr s0" and ch: "cache_ok E c"
    and r: "reach env (shared_by E) s0 s" and pc: "x_pc s = Returned rep"
    and n: "n \<in> node_ids (e_graph env)"
  shows "(n \<in> set (rep_executed rep)) \<noteq> (n \<in> set (rep_cached rep)) \<and>
    node_calls n (x_calls s) = [NodeCall n (n \<in> set (rep_cached rep))] \<and>
    map out_ref (out_calls n (x_calls s)) = node_outputs (e_graph env) n"
proof -
  have "dict_get (x_tasks s) n = Some (Finished None)"
    using returned_done [OF s0 r pc] n by (auto simp: done_ok_def)
  then obtain res where "emitting_view env n res [] (view s n)"
    using task_view_task [OF reach_data_inv [OF c s0 ch r]] by (fastforce simp: task_view_def)
  moreover have "rep_executed rep = x_executed s" "rep_cached rep = x_cached s"
    using reach_end_inv [OF c s0 ch r] pc by (simp_all add: end_inv_def)
  ultimately show ?thesis by (simp add: emitting_view_def recorded_view_def view_def)
qed

section \<open>The order of the reports\<close>

definition called :: "exec_call list \<Rightarrow> string list" where
  "called cs = concat (map (\<lambda>c. case c of NodeCall n h \<Rightarrow> [n] | OutputCall eo \<Rightarrow> []) cs)"

lemma called_append [simp]: "called (cs @ ds) = called cs @ called ds"
  by (simp add: called_def)

lemma node_calls_called: "length (node_calls n cs) = count_list (called cs) n"
  by (induction cs) (auto simp: node_calls_def called_def split: exec_call.splits)

lemma in_called: "node_calls n cs \<noteq> [] \<longleftrightarrow> n \<in> set (called cs)"
  using node_calls_called [of n cs] count_list_0_iff [of "called cs" n] by (metis length_0_conv)

lemma done_called:
  assumes "data_inv E env st" shows "done_ok st \<subseteq> set (called (x_calls st))"
proof
  fix m assume "m \<in> done_ok st"
  then have "dict_get (x_tasks st) m = Some (Finished None)" by (auto simp: done_ok_def)
  then obtain res where "emitting_view env m res [] (view st m)"
    using task_view_task [OF assms] by (fastforce simp: task_view_def)
  then have "node_calls m (x_calls st) \<noteq> []" by (auto simp: emitting_view_def view_def)
  then show "m \<in> set (called (x_calls st))" by (simp add: in_called)
qed

lemma step_called:
  assumes "exec_step env a st = Some st'"
  shows "called (x_calls st') = called (x_calls st) \<or>
    (\<exists>n res hit. a = Task n \<and> dict_get (x_tasks st) n = Some (Recorded res hit) \<and>
       called (x_calls st') = called (x_calls st) @ [n])"
proof (cases a)
  case (Task n)
  then obtain t where t: "dict_get (x_tasks st) n = Some t"
    using assms by (cases "dict_get (x_tasks st) n") (auto simp: exec_step_def task_step_def)
  show ?thesis using assms Task t
    by (cases t) (auto simp: exec_step_def task_step_def task_defs called_def
        split: sum.splits prod.splits option.splits list.splits if_splits)
next
  case (Main ch)
  then have "main_step env ch st = Some st'" using assms by (simp add: exec_step_def)
  then have "x_calls st' = x_calls st"
    by (auto simp: main_step_def submit_node_def set_task_def process_future_def close_pool_def Let_def
      split: main_pc.splits if_splits list.splits option.splits task.splits sum.splits)
  then show ?thesis by simp
qed (use assms in \<open>auto simp: exec_step_def pool_step_def set_task_def split: if_splits\<close>)

theorem reach_called_forward:
  assumes c: "compatible fc E" "env \<in> E" and s0: "exec_start env c cancel = Inr s0" and ch: "cache_ok E c"
    and r: "reach env (shared_by E) s0 s"
  shows "edges_forward (dep_edges (e_graph env)) (called (x_calls s)) \<and> distinct (called (x_calls s))"
  using r
proof induction
  case reach_init
  show ?case using exec_start_fields [OF s0] by (simp add: called_def edges_forward_def)
next
  case (reach_step s a s')
  note sched = reach_sched_inv [OF s0 reach_step(1)] and inv = reach_data_inv [OF c s0 ch reach_step(1)]
  from step_called [OF reach_step(3)] show ?case
  proof (elim disjE exE conjE)
    fix n res hit
    assume n: "dict_get (x_tasks s) n = Some (Recorded res hit)" "called (x_calls s') = called (x_calls s) @ [n]"
    have "preds (e_graph env) n \<subseteq> done_ok s"
      using sched_inv_preds [OF sched n(1)] by simp
    then have "edges_forward (dep_edges (e_graph env)) (called (x_calls s) @ [n])"
      using reach_step(4) done_called [OF inv]
      by (intro edges_forward_append) (auto simp: preds_def)
    moreover have "v_calls (view s n) = []"
      using task_view_task [OF inv n(1)] by (simp add: task_view_def)
    then have "n \<notin> set (called (x_calls s))" by (simp add: view_def flip: in_called)
    ultimately show ?thesis using reach_step(4) n(2) by simp
  qed (use reach_step(4) in simp)
qed

section \<open>The pool\<close>

definition n_running :: "exec_state \<Rightarrow> nat" where
  "n_running st = length (filter running (dict_values (x_tasks st)))"

lemma filter_values_set:
  "length (filter P (dict_values (dict_set k v d))) + (case dict_get d k of None \<Rightarrow> 0 | Some u \<Rightarrow> of_bool (P u)) =
     length (filter P (dict_values d)) + of_bool (P v)"
  by (induction d) (auto split: option.splits)

lemma n_running_step:
  assumes sched: "sched_inv g st" and "n_running st \<le> pool_size env" and step: "exec_step env a st = Some st'"
  shows "n_running st' \<le> pool_size env"
proof (cases a)
  case Start
  have "dict_ok (x_tasks st)" using sched by (simp add: sched_inv_def)
  then obtain n where "dict_get (x_tasks st) n = Some Queued" "st' = set_task n Started st" "n_running st < pool_size env"
    using step Start pool_stepD [of env st st'] by (auto simp: exec_step_def n_running_def)
  then show ?thesis using filter_values_set [of running n Started "x_tasks st"]
    by (simp add: n_running_def set_task_def running_def)
next
  case (Task n)
  then obtain t t' where "dict_get (x_tasks st) n = Some t" "running t" "x_tasks st' = dict_set n t' (x_tasks st)"
    using step by (auto simp: exec_step_def elim: task_step_frame)
  then show ?thesis using filter_values_set [of running n t' "x_tasks st"] assms(2)
    by (auto simp: n_running_def of_bool_def split: if_splits)
next
  case (Main ch)
  then have m: "main_step env ch st = Some st'" using step by (simp add: exec_step_def)
  from main_step_tasks [OF m sched] show ?thesis
  proof (elim disjE exE conjE)
    fix n assume "dict_get (x_tasks st) n = None" "x_tasks st' = dict_set n Queued (x_tasks st)"
    then show ?thesis using filter_values_set [of running n Queued "x_tasks st"] assms(2)
      by (simp add: n_running_def running_def)
  qed (use assms(2) in \<open>simp add: n_running_def\<close>)
qed (use assms in \<open>auto simp: exec_step_def n_running_def\<close>)

theorem reach_pool_bound:
  assumes s0: "exec_start env c cancel = Inr s0" and r: "reach env P s0 s"
  shows "n_running s \<le> pool_size env"
  using r
proof induction
  case reach_init
  show ?case using exec_start_fields [OF s0] by (simp add: n_running_def)
next
  case (reach_step s a s')
  then show ?case using n_running_step reach_sched_inv [OF s0 reach_step(1)] by blast
qed

section \<open>After the cancel flag\<close>

definition storing :: "exec_state \<Rightarrow> (string \<times> string \<times> results) set" where
  "storing st = {(n, k, res). dict_get (x_tasks st) n = Some (Storing k res)}"

lemma cancelled_step:
  assumes "x_cancel st" and "internal a" and step: "exec_step env a st = Some st'" and sched: "sched_inv g st"
  shows "x_cancel st' \<and> storing st' \<subseteq> storing st \<and>
    (\<forall>k. cache_get (x_cache st') k \<noteq> cache_get (x_cache st) k \<longrightarrow> (\<exists>n res. (n, k, res) \<in> storing st))"
proof (cases a)
  case Start
  then show ?thesis using assms
    by (auto simp: exec_step_def pool_step_def set_task_def storing_def split: if_splits)
next
  case (Task n)
  then obtain t where t: "dict_get (x_tasks st) n = Some t"
    using step by (cases "dict_get (x_tasks st) n") (auto simp: exec_step_def task_step_def)
  show ?thesis using step Task t assms(1)
    by (cases t) (auto simp: exec_step_def task_step_def task_defs storing_def cache_put_get
        split: sum.splits prod.splits option.splits list.splits if_splits, blast)
next
  case (Main ch)
  then have m: "main_step env ch st = Some st'" using step by (simp add: exec_step_def)
  have "storing st' \<subseteq> storing st"
    using main_step_tasks [OF m sched] by (auto simp: storing_def split: if_splits)
  then show ?thesis using main_step_view [OF m] assms(1) by auto
qed (use assms in auto)

theorem cancelled_run:
  assumes "x_cancel st" and "list_all internal as" and "exec_run env as st = Some st'"
    and "sched_inv (e_graph env) st" and "edges_closed (e_graph env)"
  shows "cache_get (x_cache st') k \<noteq> cache_get (x_cache st) k \<Longrightarrow> \<exists>n res. (n, k, res) \<in> storing st"
proof -
  have "storing st' \<subseteq> storing st \<and>
    (cache_get (x_cache st') k \<noteq> cache_get (x_cache st) k \<longrightarrow> (\<exists>n res. (n, k, res) \<in> storing st))"
    using assms
  proof (induction as arbitrary: st)
    case (Cons a as)
    then obtain s1 where s1: "exec_step env a st = Some s1" "exec_run env as s1 = Some st'"
      by (auto simp: bind_eq_Some_conv)
    have a: "internal a" "list_all internal as" using Cons.prems(2) by simp_all
    note c = cancelled_step [OF Cons.prems(1) a(1) s1(1) Cons.prems(4)]
    have "storing st' \<subseteq> storing s1 \<and>
      (cache_get (x_cache st') k \<noteq> cache_get (x_cache s1) k \<longrightarrow> (\<exists>n res. (n, k, res) \<in> storing s1))"
      using Cons.IH [OF _ a(2) s1(2) sched_inv_step [OF Cons.prems(4,5) s1(1)] Cons.prems(5)] c by blast
    then show ?case using c by (metis subset_iff)
  qed simp
  then show "cache_get (x_cache st') k \<noteq> cache_get (x_cache st) k \<Longrightarrow> \<exists>n res. (n, k, res) \<in> storing st" by blast
qed

end
