(* ===== verification/JobResults.thy ===== *)
theory JobResults
  imports JobGate ExecCalls
begin

text \<open>
  A job over its execution: the callbacks of a completed \<open>execute_graph\<close>, in whatever order the
  pool made them, become announcements whose payloads are the outputs of the sequential
  evaluation, each one once.
\<close>

section \<open>The callbacks of an execution that returned\<close>

lemma out_calls_filter: "out_calls n cs = filter (\<lambda>eo. eo_node eo = n) (outputs_of cs)"
  by (induction n cs rule: out_calls.induct) (auto simp: outputs_of_def)

lemma distinct_by_node:
  "(\<And>n. distinct (map out_ref (filter (\<lambda>eo. eo_node eo = n) eos))) \<Longrightarrow> distinct (map out_ref eos)"
proof (induction eos)
  case (Cons e eos)
  have d: "distinct (map out_ref (filter (\<lambda>eo. eo_node eo = n) eos))" for n
    using Cons.prems [of n] by (auto split: if_splits)
  have "out_ref e \<notin> out_ref ` set eos"
  proof
    assume "out_ref e \<in> out_ref ` set eos"
    then obtain e' where "e' \<in> set eos" "out_ref e' = out_ref e" by force
    moreover have "e' \<in> set (filter (\<lambda>eo. eo_node eo = eo_node e) eos)"
      using calculation by (simp add: out_ref_def)
    ultimately have "out_ref e \<in> set (map out_ref (filter (\<lambda>eo. eo_node eo = eo_node e) eos))"
      by (metis image_eqI list.set_map)
    then show False using Cons.prems [of "eo_node e"] by simp
  qed
  with Cons.IH [OF d] show ?case by simp
qed simp

lemma all2_right: "list_all2 P xs ys \<Longrightarrow> y \<in> set ys \<Longrightarrow> \<exists>x \<in> set xs. P x y"
  by (induction rule: list_all2_induct) auto

lemma collect_outputs_get:
  "collect_outputs rs em = Inr os \<Longrightarrow> list_all2 (\<lambda>r eo. dict_get em (ref_of r) = Some eo) rs os"
  by (induction rs arbitrary: os) (auto simp: ref_of_def ebind_Inr split: option.splits)

lemma returned_views:
  assumes c: "compatible fc E" "env \<in> E" and s0: "exec_start env c cancel = Inr s0" and ch: "cache_ok E c"
    and r: "reach env (shared_by E) s0 s" and pc: "x_pc s = Returned rep"
  shows "view s n = empty_view \<or> (\<exists>res. emitting_view env n res [] (view s n))"
proof -
  note inv = reach_data_inv [OF c s0 ch r]
  have fin: "list_all finished (dict_values (x_tasks s))"
    using reach_end_inv [OF c s0 ch r] pc by (simp add: end_inv_def)
  show ?thesis
  proof (cases "dict_get (x_tasks s) n")
    case None
    then show ?thesis using inv by (metis data_inv_def node_ok_simps(1))
  next
    case (Some t)
    have "finished t" using fin dict_get_values [OF Some] unfolding list_all_iff by blast
    then obtain r where "t = Finished r" by (cases t) (simp_all add: finished_def)
    then show ?thesis using task_view_task [OF inv Some] by (cases r) (auto simp: task_view_def)
  qed
qed

theorem returned_calls:
  assumes c: "compatible fc E" "env \<in> E" and s0: "exec_start env c cancel = Inr s0" and ch: "cache_ok E c"
    and r: "reach env (shared_by E) s0 s" and pc: "x_pc s = Returned rep"
    and d: "distinct (map ref_of (g_outputs (e_graph env)))"
  shows "map out_ref (rep_outputs rep) = map ref_of (g_outputs (e_graph env)) \<and>
    mset (outputs_of (x_calls s)) = mset (rep_outputs rep)"
proof -
  let ?arr = "outputs_of (x_calls s)" and ?os = "rep_outputs rep" and ?rs = "g_outputs (e_graph env)"
  note views = returned_views [OF c s0 ch r pc]
  have v: "dict_get (x_emitted s) k = Some eo \<Longrightarrow> out_ref eo = k" for k eo
  proof -
    assume em: "dict_get (x_emitted s) k = Some eo"
    obtain n p where k: "k = (n, p)" by (cases k)
    have ve: "v_emitted (view s n) p = Some eo" using em k by (simp add: view_def)
    then have "view s n \<noteq> empty_view" by (auto simp: empty_view_def)
    then obtain res where "emitting_view env n res [] (view s n)" using views by blast
    then have "output_of n res p = Some eo" using ve unfolding emitting_view_def recorded_view_def by blast
    then show "out_ref eo = k" by (auto simp: output_of_def out_ref_def k)
  qed
  have nodes: "map out_ref (filter (\<lambda>eo. eo_node eo = n) ?arr) = map ref_of (filter (\<lambda>r. o_node r = n) ?rs) \<or>
      filter (\<lambda>eo. eo_node eo = n) ?arr = []" for n
    using views [of n]
    by (auto simp: emitting_view_def view_def empty_view_def out_calls_filter node_outputs_filter ref_of_def)
  have em: "dict_get (x_emitted s) (out_ref eo) = Some eo" if "eo \<in> set ?arr" for eo
  proof -
    have "eo \<in> set (v_outs (view s (eo_node eo)))" using that by (simp add: view_def out_calls_filter)
    then show ?thesis using views [of "eo_node eo"] by (auto simp: emitting_view_def empty_view_def view_def out_ref_def)
  qed
  have os: "list_all2 (\<lambda>r eo. dict_get (x_emitted s) (ref_of r) = Some eo) ?rs ?os"
    using reach_end_inv [OF c s0 ch r] pc by (intro collect_outputs_get) (simp add: end_inv_def)
  then have refs: "map out_ref ?os = map ref_of ?rs"
    by (induction rule: list_all2_induct) (auto dest: v)
  have da: "distinct (map out_ref ?arr)"
  proof (rule distinct_by_node)
    show "distinct (map out_ref (filter (\<lambda>eo. eo_node eo = n) ?arr))" for n
      using nodes [of n] distinct_map_filter [OF d] by auto
  qed
  have "set ?arr = set ?os"
  proof
    have eos: "dict_get (x_emitted s) (out_ref eo) = Some eo" if eo: "eo \<in> set ?os" for eo
    proof -
      obtain r where "dict_get (x_emitted s) (ref_of r) = Some eo" using all2_right [OF os eo] by blast
      then show ?thesis using v by simp
    qed
    show "set ?arr \<subseteq> set ?os"
    proof
      fix eo assume eo: "eo \<in> set ?arr"
      then have "filter (\<lambda>e. eo_node e = eo_node eo) ?arr \<noteq> []" by (auto simp: filter_empty_conv)
      then have m: "map out_ref (filter (\<lambda>e. eo_node e = eo_node eo) ?arr) =
          map ref_of (filter (\<lambda>r. o_node r = eo_node eo) ?rs)" using nodes [of "eo_node eo"] by blast
      have "out_ref eo \<in> set (map out_ref (filter (\<lambda>e. eo_node e = eo_node eo) ?arr))" using eo by auto
      then have "out_ref eo \<in> set (map out_ref ?os)" unfolding refs m by auto
      then obtain e' where e': "e' \<in> set ?os" "out_ref e' = out_ref eo" by auto
      have "e' = eo" using eos [OF e'(1)] em [OF eo] unfolding e'(2) by (metis option.inject)
      then show "eo \<in> set ?os" using e'(1) by simp
    qed
    show "set ?os \<subseteq> set ?arr"
    proof
      fix eo assume eo: "eo \<in> set ?os"
      then have k: "out_ref eo \<in> ref_of ` set ?rs" using refs by (metis image_eqI list.set_map)
      then obtain rr where rr: "rr \<in> set ?rs" "ref_of rr = out_ref eo" by auto
      have "eo_node eo \<in> node_ids (e_graph env)"
      proof -
        have "(eo_node eo, eo_port eo) \<in> set (node_outputs (e_graph env) (eo_node eo))"
          using rr by (auto simp: node_outputs_filter ref_of_def out_ref_def intro!: rev_image_eqI [of rr])
        then show ?thesis
          using node_outputs_has_output node_has_output_id exec_start_valid [OF s0] by (metis env_ok_def)
      qed
      then have "map out_ref (out_calls (eo_node eo) (x_calls s)) = node_outputs (e_graph env) (eo_node eo)"
        using returned_report [OF c s0 ch r pc] by blast
      then have m: "map out_ref (filter (\<lambda>e. eo_node e = eo_node eo) ?arr) =
          map ref_of (filter (\<lambda>r. o_node r = eo_node eo) ?rs)"
        by (simp add: node_outputs_filter out_calls_filter ref_of_def)
      have "rr \<in> set (filter (\<lambda>r. o_node r = eo_node eo) ?rs)" using rr by (simp add: ref_of_def out_ref_def)
      then have "ref_of rr \<in> set (map ref_of (filter (\<lambda>r. o_node r = eo_node eo) ?rs))" by (metis image_eqI list.set_map)
      then have "out_ref eo \<in> out_ref ` set ?arr" unfolding rr(2) m [symmetric] by auto
      then obtain e' where e': "e' \<in> set ?arr" "out_ref e' = out_ref eo" by auto
      have "e' = eo" using em [OF e'(1)] eos [OF eo] unfolding e'(2) by (metis option.inject)
      then show "eo \<in> set ?arr" using e'(1) by simp
    qed
  qed
  moreover have "distinct ?arr" using da by (simp add: distinct_map)
  moreover have "distinct ?os" using d refs by (metis distinct_map)
  ultimately show ?thesis using refs set_eq_iff_mset_eq_distinct by blast
qed

section \<open>The announcements\<close>

lemma mset_by_ref:
  assumes "distinct (map out_ref arr)" and "set ann \<subseteq> set arr"
    and "\<And>k. count (mset (map out_ref ann)) k = count (mset (map out_ref arr)) k"
  shows "mset ann = mset arr"
proof -
  define f where "f = the_inv_into (set arr) out_ref"
  have inj: "inj_on out_ref (set arr)" using assms(1) by (simp add: distinct_map)
  have f: "map f (map out_ref es) = es" if "set es \<subseteq> set arr" for es
    using that the_inv_into_f_f [OF inj] by (auto simp: f_def intro!: map_idI)
  have "mset (map out_ref ann) = mset (map out_ref arr)" by (intro multiset_eqI assms(3))
  then have "mset (map f (map out_ref ann)) = mset (map f (map out_ref arr))" by (metis mset_map)
  then show ?thesis using f [OF assms(2)] f [OF subset_refl] by metis
qed

lemma count_refs: "count (mset (map out_ref es)) k = length (filter (\<lambda>e. out_ref e = k) es)"
  by (induction es) auto

lemma count_distinct: "distinct xs \<Longrightarrow> count (mset xs) k = (if k \<in> set xs then 1 else 0)"
  by (induction xs) auto

text \<open>If everything arrived, then everything was announced.\<close>

lemma gate_complete:
  assumes g: "gate_graph g" and inv: "gate_inv g th arr ann" and refs: "mset (map out_ref arr) = mset (map ref_of (g_outputs g))"
  shows "mset ann = mset arr"
proof (rule mset_by_ref)
  show d: "distinct (map out_ref arr)"
    using g refs by (metis gate_graph_def mset_eq_imp_distinct_iff)
  show "set ann \<subseteq> set arr" using inv by (simp add: gate_inv_def)
  have setr: "out_ref ` set arr = ref_of ` set (g_outputs g)" using refs by (metis list.set_map mset_eq_setD)
  fix k
  show "count (mset (map out_ref ann)) k = count (mset (map out_ref arr)) k"
  proof (cases "\<exists>grp sq. ref_group g k = Some grp \<and> sequence_of g grp = Some sq")
    case True
    then obtain grp sq where s: "ref_group g k = Some grp" "sequence_of g grp = Some sq" by blast
    have "group_inv g grp sq (cursor_in th grp) (held_in th grp) arr ann" using inv s(2) by (simp add: gate_inv_def)
    then have "map out_ref (filter (in_group g grp) ann) = takeWhile (\<lambda>k. k \<in> out_ref ` set arr) sq"
      by (rule group_inv_prefix)
    moreover have sq: "set sq \<subseteq> out_ref ` set arr"
      using s(2) unfolding setr by (auto simp: sequence_of_def members_def split: if_splits)
    then have "takeWhile (\<lambda>k. k \<in> out_ref ` set arr) sq = sq" using takeWhile_eq_all_conv by blast
    ultimately have eq: "map out_ref (filter (in_group g grp) ann) = sq" by simp
    have "filter (\<lambda>e. out_ref e = k) ann = filter (\<lambda>e. out_ref e = k) (filter (in_group g grp) ann)"
      unfolding filter_filter using s(1) by (intro filter_cong) (auto simp: in_group_def)
    then have "count (mset (map out_ref ann)) k = count (mset (map out_ref (filter (in_group g grp) ann))) k"
      by (simp only: count_refs)
    also have "\<dots> = (if k \<in> set sq then 1 else 0)"
      using sequence_member(1) [OF g s(2)] unfolding eq by (rule count_distinct)
    finally have l: "count (mset (map out_ref ann)) k = (if k \<in> set sq then 1 else 0)" .
    have "k \<in> set sq \<longleftrightarrow> k \<in> out_ref ` set arr"
    proof
      assume "k \<in> out_ref ` set arr"
      have "ref_group g k = Some grp \<Longrightarrow> k \<in> set (members (g_outputs g) grp)"
        by (auto simp: ref_group_def members_def dest!: dict_of_get_in split: option.splits)
      then show "k \<in> set sq" using s by (auto simp: sequence_of_def split: if_splits)
    qed (use sq in blast)
    then show ?thesis using l count_distinct [OF d, of k] by simp
  next
    case False
    have "filter (\<lambda>e. out_ref e = k) es = filter (\<lambda>e. out_ref e = k) (filter (\<lambda>e. \<not> gated g e) es)" for es
      unfolding filter_filter using False by (intro filter_cong) (auto simp: gated_def split: option.splits)
    then show ?thesis using inv unfolding count_refs gate_inv_def by metis
  qed
qed

lemma deliver_live:
  assumes "deliver_inv as m" and "dict_get (jm_threads m) jid = Some th" and "th_phase th \<noteq> Created"
    and "job_get m jid = Some j"
  obtains ann where "list_all2 (delivers (th_graph th) (jm_session m)) (j_outputs j) ann"
    "gate_inv (th_graph th) th (arrived jid as) ann"
proof -
  have "deliver_at (arrived jid as) (jm_session m) (Some th) (Some (j_outputs j))"
    using assms(1,2,4) unfolding deliver_inv_def by (metis option.map(2))
  then show thesis using that assms(3) by (auto simp: deliver_at_def)
qed

theorem announcements_in_order:
  assumes "fresh_tokens tok ses0" and "list_all submits_ok as" and "job_steps tok xt as (manager_init ses0) = Some m"
    and "dict_get (jm_threads m) jid = Some th" and "th_phase th \<noteq> Created" and "job_get m jid = Some j"
  shows "\<exists>ann. list_all2 (delivers (th_graph th) (jm_session m)) (j_outputs j) ann \<and>
    filter (\<lambda>eo. \<not> gated (th_graph th) eo) ann = filter (\<lambda>eo. \<not> gated (th_graph th) eo) (arrived jid as) \<and>
    (\<forall>grp sq. sequence_of (th_graph th) grp = Some sq \<longrightarrow>
       map out_ref (filter (in_group (th_graph th) grp) ann) =
       takeWhile (\<lambda>k. k \<in> out_ref ` set (arrived jid as)) sq)"
proof -
  obtain ann where ann: "list_all2 (delivers (th_graph th) (jm_session m)) (j_outputs j) ann"
      "gate_inv (th_graph th) th (arrived jid as) ann"
    by (rule deliver_live [OF session_delivers [OF assms(1-3)] assms(4-6)])
  then show ?thesis using group_inv_prefix unfolding gate_inv_def by blast
qed

theorem job_holds_results:
  assumes "fresh_tokens tok ses0" and "list_all submits_ok as" and "job_steps tok xt as (manager_init ses0) = Some m"
    and "dict_get (jm_threads m) jid = Some th" and "th_phase th \<noteq> Created" and "job_get m jid = Some j"
    and "calls_in jid as = x_calls s" and "e_graph env = th_graph th"
    and c: "compatible fc E" "env \<in> E" and s0: "exec_start env c cancel = Inr s0" and ch: "cache_ok E c"
    and r: "reach env (shared_by E) s0 s" and pc: "x_pc s = Returned rep"
  shows "\<exists>os ann. sequential_outputs env = Inr os \<and> mset ann = mset os \<and>
    list_all2 (delivers (th_graph th) (jm_session m)) (j_outputs j) ann"
proof -
  obtain ann where ann: "list_all2 (delivers (th_graph th) (jm_session m)) (j_outputs j) ann"
      "gate_inv (th_graph th) th (arrived jid as) ann"
    by (rule deliver_live [OF session_delivers [OF assms(1-3)] assms(4-6)])
  have g: "gate_graph (th_graph th)"
    using session_runs [OF assms(1-3)] assms(4) by (auto simp: graphs_ok_def)
  then have "distinct (map ref_of (g_outputs (e_graph env)))" using assms(8) by (simp add: gate_graph_def)
  from returned_calls [OF c s0 ch r pc this]
  have "map out_ref (rep_outputs rep) = map ref_of (g_outputs (th_graph th))"
    and m: "mset (arrived jid as) = mset (rep_outputs rep)"
    using assms(7,8) by (simp_all add: arrived_def)
  then have "mset (map out_ref (arrived jid as)) = mset (map ref_of (g_outputs (th_graph th)))" by (metis mset_map)
  from gate_complete [OF g ann(2) this] m have "mset ann = mset (rep_outputs rep)" by simp
  with ann(1) returned_sequential [OF c s0 ch r pc] show ?thesis by blast
qed

end
