(* ===== verification/JobDocs.thy ===== *)
theory JobDocs
  imports JobResults
begin

text \<open>
  Documents, logs and flags: what \<open>Job.to_json\<close> may show, that the log only grows and holds
  frames a client can read, that a cancel flag is never cleared; and a job with a pinned group
  that the witnesses use.
\<close>

section \<open>Documents\<close>

definition job_ok :: "string \<Rightarrow> job \<Rightarrow> bool" where
  "job_ok jid j \<longleftrightarrow> j_id j = jid \<and> (j_error j \<noteq> None \<longleftrightarrow> j_status j = Failed)"

definition docs_inv :: "manager \<Rightarrow> bool" where
  "docs_inv m \<longleftrightarrow> (\<forall>jid j. job_get m jid = Some j \<longrightarrow> job_ok jid j)"

lemma docs_job:
  assumes "docs_inv m" and "\<And>k. k \<noteq> jid \<Longrightarrow> job_get m' k = job_get m k"
    and "\<And>j. job_get m' jid = Some j \<Longrightarrow> job_ok jid j"
  shows "docs_inv m'"
  unfolding docs_inv_def using assms by (metis docs_inv_def)

lemma docs_map:
  assumes "docs_inv m" and "\<And>k. job_get m' k = map_option f (job_get m k)"
    and "\<And>k j. job_ok k j \<Longrightarrow> job_ok k (f j)"
  shows "docs_inv m'"
  using assms unfolding docs_inv_def by auto

lemma docs_upd:
  assumes "docs_inv m" and "\<And>k. k \<noteq> jid \<Longrightarrow> job_get m' k = job_get m k"
    and "job_get m' jid = map_option f (job_get m jid)" and "\<And>k j. job_ok k j \<Longrightarrow> job_ok k (f j)"
  shows "docs_inv m'"
proof (rule docs_job [OF assms(1,2)])
  fix j assume "job_get m' jid = Some j"
  then obtain z where "job_get m jid = Some z" "j = f z" unfolding assms(3) by auto
  then show "job_ok jid j" using assms(1,4) by (simp add: docs_inv_def)
qed

lemma docs_announce_all: "docs_inv m \<Longrightarrow> docs_inv (announce_all tok jid grp eos m)"
proof (induction eos arbitrary: m)
  case (Cons eo eos)
  have "docs_inv (announce tok jid eo grp m)"
    by (rule docs_upd [OF Cons.prems, where jid = jid,
          where f = "\<lambda>j. j\<lparr>j_outputs := j_outputs j @ [output_record (tok (jm_tokens m)) eo grp]\<rparr>"])
      (simp_all add: job_ok_def)
  then show ?case using Cons.IH by simp
qed simp

lemma docs_clean:
  assumes "docs_inv m" and "job_get m jid = Some j" and "j_status j \<noteq> Failed"
  shows "j_error j = None" "j_id j = jid"
  using assms unfolding docs_inv_def job_ok_def by blast+

lemma docs_set_thread: "docs_inv m \<Longrightarrow> docs_inv (set_thread jid th m)"
  by (simp add: docs_inv_def)

lemma docs_step:
  assumes inv: "docs_inv m" and life: "life_inv m" and gr: "graphs_ok m" and step: "job_step tok xt a m = Some m'"
  shows "docs_inv m'"
  using step
proof (cases rule: job_stepE)
  case (submit g draft)
  then show ?thesis
    by (intro docs_job [OF inv, where jid = "tok (jm_tokens m)"]) (auto simp: job_ok_def new_job_def)
next
  case (start jid th)
  obtain j where j: "job_get m jid = Some j" "th_phase th = phase_of (j_status j)"
    using life_live [OF life start(2)] by metis
  then have "j_status j = Pending" using start(3) phase_of_simps(1) by metis
  with docs_clean [OF inv j(1)] have "j_error j = None" "j_id j = jid" by simp_all
  then show ?thesis using start j(1)
    by (intro docs_job [OF inv, where jid = jid]) (auto simp: begin_run_def Let_def job_ok_def split: sum.splits)
next
  case (node jid th nid hit)
  then show ?thesis using inv by (simp add: docs_inv_def)
next
  case (emit jid th eo)
  from emit(2) show ?thesis
  proof (cases rule: on_output_form [where tok = tok and eo = eo])
    case (1 th' grp eos)
    show ?thesis unfolding emit(4) 1(1) by (intro docs_set_thread docs_announce_all inv)
  next
    case (2 grp)
    show ?thesis unfolding emit(4) 2 by (intro docs_announce_all inv)
  qed
next
  case (finish jid th r)
  obtain j where j: "job_get m jid = Some j" "j_status j = Running" "life_in jid m = Some Works"
    by (rule life_running [OF life finish(2,3)])
  with docs_clean [OF inv j(1)] have "j_error j = None" "j_id j = jid" by simp_all
  then show ?thesis using finish j(1)
    by (intro docs_job [OF inv, where jid = jid]) (auto simp: finish_run_def fail_job_def job_ok_def split: option.splits if_splits)
next
  case (cancel jid)
  then show ?thesis
    by (intro docs_upd [OF inv, where jid = jid and f = "\<lambda>j. j\<lparr>j_cancel := True\<rparr>"]) (simp_all add: job_ok_def)
next
  case (upload ty data)
  then show ?thesis using inv by (simp add: docs_inv_def)
next
  case shutdown
  show ?thesis unfolding shutdown by (rule docs_map [OF inv shutdown_simps(5)]) (auto simp: job_ok_def)
qed

theorem session_docs:
  assumes tok: "fresh_tokens tok ses0" and ok: "list_all submits_ok as"
    and run: "job_steps tok xt as (manager_init ses0) = Some m"
  shows "docs_inv m"
  using run ok
proof (induction rule: job_steps_induct)
  case start
  show ?case by (simp add: docs_inv_def manager_init_def job_get_def)
next
  case (step as a m m')
  then show ?case using docs_step session_runs [OF tok _ step(1)] by auto
qed

section \<open>Logs\<close>

definition grows_ok :: "(string \<Rightarrow> string) \<Rightarrow> event_log \<Rightarrow> event_log \<Rightarrow> bool" where
  "grows_ok fc l l' \<longleftrightarrow> prefix l l' \<and> (log_ok l \<and> list_all (event_ok fc) l \<longrightarrow> log_ok l' \<and> list_all (event_ok fc) l')"

lemma grows_refl [simp, intro]: "grows_ok fc l l"
  by (simp add: grows_ok_def)

lemma grows_trans: "grows_ok fc l l' \<Longrightarrow> grows_ok fc l' l'' \<Longrightarrow> grows_ok fc l l''"
  unfolding grows_ok_def by (meson prefix_order.trans)

lemma grows_append:
  assumes "newline \<notin> set ty" and "wf_json fc (JObj d)" and "grows_ok fc l l'"
  shows "grows_ok fc l (log_append ty d l')"
proof (rule grows_trans [OF assms(3)])
  show "grows_ok fc l' (log_append ty d l')"
    using assms(1,2) by (auto simp: grows_ok_def log_append_def event_ok_def log_ok_def)
qed

lemma type_lines: "newline \<notin> set ''job.status''" "newline \<notin> set ''node.completed''" "newline \<notin> set ''job.output''"
  "newline \<notin> set ''job.completed''" "newline \<notin> set ''job.cancelled''" "newline \<notin> set ''job.failed''"
  by (simp_all add: newline_def)

lemma wf_output_fields: "wf_json fc (JObj ((''job'', JStr jid) # job_output_fields r))"
  by (simp add: job_output_fields_def split: option.splits)

lemmas grows_intros = grows_append [OF type_lines(1)] grows_append [OF type_lines(2)] grows_append [OF type_lines(3)]
  grows_append [OF type_lines(4)] grows_append [OF type_lines(5)] grows_append [OF type_lines(6)]

lemma grows_announce_all: "grows_ok fc (jm_events m) (jm_events (announce_all tok jid grp eos m))"
proof (induction eos arbitrary: m)
  case (Cons eo eos)
  have "grows_ok fc (jm_events m) (jm_events (announce tok jid eo grp m))"
    unfolding announce_simps by (intro grows_intros wf_output_fields grows_refl)
  from grows_trans [OF this Cons.IH] show ?case by simp
qed simp

lemma log_step:
  assumes "job_step tok xt a m = Some m'"
  shows "grows_ok fc (jm_events m) (jm_events m')"
  using assms
proof (cases rule: job_stepE)
  case (emit jid th eo)
  from emit(2) show ?thesis
  proof (cases rule: on_output_form [where tok = tok and eo = eo])
    case (1 th' grp eos)
    show ?thesis unfolding emit(4) 1(1) by (simp add: grows_announce_all)
  next
    case (2 grp)
    show ?thesis unfolding emit(4) 2 by (rule grows_announce_all)
  qed
qed (auto simp: begin_run_def Let_def on_node_def finish_run_def fail_job_def intro!: grows_intros
       split: sum.splits option.splits)

lemma log_steps: "job_steps tok xt as m = Some m' \<Longrightarrow> grows_ok fc (jm_events m) (jm_events m')"
proof (induction rule: job_steps_induct)
  case (step as a m m')
  then show ?case using grows_trans log_step by blast
qed simp

text \<open>The log as the polls of a stream find it, with the actions that happen in between.\<close>

fun logs_at ::
  "(nat \<Rightarrow> string) \<Rightarrow> (exec_error \<Rightarrow> string) \<Rightarrow> job_action list list \<Rightarrow> manager \<Rightarrow> event_log list option" where
  "logs_at tok xt [] m = Some []"
| "logs_at tok xt (as # ass) m = (case job_steps tok xt as m of
     None \<Rightarrow> None | Some m' \<Rightarrow> map_option ((#) (jm_events m')) (logs_at tok xt ass m'))"

lemma logs_at_grow:
  "logs_at tok xt ass m = Some ls \<Longrightarrow> sorted_wrt (grows_ok fc) (jm_events m # ls)"
proof (induction ass arbitrary: m ls)
  case (Cons as ass)
  then obtain m' ls' where m': "job_steps tok xt as m = Some m'" "logs_at tok xt ass m' = Some ls'"
      "ls = jm_events m' # ls'"
    by (auto split: option.splits)
  have "grows_ok fc (jm_events m) (jm_events m')" by (rule log_steps [OF m'(1)])
  with Cons.IH [OF m'(2)] show ?case unfolding m'(3) by (auto intro: grows_trans)
qed simp

theorem stream_complete:
  assumes "logs_at tok xt ass (manager_init ses0) = Some ls" and "ls \<noteq> []" and "stream_run ls stream_start = (out, ss)"
  shows "sse_read (concat out) = map frame_of (last ls)"
proof -
  have g: "sorted_wrt (grows_ok (\<lambda>t. t)) ([] # ls)"
    using logs_at_grow [OF assms(1)] by (simp add: manager_init_def)
  then have ok: "\<forall>l \<in> set ls. log_ok l \<and> list_all (event_ok (\<lambda>t. t)) l" by (simp add: grows_ok_def)
  have "sorted_wrt prefix ls" using g by (auto simp: grows_ok_def elim!: sorted_wrt_mono_rel [rotated])
  from stream_reads [OF ok this assms(2) _ assms(3), of "[]"] show ?thesis
    by (simp add: sse_read_def stream_start_def log_since_def)
qed

section \<open>Flags\<close>

definition cancelled_in :: "manager \<Rightarrow> string \<Rightarrow> bool" where
  "cancelled_in m jid \<longleftrightarrow> (\<exists>j. job_get m jid = Some j \<and> j_cancel j)"


lemma flags_announce_all: "cancelled_in m k \<Longrightarrow> cancelled_in (announce_all tok jid grp eos m) k"
  using job_get_announce_all [of tok jid grp eos m k] by (auto simp: cancelled_in_def)

lemma flags_step:
  assumes c: "cancelled_in m k" and ids: "ids_inv tok ses0 m" "fresh_tokens tok ses0"
    and step: "job_step tok xt a m = Some m'"
  shows "cancelled_in m' k"
  using step
proof (cases rule: job_stepE)
  case (submit g draft)
  have "k \<noteq> tok (jm_tokens m)" using c ids_new(2) [OF ids] by (auto simp: cancelled_in_def)
  then show ?thesis using c submit by (simp add: cancelled_in_def)
next
  case (emit jid th eo)
  from emit(2) show ?thesis
  proof (cases rule: on_output_form [where tok = tok and eo = eo])
    case (1 th' grp eos)
    show ?thesis using flags_announce_all [OF c] unfolding emit(4) 1(1) by (simp add: cancelled_in_def)
  next
    case (2 grp)
    show ?thesis unfolding emit(4) 2 by (rule flags_announce_all [OF c])
  qed
next
  case shutdown
  obtain j where "job_get m k = Some j" "j_cancel j" using c by (auto simp: cancelled_in_def)
  then show ?thesis unfolding shutdown by (simp add: cancelled_in_def)
qed (use c in \<open>auto simp: cancelled_in_def begin_run_def Let_def finish_run_def fail_job_def
       split: sum.splits option.splits\<close>)

theorem cancel_sticks:
  assumes tok: "fresh_tokens tok ses0" and ok: "list_all submits_ok (as @ a # bs)"
    and run: "job_steps tok xt as (manager_init ses0) = Some m" "job_steps tok xt (a # bs) m = Some m'"
    and j: "job_get m jid = Some j" "j_status j \<notin> terminal" and a: "a = Shutdown \<or> a = CancelJob jid"
  shows "cancelled_in m' jid"
proof -
  obtain m1 where m1: "job_step tok xt a m = Some m1" "job_steps tok xt bs m1 = Some m'"
    using run(2) by (auto split: bind_splits)
  have c: "cancelled_in m1 jid" using m1(1) a j by (auto simp: job_step_def cancelled_in_def)
  have r1: "job_steps tok xt (as @ [a]) (manager_init ses0) = Some m1" using run(1) m1(1) by (simp add: job_steps_snoc)
  have "ids_inv tok ses0 m1" using session_runs [OF tok _ r1] ok by simp
  with m1(2) c show ?thesis
  proof (induction bs arbitrary: m1)
    case (Cons b bs)
    then obtain m2 where m2: "job_step tok xt b m1 = Some m2" "job_steps tok xt bs m2 = Some m'"
      by (auto split: bind_splits)
    show ?case
      using Cons.IH [OF m2(2) flags_step [OF Cons.prems(2,3) tok m2(1)]] ids_step [OF Cons.prems(3) tok m2(1)] by blast
  qed simp
qed

text \<open>A job's document lists outputs exactly when it completed and an error exactly when it failed.\<close>

theorem job_document_fields:
  assumes "fresh_tokens tok ses0" and "list_all submits_ok as"
    and "job_steps tok xt as (manager_init ses0) = Some m" and "job_get m jid = Some j"
  shows "\<exists>d. job_to_json j = JObj d \<and> dict_get d ''id'' = Some (JStr jid) \<and>
    dict_get d ''status'' = Some (JStr (status_text (j_status j))) \<and>
    (dict_get d ''outputs'' \<noteq> None \<longleftrightarrow> j_status j = Completed) \<and>
    (dict_get d ''error'' \<noteq> None \<longleftrightarrow> j_status j = Failed)"
proof -
  have "job_ok jid j" using session_docs [OF assms(1-3)] assms(4) by (simp add: docs_inv_def)
  then show ?thesis by (cases "j_error j") (auto simp: job_ok_def job_to_json_def)
qed

section \<open>A validated graph has a gate\<close>

lemma valid_gate_graph:
  assumes "valid_graph reg ses g" shows "gate_graph g"
proof -
  have "valid_outputs reg g" using assms by (simp add: valid_graph_def)
  then show ?thesis
    unfolding valid_outputs_def gate_graph_def ref_of_def using dict_of_dom
    by (metis (mono_tags, lifting) not_None_eq)
qed

end
