(* ===== verification/ServerRuns.thy ===== *)
theory ServerRuns
  imports Server JobDocs
begin

text \<open>
  The server refines its sessions: whatever requests arrive and however their handlers
  interleave, each manager makes only the moves of \<^verbatim>\<open>jobs.py\<close> (\<open>job_step\<close>) on validated graphs, so every
  theorem on the runs of a session holds of the server's sessions.
\<close>

section \<open>Moves of the managers\<close>

definition moves :: "server_env \<Rightarrow> string \<Rightarrow> manager \<Rightarrow> manager \<Rightarrow> bool" where
  "moves env sid m m' \<longleftrightarrow> (\<exists>bs. list_all submits_ok bs \<and> job_steps (se_toks env sid) (se_xt env) bs m = Some m')"

definition fresh_manager :: "string \<Rightarrow> manager" where
  "fresh_manager sid = manager_init \<lparr>ses_id = sid, ses_payloads = []\<rparr>"

definition heap_moves :: "server_env \<Rightarrow> (string, manager) dict \<Rightarrow> (string, manager) dict \<Rightarrow> bool" where
  "heap_moves env h h' \<longleftrightarrow>
     (\<forall>sid m. dict_get h sid = Some m \<longrightarrow> (\<exists>m'. dict_get h' sid = Some m' \<and> moves env sid m m')) \<and>
     (\<forall>sid m'. dict_get h sid = None \<longrightarrow> dict_get h' sid = Some m' \<longrightarrow> moves env sid (fresh_manager sid) m')"

lemma moves_refl: "moves env sid m m"
  by (auto simp: moves_def intro: exI [of _ "[]"])

lemma moves_trans: "moves env sid m m' \<Longrightarrow> moves env sid m' m'' \<Longrightarrow> moves env sid m m''"
  unfolding moves_def by (metis job_steps_append bind.bind_lunit list_all_append)

lemma moves_step: "submits_ok a \<Longrightarrow> job_step (se_toks env sid) (se_xt env) a m = Some m' \<Longrightarrow> moves env sid m m'"
  unfolding moves_def by (rule exI [of _ "[a]"]) simp

lemma heap_moves_refl [simp]: "heap_moves env h h"
  by (simp add: heap_moves_def moves_refl)

lemma heap_moves_trans:
  assumes "heap_moves env h h'" and "heap_moves env h' h''"
  shows "heap_moves env h h''"
  unfolding heap_moves_def
proof (intro conjI allI impI)
  fix sid m assume "dict_get h sid = Some m"
  then show "\<exists>m'. dict_get h'' sid = Some m' \<and> moves env sid m m'"
    using assms moves_trans unfolding heap_moves_def by metis
next
  fix sid m' assume "dict_get h sid = None" "dict_get h'' sid = Some m'"
  then show "moves env sid (fresh_manager sid) m'"
    using assms moves_trans unfolding heap_moves_def by (metis not_None_eq option.inject)
qed

lemma heap_moves_set:
  "dict_get (sv_heap sv) sid = Some m \<Longrightarrow> moves env sid m m' \<Longrightarrow> heap_moves env (sv_heap sv) (sv_heap (set_manager sid m' sv))"
  by (auto simp: heap_moves_def set_manager_def moves_refl)

lemma heap_moves_new:
  "dict_get h sid = None \<Longrightarrow> heap_moves env h (dict_set sid (fresh_manager sid) h)"
  by (auto simp: heap_moves_def moves_refl)

section \<open>The tables\<close>

definition cont_session :: "cont \<Rightarrow> string option" where
  "cont_session k = (case k of AwaitUpload sid ty \<Rightarrow> Some sid | AwaitGraph sid \<Rightarrow> Some sid | AwaitInstall \<Rightarrow> None
     | PopManager sid \<Rightarrow> Some sid | StopManager sid \<Rightarrow> Some sid | TellJob sid jid \<Rightarrow> Some sid)"

definition server_ok :: "server_env \<Rightarrow> server \<Rightarrow> bool" where
  "server_ok env sv \<longleftrightarrow> inj (se_sids env) \<and> dom (dict_get (sv_heap sv)) \<subseteq> se_sids env ` {..<sv_tokens sv} \<and>
     set (sv_store sv) \<subseteq> dom (dict_get (sv_heap sv)) \<and> set (sv_managers sv) \<subseteq> dom (dict_get (sv_heap sv))"

lemma server_fields [simp]:
  "sv_heap (drop_wait rid sv) = sv_heap sv" "sv_store (drop_wait rid sv) = sv_store sv"
  "sv_managers (drop_wait rid sv) = sv_managers sv" "sv_tokens (drop_wait rid sv) = sv_tokens sv"
  "sv_ext (drop_wait rid sv) = sv_ext sv" "sv_config (drop_wait rid sv) = sv_config sv"
  "sv_heap (snd (await_cont rid k sv)) = sv_heap sv" "sv_store (snd (await_cont rid k sv)) = sv_store sv"
  "sv_managers (snd (await_cont rid k sv)) = sv_managers sv" "sv_tokens (snd (await_cont rid k sv)) = sv_tokens sv"
  "sv_ext (snd (await_cont rid k sv)) = sv_ext sv" "sv_config (snd (await_cont rid k sv)) = sv_config sv"
  "sv_heap (set_manager sid m sv) = dict_set sid m (sv_heap sv)" "sv_store (set_manager sid m sv) = sv_store sv"
  "sv_managers (set_manager sid m sv) = sv_managers sv" "sv_tokens (set_manager sid m sv) = sv_tokens sv"
  "sv_config (set_manager sid m sv) = sv_config sv"
  "finish rs = (Some (fst rs), snd rs)"
  by (simp_all add: drop_wait_def await_cont_def set_manager_def finish_def)

text \<open>What a piece of a handler does to the tables: at most one session is new, and no session
  comes back into the store or the table of managers.\<close>

definition tables_move :: "server_env \<Rightarrow> server \<Rightarrow> server \<Rightarrow> bool" where
  "tables_move env sv sv' \<longleftrightarrow> heap_moves env (sv_heap sv) (sv_heap sv') \<and> server_ok env sv' \<and>
     (\<forall>sid \<in> dom (dict_get (sv_heap sv)). (sid \<in> set (sv_store sv') \<longrightarrow> sid \<in> set (sv_store sv)) \<and>
        (sid \<in> set (sv_managers sv') \<longrightarrow> sid \<in> set (sv_managers sv)))"

lemma tables_same:
  "server_ok env sv \<Longrightarrow> sv_heap sv' = sv_heap sv \<Longrightarrow> set (sv_store sv') \<subseteq> set (sv_store sv) \<Longrightarrow>
   set (sv_managers sv') \<subseteq> set (sv_managers sv) \<Longrightarrow> sv_tokens sv' = sv_tokens sv \<Longrightarrow> tables_move env sv sv'"
  by (auto simp: tables_move_def server_ok_def)

lemma tables_set:
  assumes "server_ok env sv" and "dict_get (sv_heap sv) sid = Some m" and "moves env sid m m'"
    and "sv_heap sv' = dict_set sid m' (sv_heap sv)" and "sv_store sv' = sv_store sv"
    and "sv_managers sv' = sv_managers sv" and "sv_tokens sv' = sv_tokens sv"
  shows "tables_move env sv sv'"
proof -
  have "dom (dict_get (sv_heap sv')) = dom (dict_get (sv_heap sv))" using assms(2,4) by (auto split: if_splits)
  moreover have "heap_moves env (sv_heap sv) (sv_heap sv')"
    using heap_moves_set [OF assms(2,3)] by (simp add: assms(4))
  ultimately show ?thesis using assms(1,5-7) by (simp add: tables_move_def server_ok_def)
qed

lemma tables_create:
  assumes ok: "server_ok env sv" shows "tables_move env sv (snd (create_session env sv))"
proof -
  let ?sid = "se_sids env (sv_tokens sv)" and ?sv = "snd (create_session env sv)"
  have fresh: "dict_get (sv_heap sv) ?sid = None"
  proof (rule ccontr)
    assume "dict_get (sv_heap sv) ?sid \<noteq> None"
    then have "?sid \<in> se_sids env ` {..<sv_tokens sv}" using ok by (auto simp: server_ok_def)
    then show False using ok by (auto simp: server_ok_def inj_def)
  qed
  have f: "sv_heap ?sv = dict_set ?sid (fresh_manager ?sid) (sv_heap sv)" "set (sv_store ?sv) = insert ?sid (set (sv_store sv))"
      "set (sv_managers ?sv) = insert ?sid (set (sv_managers sv))" "sv_tokens ?sv = Suc (sv_tokens sv)"
    by (simp_all add: create_session_def Let_def fresh_manager_def)
  have d: "dom (dict_get (dict_set ?sid m (sv_heap sv))) = insert ?sid (dom (dict_get (sv_heap sv)))" for m
    by (auto split: if_splits)
  have "server_ok env ?sv" using ok unfolding server_ok_def f d lessThan_Suc by blast
  moreover have "heap_moves env (sv_heap sv) (sv_heap ?sv)" unfolding f by (rule heap_moves_new [OF fresh])
  ultimately show ?thesis using fresh by (auto simp: tables_move_def f)
qed

section \<open>Every piece of a handler\<close>

lemma session_or_404_Inr: "session_or_404 sid sv = Inr m \<longleftrightarrow> sid \<in> set (sv_store sv) \<and> dict_get (sv_heap sv) sid = Some m"
  by (auto simp: session_or_404_def split: option.splits)

lemma manager_or_404_Inr: "manager_or_404 sid sv = Inr m \<longleftrightarrow> sid \<in> set (sv_managers sv) \<and> dict_get (sv_heap sv) sid = Some m"
  by (auto simp: manager_or_404_def split: option.splits)

lemma tables_dispatch:
  assumes ok: "server_ok env sv"
  shows "tables_move env sv (snd (dispatch_call env rid call sv))"
proof (cases call)
  case CreateSession
  then show ?thesis using tables_create [OF ok] by (simp add: dispatch_call_def)
next
  case (CancelCall sid jid)
  show ?thesis
  proof (cases "manager_or_404 sid sv")
    case (Inr m)
    then have m: "dict_get (sv_heap sv) sid = Some m" by (simp add: manager_or_404_Inr)
    have mv: "moves env sid m (snd (job_cancel jid m))"
      by (rule moves_step [of "CancelJob jid"]) (simp_all add: submits_ok_def job_step_def)
    show ?thesis
    proof (cases "fst (job_cancel jid m)")
      case True
      then show ?thesis
        by (intro tables_set [OF ok m mv]) (simp_all add: CancelCall dispatch_call_def cancel_job_def Inr case_prod_beta)
    next
      case False
      then show ?thesis
        by (intro tables_same [OF ok]) (simp_all add: CancelCall dispatch_call_def cancel_job_def Inr case_prod_beta)
    qed
  qed (rule tables_same [OF ok], simp_all add: CancelCall dispatch_call_def cancel_job_def)
qed (rule tables_same [OF ok];
    simp add: dispatch_call_def delete_session_def upload_payload_def install_call_def submit_call_def set_removeAll
      split: option.splits sum.splits)+

lemma tables_store_upload:
  assumes ok: "server_ok env sv"
  shows "tables_move env sv (snd (store_upload env sid ty data sv))"
proof (cases "dict_get (sv_heap sv) sid")
  case None
  then show ?thesis by (intro tables_same [OF ok]) (simp_all add: store_upload_def)
next
  case (Some m)
  have mv: "moves env sid m (upload (se_toks env sid) ty data m)"
    by (rule moves_step [of "Upload ty data"]) (simp_all add: submits_ok_def job_step_def)
  show ?thesis
  proof (cases "data = []")
    case True
    then show ?thesis by (intro tables_same [OF ok]) (simp_all add: store_upload_def Some)
  next
    case False
    then show ?thesis by (intro tables_set [OF ok Some mv]) (simp_all add: store_upload_def Some Let_def)
  qed
qed

lemma submit_job_cases:
  assumes "dict_get (sv_heap sv) sid = Some m"
  obtains (refused) code rep where "submit_job env rid sid body sv = (Some (code, rep), sv)" "code \<in> {400, 422}"
  | (accepted) d g draft where "loads (se_fc env) body = Some (JObj d)"
      "parse_graph (case dict_get d ''graph'' of None \<Rightarrow> JObj [] | Some v \<Rightarrow> if json_truthy v then v else JObj []) = Inr g"
      "draft = (case dict_get d ''draft'' of None \<Rightarrow> False | Some v \<Rightarrow> json_truthy v)"
      "valid_graph (sv_registry sv) (jm_session m) g"
      "submit_job env rid sid body sv = await_cont rid (TellJob sid (se_toks env sid (jm_tokens m)))
         (set_manager sid (snd (submit (se_toks env sid) g draft m)) sv)"
proof (cases "loads (se_fc env) body")
  case None
  then show ?thesis using refused assms by (simp add: submit_job_def http_error_def)
next
  case (Some v)
  show ?thesis
  proof (cases v)
    case (JObj d)
    let ?v = "case dict_get d ''graph'' of None \<Rightarrow> JObj [] | Some v \<Rightarrow> if json_truthy v then v else JObj []"
    let ?draft = "case dict_get d ''draft'' of None \<Rightarrow> False | Some v \<Rightarrow> json_truthy v"
    note sj = submit_job_def [of env rid sid body sv, unfolded assms Some option.case JObj json.case]
    show ?thesis
    proof (cases "parse_graph ?v")
      case (Inl e)
      then show ?thesis using refused sj by simp
    next
      case (Inr g)
      show ?thesis
      proof (cases "validate_graph g (sv_registry sv) (jm_session m) = []")
        case False
        then show ?thesis using refused sj Inr by (simp add: Let_def)
      next
        case True
        then have "valid_graph (sv_registry sv) (jm_session m) g" by (simp add: validate_graph_Nil)
        moreover have "submit_job env rid sid body sv = await_cont rid (TellJob sid (se_toks env sid (jm_tokens m)))
            (set_manager sid (snd (submit (se_toks env sid) g ?draft m)) sv)"
          unfolding sj Inr sum.case Let_def using True by (simp add: submit_def Let_def)
        ultimately show ?thesis using accepted Some JObj Inr by blast
      qed
    qed
  qed (use refused assms Some in \<open>simp_all add: submit_job_def http_error_def\<close>)
qed

lemma tables_submit:
  assumes ok: "server_ok env sv"
  shows "tables_move env sv (snd (submit_job env rid sid body sv))"
proof (cases "dict_get (sv_heap sv) sid")
  case None
  then show ?thesis by (intro tables_same [OF ok]) (simp_all add: submit_job_def)
next
  case (Some m)
  then show ?thesis
  proof (cases rule: submit_job_cases [where env = env and rid = rid and body = body])
    case refused
    then show ?thesis by (intro tables_same [OF ok]) simp_all
  next
    case (accepted d g draft)
    have "moves env sid m (snd (submit (se_toks env sid) g draft m))"
      by (rule moves_step [of "Submit g draft"])
        (simp_all add: submits_ok_def job_step_def valid_gate_graph [OF accepted(4)])
    then show ?thesis by (intro tables_set [OF ok Some]) (simp_all add: accepted(5))
  qed
qed

lemma install_extension_form:
  "snd (install_extension env body os sv) = sv \<or>
   snd (install_extension env body os sv) = sv\<lparr>sv_ext := snd (install (se_render env) (se_mk env) os (sv_ext sv))\<rparr>"
proof (cases "\<exists>d c cs. loads (se_fc env) body = Some (JObj d) \<and> dict_get d ''path'' = Some (JStr (c # cs))")
  case True
  then obtain d c cs where d: "loads (se_fc env) body = Some (JObj d)" "dict_get d ''path'' = Some (JStr (c # cs))" by blast
  obtain r st where r: "install (se_render env) (se_mk env) os (sv_ext sv) = (r, st)" by fastforce
  show ?thesis
    unfolding install_extension_def d option.case json.case list.case r prod.case
    by (cases r) (simp_all add: Let_def)
next
  case False
  show ?thesis
  proof (cases "loads (se_fc env) body")
    case (Some v)
    show ?thesis
    proof (cases v)
      case (JObj d)
      show ?thesis
      proof (cases "dict_get d ''path''")
        case p: (Some w)
        show ?thesis
        proof (cases w)
          case (JStr s)
          then have "s = []" using False Some JObj p by (cases s) auto
          then show ?thesis by (simp add: install_extension_def Some JObj p JStr)
        qed (simp_all add: install_extension_def Some JObj p)
      qed (simp add: install_extension_def Some JObj)
    qed (simp_all add: install_extension_def Some)
  qed (simp add: install_extension_def)
qed

lemma tables_step:
  assumes ok: "server_ok env sv" and step: "server_step env a sv = Some (r, sv')"
  shows "tables_move env sv sv'"
proof (cases a)
  case (Arrive rid rq call)
  show ?thesis
  proof (cases "guard (sv_config sv) (rq\<lparr>rq_path := call_path call\<rparr>) = Admitted")
    case True
    then have "sv' = snd (dispatch_call env rid call sv)"
      using step Arrive by (auto simp: server_step_def arrive_def split: if_splits)
    then show ?thesis using tables_dispatch [OF ok] by simp
  next
    case False
    then have "sv' = sv" using step Arrive by (auto simp: server_step_def arrive_def split: if_splits verdict.splits)
    then show ?thesis using tables_same [OF ok] by simp
  qed
next
  case (RawBody rid data)
  then obtain sid ty where "sv' = snd (store_upload env sid ty data (drop_wait rid sv))"
    using step by (auto simp: server_step_def split: option.splits cont.splits)
  moreover have "server_ok env (drop_wait rid sv)" using ok by (simp add: server_ok_def)
  ultimately show ?thesis using tables_store_upload by (fastforce simp: tables_move_def)
next
  case (JsonBody rid body os)
  have ok': "server_ok env (drop_wait rid sv)" using ok by (simp add: server_ok_def)
  from step JsonBody consider sid where "sv' = snd (submit_job env rid sid body (drop_wait rid sv))"
    | "sv' = snd (install_extension env body os (drop_wait rid sv))"
    by (auto simp: server_step_def split: option.splits cont.splits) (metis snd_conv)
  then show ?thesis
  proof cases
    case 1
    then show ?thesis using tables_submit [OF ok'] by (fastforce simp: tables_move_def)
  next
    case 2
    then have "sv' = drop_wait rid sv \<or>
        sv' = (drop_wait rid sv)\<lparr>sv_ext := snd (install (se_render env) (se_mk env) os (sv_ext (drop_wait rid sv)))\<rparr>"
      using install_extension_form by metis
    then show ?thesis by (intro tables_same [OF ok]) auto
  qed
next
  case (Proceed rid)
  from step Proceed consider (pop) sid where "sv' = snd (pop_manager rid sid (drop_wait rid sv))"
    | (stop) sid where "sv' = snd (stop_manager sid (drop_wait rid sv))" | (tell) "sv' = drop_wait rid sv"
    by (auto simp: server_step_def split: option.splits cont.splits) (metis snd_conv)
  then show ?thesis
  proof cases
    case pop
    then show ?thesis by (intro tables_same [OF ok]) (auto simp: pop_manager_def)
  next
    case stop
    show ?thesis
    proof (cases "dict_get (sv_heap sv) sid")
      case None
      then show ?thesis using stop by (intro tables_same [OF ok]) (simp_all add: stop_manager_def)
    next
      case (Some m)
      have "moves env sid m (shutdown m)" by (rule moves_step [of Shutdown]) (simp_all add: submits_ok_def job_step_def)
      then show ?thesis using stop by (intro tables_set [OF ok Some]) (simp_all add: stop_manager_def Some)
    qed
  next
    case tell
    then show ?thesis by (intro tables_same [OF ok]) simp_all
  qed
next
  case (Hangup rid)
  then have "sv' = drop_wait rid sv"
    using step by (auto simp: server_step_def split: option.splits cont.splits)
  then show ?thesis by (intro tables_same [OF ok]) simp_all
next
  case (Engine sid act)
  then obtain m m' where m: "dict_get (sv_heap sv) sid = Some m" "thread_action act"
      "job_step (se_toks env sid) (se_xt env) act m = Some m'" "sv' = set_manager sid m' sv"
    using step by (auto simp: server_step_def split: option.splits if_splits)
  have "submits_ok act" using m(2) by (cases act) (simp_all add: thread_action_def submits_ok_def)
  then show ?thesis using m(4) by (intro tables_set [OF ok m(1) moves_step [OF _ m(3)]]) simp_all
qed

lemma tables_move_trans:
  assumes "tables_move env sv sv1" and "tables_move env sv1 sv2"
  shows "tables_move env sv sv2"
proof -
  have h: "heap_moves env (sv_heap sv) (sv_heap sv1)" "heap_moves env (sv_heap sv1) (sv_heap sv2)"
    using assms by (simp_all add: tables_move_def)
  have "dom (dict_get (sv_heap sv)) \<subseteq> dom (dict_get (sv_heap sv1))"
    using h(1) unfolding heap_moves_def by blast
  then show ?thesis using assms heap_moves_trans [OF h] unfolding tables_move_def by blast
qed

lemma tables_steps:
  "server_ok env sv \<Longrightarrow> server_steps env as sv = Some (rs, sv') \<Longrightarrow> tables_move env sv sv'"
proof (induction as arbitrary: sv rs)
  case Nil
  then show ?case using tables_same by simp
next
  case (Cons a as)
  then obtain r sv1 rs1 where st: "server_step env a sv = Some (r, sv1)" "server_steps env as sv1 = Some (rs1, sv')"
    by (auto split: option.splits)
  note mv = tables_step [OF Cons.prems(1) st(1)]
  then have "server_ok env sv1" by (simp add: tables_move_def)
  with Cons.IH st(2) mv show ?case using tables_move_trans by blast
qed

lemma server_ok_start:
  "create_app env config reg disk = Inr sv \<Longrightarrow> inj (se_sids env) \<Longrightarrow> server_ok env sv \<and> sv_heap sv = []"
  by (auto simp: create_app_def Let_def server_ok_def split: if_splits sum.splits prod.splits)

theorem server_sessions:
  assumes "create_app env config reg disk = Inr sv0" and "inj (se_sids env)"
    and "server_steps env as sv0 = Some (rs, sv)" and "dict_get (sv_heap sv) sid = Some m"
  shows "\<exists>bs. list_all submits_ok bs \<and> job_steps (se_toks env sid) (se_xt env) bs (fresh_manager sid) = Some m"
  using tables_steps [OF _ assms(3)] server_ok_start [OF assms(1,2)] assms(4)
  by (fastforce simp: tables_move_def heap_moves_def moves_def)

end
