(* ===== verification/ServerFacts.thy ===== *)
theory ServerFacts
  imports ServerRuns
begin

text \<open>
  What a client sees of the server, in every interleaving: an upload can be downloaded as long
  as its session lives, a deleted session is gone and its jobs are flagged, a submission is
  answered as \<open>parse_graph\<close> and \<open>validate_graph\<close> say, and a request without credentials does nothing.
\<close>

section \<open>Uploads and downloads\<close>

lemma payloads_steps:
  "ids_inv tok ses0 m \<Longrightarrow> fresh_tokens tok ses0 \<Longrightarrow> job_steps tok xt bs m = Some m' \<Longrightarrow>
     get_payload (jm_session m) \<subseteq>\<^sub>m get_payload (jm_session m')"
proof (induction bs arbitrary: m)
  case (Cons b bs)
  then obtain m1 where m1: "job_step tok xt b m = Some m1" "job_steps tok xt bs m1 = Some m'"
    by (auto split: bind_splits)
  with ids_step [OF Cons.prems(1,2) m1(1)] Cons.IH Cons.prems(2) show ?case using map_le_trans by blast
qed simp

lemma fresh_session: "inj tok \<Longrightarrow> fresh_tokens tok \<lparr>ses_id = sid, ses_payloads = []\<rparr>"
  by (simp add: fresh_tokens_def get_payload_def dom_def)

lemma manager_ids:
  assumes "create_app env config reg disk = Inr sv0" and "inj (se_sids env)" and "inj (se_toks env sid)"
    and "server_steps env as sv0 = Some (rs, sv)" and "dict_get (sv_heap sv) sid = Some m"
  shows "ids_inv (se_toks env sid) \<lparr>ses_id = sid, ses_payloads = []\<rparr> m"
proof -
  obtain bs where "list_all submits_ok bs" "job_steps (se_toks env sid) (se_xt env) bs (fresh_manager sid) = Some m"
    using server_sessions [OF assms(1,2,4,5)] by blast
  then show ?thesis using session_runs [OF fresh_session [OF assms(3)]] unfolding fresh_manager_def by blast
qed

lemma server_steps_append:
  "server_steps env as sv = Some (rs, sv1) \<Longrightarrow> server_steps env bs sv1 = Some (rs', sv2) \<Longrightarrow>
     server_steps env (as @ bs) sv = Some (rs @ rs', sv2)"
  by (induction as arbitrary: sv rs) (auto split: option.splits)

lemma steps_moves:
  assumes "create_app env config reg disk = Inr sv0" and "inj (se_sids env)"
    and "server_steps env as sv0 = Some (rs, sv)" and "server_steps env bs sv = Some (rs', sv')"
  shows "tables_move env sv sv'" and "server_ok env sv"
proof -
  show "server_ok env sv"
    using tables_steps [OF _ assms(3)] server_ok_start [OF assms(1,2)] by (simp add: tables_move_def)
  from tables_steps [OF this assms(4)] show "tables_move env sv sv'" .
qed

lemma tables_move_manager:
  assumes "tables_move env sv sv'" and "dict_get (sv_heap sv) sid = Some m"
  obtains m' bs where "dict_get (sv_heap sv') sid = Some m'" and "list_all submits_ok bs"
    and "job_steps (se_toks env sid) (se_xt env) bs m = Some m'"
proof -
  have "\<exists>m'. dict_get (sv_heap sv') sid = Some m' \<and> moves env sid m m'"
    using assms unfolding tables_move_def heap_moves_def by blast
  then show ?thesis using that unfolding moves_def by blast
qed

lemma upload_downloads:
  assumes start: "create_app env config reg disk = Inr sv0" "inj (se_sids env)" "inj (se_toks env sid)"
    and run: "server_steps env as sv0 = Some (rs, sv)" and wait: "dict_get (sv_waiting sv) rid = Some (AwaitUpload sid ty)"
    and step: "server_step env (RawBody rid data) sv = Some (Some (201, rep), sv1)"
    and run': "server_steps env bs sv1 = Some (rs', sv2)" and live: "sid \<in> set (sv_store sv2)"
  shows "\<exists>pid. rep = JsonReply (JObj [(''id'', JStr pid), (''type'', JStr ty)]) \<and>
    download_payload sid pid sv2 = (200, Content data ty)"
proof -
  from step wait obtain m where m: "dict_get (sv_heap sv) sid = Some m" "data \<noteq> []"
      "rep = JsonReply (JObj [(''id'', JStr (se_toks env sid (jm_tokens m))), (''type'', JStr ty)])"
      "sv1 = set_manager sid (upload (se_toks env sid) ty data m) (drop_wait rid sv)"
    by (auto simp: server_step_def store_upload_def Let_def add_payload_def not_found_def http_error_def
        split: option.splits if_splits)
  let ?pid = "se_toks env sid (jm_tokens m)" and ?m1 = "upload (se_toks env sid) ty data m"
  have r1: "server_steps env (as @ [RawBody rid data]) sv0 = Some (rs @ [Some (201, rep)], sv1)"
    by (rule server_steps_append [OF run]) (simp add: step)
  have h1: "dict_get (sv_heap sv1) sid = Some ?m1" by (simp add: m(4))
  have p1: "get_payload (jm_session ?m1) ?pid = Some \<lparr>pl_id = ?pid, pl_type = ty, pl_data = data\<rparr>"
    by (simp add: add_payload_get)
  obtain m2 cs where m2: "dict_get (sv_heap sv2) sid = Some m2" "job_steps (se_toks env sid) (se_xt env) cs ?m1 = Some m2"
    using tables_move_manager [OF steps_moves(1) [OF start(1,2) r1 run'] h1] by blast
  have "get_payload (jm_session ?m1) \<subseteq>\<^sub>m get_payload (jm_session m2)"
    by (rule payloads_steps [OF manager_ids [OF start(1,2,3) r1 h1] fresh_session [OF start(3)] m2(2)])
  then have "get_payload (jm_session m2) ?pid = Some \<lparr>pl_id = ?pid, pl_type = ty, pl_data = data\<rparr>"
    using p1 by (metis domI map_le_def)
  then show ?thesis using m(3) m2(1) live by (auto simp: download_payload_def session_or_404_def)
qed

section \<open>Deletion\<close>

definition call_session :: "api_call \<Rightarrow> string option" where
  "call_session c = (case c of
     DeleteSession sid \<Rightarrow> Some sid | UploadPayload sid ty \<Rightarrow> (if ty = None \<or> ty = Some [] then None else Some sid)
   | DownloadPayload sid pid \<Rightarrow> Some sid | SubmitJob sid \<Rightarrow> Some sid | GetJob sid jid \<Rightarrow> Some sid
   | CancelCall sid jid \<Rightarrow> Some sid | Events sid \<Rightarrow> Some sid | _ \<Rightarrow> None)"

lemma gone_not_found:
  assumes "call_session call = Some sid" and "sid \<notin> set (sv_store sv)" and "sid \<notin> set (sv_managers sv)"
  shows "dispatch_call env rid call sv = (Some not_found, sv)"
proof -
  have "session_or_404 sid sv = Inl not_found" "manager_or_404 sid sv = Inl not_found"
    using assms(2,3) by (simp_all add: session_or_404_def manager_or_404_def)
  then show ?thesis
    using assms by (cases call)
      (auto simp: call_session_def dispatch_call_def delete_session_def upload_payload_def download_payload_def
        submit_call_def get_job_def cancel_job_def events_call_def split: if_splits option.splits)
qed

lemma deleted_stays_gone:
  assumes start: "create_app env config reg disk = Inr sv0" "inj (se_sids env)"
    and run: "server_steps env as sv0 = Some (rs, sv)" and gone: "dict_get (sv_heap sv) sid \<noteq> None"
      "sid \<notin> set (sv_store sv)" "sid \<notin> set (sv_managers sv)"
    and run': "server_steps env bs sv = Some (rs', sv')" and c: "call_session call = Some sid"
  shows "dispatch_call env rid call sv' = (Some not_found, sv')"
  using steps_moves(1) [OF start run run'] gone
  by (intro gone_not_found [OF c]) (auto simp: tables_move_def)

text \<open>The last piece of a deletion flags every job that has not ended, for good.\<close>

lemma deletion_cancels:
  assumes start: "create_app env config reg disk = Inr sv0" "inj (se_sids env)" "inj (se_toks env sid)"
    and run: "server_steps env as sv0 = Some (rs, sv)" and wait: "dict_get (sv_waiting sv) rid = Some (StopManager sid)"
    and m: "dict_get (sv_heap sv) sid = Some m" and run': "server_steps env (Proceed rid # bs) sv = Some (rs', sv')"
    and j: "job_get m jid = Some j" "j_status j \<notin> terminal"
  shows "\<exists>m'. dict_get (sv_heap sv') sid = Some m' \<and> cancelled_in m' jid"
proof -
  let ?tok = "se_toks env sid" and ?sv1 = "set_manager sid (shutdown m) (drop_wait rid sv)"
  have st: "server_step env (Proceed rid) sv = Some (Some (204, NoBody), ?sv1)"
    using wait m by (simp add: server_step_def stop_manager_def)
  then obtain rs1 where r2: "server_steps env bs ?sv1 = Some (rs1, sv')"
    using run' by (auto split: option.splits)
  have r1: "server_steps env (as @ [Proceed rid]) sv0 = Some (rs @ [Some (204, NoBody)], ?sv1)"
    by (rule server_steps_append [OF run]) (simp add: st)
  have h1: "dict_get (sv_heap ?sv1) sid = Some (shutdown m)" by simp
  obtain m' cs where m': "dict_get (sv_heap sv') sid = Some m'" "list_all submits_ok cs"
      "job_steps ?tok (se_xt env) cs (shutdown m) = Some m'"
    using tables_move_manager [OF steps_moves(1) [OF start(1,2) r1 r2] h1] by blast
  obtain ds where ds: "list_all submits_ok ds" "job_steps ?tok (se_xt env) ds (fresh_manager sid) = Some m"
    using server_sessions [OF start(1,2) run m] by blast
  have "job_steps ?tok (se_xt env) (Shutdown # cs) m = Some m'" using m'(3) by (simp add: job_step_def)
  moreover have "list_all submits_ok (ds @ Shutdown # cs)" using ds(1) m'(2) by (simp add: submits_ok_def)
  ultimately have "cancelled_in m' jid"
    using cancel_sticks [OF fresh_session [OF start(3)], of ds Shutdown cs] ds(2) j unfolding fresh_manager_def by blast
  then show ?thesis using m'(1) by blast
qed

section \<open>Submissions\<close>

definition graph_field :: "(string \<times> json) list \<Rightarrow> json" where
  "graph_field d = (case dict_get d ''graph'' of None \<Rightarrow> JObj [] | Some v \<Rightarrow> if json_truthy v then v else JObj [])"

definition draft_field :: "(string \<times> json) list \<Rightarrow> bool" where
  "draft_field d = (case dict_get d ''draft'' of None \<Rightarrow> False | Some v \<Rightarrow> json_truthy v)"

text \<open>
  One new pending job with the graph, and nothing else: the tables of the server are as before but
  for the manager of the session, whose other jobs and payloads are as before; the next step of
  the request answers 201 with the id of the job and the status \<^verbatim>\<open>pending\<close>.
\<close>

definition starts_job :: "server_env \<Rightarrow> nat \<Rightarrow> string \<Rightarrow> graph \<Rightarrow> bool \<Rightarrow> manager \<Rightarrow> server \<Rightarrow> server \<Rightarrow> bool" where
  "starts_job env rid sid g draft m sv sv' \<longleftrightarrow> (let jid = se_toks env sid (jm_tokens m) in
     \<exists>m'. sv' = snd (await_cont rid (TellJob sid jid) (set_manager sid m' (drop_wait rid sv))) \<and>
       job_get m' = (job_get m)(jid \<mapsto> new_job jid) \<and> dict_get (jm_threads m') jid = Some (new_thread g draft) \<and>
       jm_session m' = jm_session m \<and>
       tell_job sid jid sv' = (201, JsonReply (JObj [(''id'', JStr jid), (''status'', JStr (status_text Pending))])))"

lemma submission_answers:
  assumes wait: "dict_get (sv_waiting sv) rid = Some (AwaitGraph sid)" and m: "dict_get (sv_heap sv) sid = Some m"
    and step: "server_step env (JsonBody rid body os) sv = Some (r, sv')"
  shows "case loads (se_fc env) body of
      Some (JObj d) \<Rightarrow>
        (case parse_graph (graph_field d) of
           Inl e \<Rightarrow> r = Some (422, BadGraph e) \<and> sv' = drop_wait rid sv
         | Inr g \<Rightarrow>
             if valid_graph (sv_registry sv) (jm_session m) g
             then r = None \<and> starts_job env rid sid g (draft_field d) m sv sv'
             else r = Some (422, RefusedGraph (validate_graph g (sv_registry sv) (jm_session m))) \<and> sv' = drop_wait rid sv)
    | _ \<Rightarrow> (\<exists>detail. r = Some (http_error 400 detail)) \<and> sv' = drop_wait rid sv"
proof -
  let ?sv = "drop_wait rid sv"
  have s: "(r, sv') = submit_job env rid sid body ?sv" using step wait by (simp add: server_step_def)
  have m': "dict_get (sv_heap ?sv) sid = Some m" and reg: "sv_registry ?sv = sv_registry sv"
    using m by (simp_all add: sv_registry_def)
  note sj = submit_job_def [of env rid sid body ?sv, unfolded m' option.case reg]
  show ?thesis
  proof (cases "loads (se_fc env) body")
    case (Some v)
    show ?thesis
    proof (cases v)
      case (JObj d)
      note sj' = sj [unfolded Some JObj option.case json.case, folded graph_field_def draft_field_def]
      show ?thesis
      proof (cases "parse_graph (graph_field d)")
        case (Inl e)
        then show ?thesis using s sj' Some JObj by simp
      next
        case (Inr g)
        show ?thesis
        proof (cases "valid_graph (sv_registry sv) (jm_session m) g")
          case True
          let ?jid = "se_toks env sid (jm_tokens m)" and ?m = "snd (submit (se_toks env sid) g (draft_field d) m)"
          have "submit_job env rid sid body ?sv = await_cont rid (TellJob sid ?jid) (set_manager sid ?m ?sv)"
            using True unfolding sj' Inr sum.case Let_def by (simp add: validate_graph_Nil submit_def Let_def)
          then have r: "r = None" "sv' = snd (await_cont rid (TellJob sid ?jid) (set_manager sid ?m ?sv))"
            using s by (simp_all add: await_cont_def)
          have "dict_get (sv_heap sv') sid = Some ?m" unfolding r(2) by (simp add: await_cont_def)
          moreover have "job_get ?m ?jid = Some (new_job ?jid)" by simp
          ultimately have t: "tell_job sid ?jid sv' = (201, JsonReply (JObj [(''id'', JStr ?jid), (''status'', JStr (status_text Pending))]))"
            by (simp add: tell_job_def new_job_def)
          have "starts_job env rid sid g (draft_field d) m sv sv'"
            unfolding starts_job_def Let_def using r(2) t by (intro exI [of _ ?m]) (simp add: fun_eq_iff)
          then show ?thesis
            unfolding Some JObj option.case json.case Inr sum.case using True r(1) by simp
        next
          case False
          then show ?thesis using s sj' Some JObj Inr by (simp add: Let_def validate_graph_Nil)
        qed
      qed
    qed (use s sj Some in auto)
  qed (use s sj in auto)
qed

text \<open>The body as a client prints it.\<close>

definition client_body :: "string \<Rightarrow> string \<Rightarrow> graph \<Rightarrow> bool \<Rightarrow> string" where
  "client_body isep ksep g draft = dumps isep ksep (JObj [(''graph'', graph_to_json g), (''draft'', JBool draft)])"

lemma loads_client_body:
  assumes "sep_ok CHR '','' isep" and "sep_ok CHR '':'' ksep" and "plain_params fc g"
  shows "loads fc (client_body isep ksep g draft) = Some (JObj [(''graph'', graph_to_json g), (''draft'', JBool draft)])"
  unfolding client_body_def using assms wf_graph_to_json [OF assms(3)] by (intro loads_dumps) simp_all

lemma client_fields:
  "graph_field [(''graph'', graph_to_json g), (''draft'', JBool draft)] = graph_to_json g"
  "draft_field [(''graph'', graph_to_json g), (''draft'', JBool draft)] = draft"
  by (simp_all add: graph_field_def draft_field_def graph_to_json_def json_truthy_def)

lemma client_submission:
  assumes "dict_get (sv_waiting sv) rid = Some (AwaitGraph sid)" and "dict_get (sv_heap sv) sid = Some m"
    and "sep_ok CHR '','' isep" and "sep_ok CHR '':'' ksep" and "plain_params (se_fc env) g"
    and "server_step env (JsonBody rid (client_body isep ksep g draft) os) sv = Some (r, sv')"
  shows "if valid_graph (sv_registry sv) (jm_session m) g then r = None \<and> starts_job env rid sid g draft m sv sv'
    else r = Some (422, RefusedGraph (validate_graph g (sv_registry sv) (jm_session m))) \<and> sv' = drop_wait rid sv"
  using submission_answers [OF assms(1,2,6)]
  unfolding loads_client_body [OF assms(3-5)] option.case json.case client_fields parse_graph_to_json sum.case .

section \<open>Credentials\<close>

lemma without_credentials:
  assumes c: "build_config generated args env_token = Inr (sv_config sv)" and g: "generated \<noteq> []"
    and no: "\<not> bears (c_token (sv_config sv)) (header_or_empty (rq_auth rq))" and call: "call \<noteq> Health"
    and step: "server_step env (Arrive rid rq call) sv = Some (r, sv')"
  shows "sv' = sv \<and> (\<exists>code text. r = Some (code, TextReply text) \<and> code \<in> {401, 403, 500})"
proof -
  let ?rq = "rq\<lparr>rq_path := call_path call\<rparr>"
  have "call_path call \<noteq> ''/health''" using call by (cases call) (simp_all add: call_path_def)
  then have "guard (sv_config sv) ?rq \<noteq> Admitted" using guard_admits [OF c g, of ?rq] no by simp
  moreover have "code \<in> {401, 403}" if "guard (sv_config sv) ?rq = Denied code msg" for code msg
    using that by (auto simp: guard_def check_token_def Let_def split: if_splits option.splits)
  ultimately show ?thesis
    using step by (auto simp: server_step_def arrive_def split: if_splits verdict.splits)
qed

end
