(* ===== verification/ExecExamples.thy ===== *)
theory ExecExamples
  imports ExecCalls
begin

text \<open>
  Three small executions for the witnesses. \<open>demo_env\<close> is a chain of two copies of a payload, run
  from an empty cache to the end on two workers. \<open>split_env\<close> has a module with two output ports
  whose two consumers read different ports and share a cache key: its run returns outputs that the
  sequential evaluation does not. In \<open>twin_env\<close> both consumers read the same port, so that the second
  one is rightly served from the cache.
\<close>

definition copy_run :: "(string, bytes) dict \<Rightarrow> params \<Rightarrow> bool \<Rightarrow> py_exn + results" where
  "copy_run inputs ps draft = (case dict_get inputs ''in'' of
     None \<Rightarrow> Inl (PyError ''KeyError'')
   | Some d \<Rightarrow> Inr [(''out'', \<lparr>r_type = ''t'', r_data = d @ [0]\<rparr>)])"

definition copy_module :: pymodule where
  "copy_module = \<lparr>mod_manifest = \<lparr>m_name = ''c'', m_version = ''1'', m_description = [],
     m_inputs = [\<lparr>port_name = ''in'', port_type = ''t''\<rparr>],
     m_outputs = [\<lparr>port_name = ''out'', port_type = ''t''\<rparr>], m_isolation = ''core''\<rparr>,
     mod_run = copy_run\<rparr>"

definition demo_graph :: graph where
  "demo_graph = \<lparr>g_nodes = [\<lparr>nd_id = ''a'', nd_module = ''c'', nd_params = []\<rparr>,
       \<lparr>nd_id = ''b'', nd_module = ''c'', nd_params = []\<rparr>],
     g_edges = [\<lparr>from_node = ''a'', from_port = ''out'', to_node = ''b'', to_port = ''in''\<rparr>],
     g_bindings = [\<lparr>b_payload = ''p'', b_node = ''a'', b_port = ''in''\<rparr>],
     g_outputs = [\<lparr>o_node = ''b'', o_port = ''out'', o_group = None\<rparr>], g_groups = []\<rparr>"

definition demo_session :: session where
  "demo_session = \<lparr>ses_id = ''s'', ses_payloads = [(''p'', \<lparr>pl_id = ''p'', pl_type = ''t'', pl_data = [7]\<rparr>)]\<rparr>"

definition plain_digest :: "bytes \<Rightarrow> string" where
  "plain_digest b = map (\<lambda>w. char_of (unat w)) b"

definition demo_env :: exec_env where
  "demo_env = \<lparr>e_graph = demo_graph, e_reg = [(''c'', copy_module)], e_ses = demo_session,
     e_draft = False, e_workers = 2, e_hash = plain_digest\<rparr>"

definition demo_acts :: "exec_action list" where
  "demo_acts = [Main [], Main [], Main [], Start, Task ''a'', Task ''a'', Task ''a'', Task ''a'', Task ''a'', Task ''a'',
     Task ''a'', Main [''a''], Main [''b''], Main [], Main [], Main [], Main [],
     Start, Task ''b'', Task ''b'', Task ''b'', Task ''b'', Task ''b'', Task ''b'', Task ''b'', Task ''b'', Task ''b'',
     Main [''b''], Main [], Main [], Main [], Main []]"


definition key_a :: string where
  "key_a = task_key demo_env \<lparr>nd_id = ''a'', nd_module = ''c'', nd_params = []\<rparr> (mod_manifest copy_module)
     [content_hash (e_hash demo_env) [7]]"

definition key_b :: string where
  "key_b = task_key demo_env \<lparr>nd_id = ''b'', nd_module = ''c'', nd_params = []\<rparr> (mod_manifest copy_module) [key_a]"

definition demo_report :: exec_report where
  "demo_report = \<lparr>rep_outputs = [\<lparr>eo_node = ''b'', eo_port = ''out'', eo_type = ''t'', eo_data = [7, 0, 0]\<rparr>],
     rep_executed = [''b'', ''a''], rep_cached = []\<rparr>"

lemma demo_lookup:
  "node_lookup demo_env ''a'' = Inr (\<lparr>nd_id = ''a'', nd_module = ''c'', nd_params = []\<rparr>, copy_module)"
  "node_lookup demo_env ''b'' = Inr (\<lparr>nd_id = ''b'', nd_module = ''c'', nd_params = []\<rparr>, copy_module)"
  by (simp_all add: node_lookup_def demo_env_def demo_graph_def nodes_by_id_def dict_of_def registry_get_def)

lemma demo_wiring:
  "binding_into demo_graph = [((''a'', ''in''), ''p'')]"
  "edge_into demo_graph = [((''b'', ''in''), (''a'', ''out''))]"
  "node_outputs demo_graph ''a'' = []"
  "node_outputs demo_graph ''b'' = [(''b'', ''out'')]"
  by (simp_all add: demo_graph_def binding_into_def edge_into_def dict_of_def node_outputs_filter)

lemma demo_fields: "e_graph demo_env = demo_graph" "e_ses demo_env = demo_session" "e_draft demo_env = False"
  "m_inputs (mod_manifest copy_module) = [\<lparr>port_name = ''in'', port_type = ''t''\<rparr>]"
  "get_payload demo_session ''p'' = Some \<lparr>pl_id = ''p'', pl_type = ''t'', pl_data = [7]\<rparr>"
  "pool_size demo_env = 2" "mod_run copy_module = copy_run"
  "g_outputs demo_graph = [\<lparr>o_node = ''b'', o_port = ''out'', o_group = None\<rparr>]"
  by (simp_all add: demo_env_def demo_session_def get_payload_def copy_module_def pool_size_def demo_graph_def)

lemma demo_contract: "contract_error (mod_manifest copy_module) [(''out'', \<lparr>r_type = ''t'', r_data = d\<rparr>)] = None"
  by (simp add: contract_error_def declared_types_def dict_of_def copy_module_def)

definition demo_start :: exec_state where
  "demo_start = \<lparr>x_pc = Loop, x_tasks = [], x_ready = [''a''], x_in_flight = [],
     x_deps = [(''a'', []), (''b'', [''a''])], x_dependents = [(''a'', [''b'']), (''b'', [])],
     x_keys = [], x_results = [], x_executed = [], x_cached = [], x_emitted = [], x_cache = [],
     x_cancel = False, x_calls = []\<rparr>"

lemma demo_valid: "validate_graph demo_graph (e_reg demo_env) demo_session = []"
  by code_simp

lemma demo_topo: "topological_order demo_graph = Some [''a'', ''b'']"
  by code_simp

lemma demo_exec_start: "exec_start demo_env [] False = Inr demo_start"
  unfolding exec_start_def Let_def demo_fields demo_valid demo_topo
  by (simp add: demo_graph_def empty_sets_def dict_of_def set_add_def demo_start_def)

lemma plain_digest_inj: "inj (map (\<lambda>w :: 8 word. char_of (unat w) :: char))"
proof (rule inj_mapI, rule injI)
  fix v w :: "8 word"
  assume "char_of (unat v) = (char_of (unat w) :: char)"
  then have "of_char (char_of (unat v) :: char) = (of_char (char_of (unat w) :: char) :: nat)" by simp
  then show "v = w" 
    using unsigned_less [of v, where 'a = nat] unsigned_less [of w, where 'a = nat]
    by (simp add: word_unat_eq_iff)
qed

lemma plain_digest_eq: "plain_digest x = plain_digest y \<longleftrightarrow> x = y"
  unfolding plain_digest_def by (rule inj_eq [OF plain_digest_inj])

lemma demo_hash_inj: "e_hash demo_env x = e_hash demo_env y \<longleftrightarrow> x = y"
  by (simp add: demo_env_def plain_digest_eq)

lemma recipe_text_head: "\<exists>t. recipe_text name version ps keys draft = CHR ''{'' # t"
  by (simp add: recipe_text_def recipe_object_def)

lemma recipe_not_payload: "encode (recipe_text name version ps keys draft) \<noteq> [7]"
proof -
  obtain t where "recipe_text name version ps keys draft = CHR ''{'' # t" using recipe_text_head by blast
  then show ?thesis by (simp add: encode_def)
qed

lemma keys_differ: "key_b \<noteq> key_a"
proof
  assume "key_b = key_a"
  then have "encode (recipe_text ''c'' ''1'' [] [key_a] False) =
      encode (recipe_text ''c'' ''1'' [] [content_hash (e_hash demo_env) [7]] False)"
    unfolding key_b_def key_a_def [THEN arg_cong [where f = "\<lambda>k. _ = k"]]
    by (simp add: task_key_def recipe_key_def demo_hash_inj copy_module_def demo_fields)
  then have "recipe_text ''c'' ''1'' [] [key_a] False = recipe_text ''c'' ''1'' [] [content_hash (e_hash demo_env) [7]] False"
    by (rule encode_inj)
  note text_eq = this
  have wf: "wf_json (\<lambda>t. t) (JObj [])" by simp
  from recipe_text_inj [OF wf wf text_eq] have "key_a = content_hash (e_hash demo_env) [7]" by simp
  then show False
    by (simp add: key_a_def task_key_def recipe_key_def content_hash_def demo_hash_inj recipe_not_payload)
qed

lemmas demo_simps = exec_step_def main_step_def pool_step_def task_step_def submit_node_def process_future_def
  close_pool_def task_defs demo_lookup demo_wiring demo_fields demo_contract copy_run_def running_def finished_def
  task_finished_def cache_get_def cache_put_def keys_differ key_a_def [symmetric] key_b_def [symmetric]

definition demo_end :: exec_state where
  "demo_end = the (exec_run demo_env demo_acts demo_start)"

lemma demo_run: "\<exists>s. exec_run demo_env demo_acts demo_start = Some s \<and> x_pc s = Returned demo_report"
  unfolding demo_acts_def demo_start_def
  by (simp add: demo_simps demo_report_def)

lemma demo_leaf: "leaf_bytes demo_env \<subseteq> {[7]}"
proof -
  have "dict_get (binding_into demo_graph) k = Some pid \<Longrightarrow> pid = ''p''" for k pid
    by (auto simp: demo_wiring split: if_splits)
  then show ?thesis unfolding leaf_bytes_def bound_to_def demo_fields by (fastforce simp: demo_fields)
qed

lemma demo_recipe: "[7] \<notin> recipe_bytes env"
proof
  assume "[7] \<in> recipe_bytes env"
  then obtain n v ps ks d where "[7] = encode (recipe_text n v ps ks d)"
    unfolding recipe_bytes_def mem_Collect_eq by blast
  then show False using recipe_not_payload [of n v ps ks d] by simp
qed

lemma demo_uses: "uses {demo_env} nd md \<Longrightarrow> nd_params nd = [] \<and> md = copy_module"
proof -
  assume "uses {demo_env} nd md"
  then obtain n where n: "node_lookup demo_env n = Inr (nd, md)" by (auto simp: uses_def)
  then have nd: "dict_get (nodes_by_id demo_graph) n = Some nd" "registry_get (e_reg demo_env) (nd_module nd) = Some md"
    by (auto simp: node_lookup_def demo_env_def split: option.splits)
  have "nd \<in> set (g_nodes demo_graph)" using nd(1) unfolding nodes_by_id_def by (auto dest: dict_of_get_in)
  then show ?thesis using nd(2) by (auto simp: demo_graph_def demo_env_def registry_get_def split: if_splits)
qed

lemma copy_reads: "reads_port E copy_module q \<Longrightarrow> reads_port E copy_module q' \<Longrightarrow> q = q'"
  by (rule reads_single) (simp_all add: copy_module_def)

lemma demo_compatible: "compatible (\<lambda>t. t) {demo_env}"
  unfolding compatible_def
proof
  have "inj_on (e_hash demo_env) A" for A by (auto simp: inj_on_def demo_hash_inj)
  then show "collision_free {demo_env}"
    using demo_leaf demo_recipe unfolding collision_free_def by blast
  show "well_behaved (\<lambda>t. t) {demo_env}"
    unfolding well_behaved_def using copy_reads by (auto dest!: demo_uses simp: copy_module_def copy_run_def)
qed

lemma demo_reach: "\<exists>s. reach demo_env (shared_by {demo_env}) demo_start s \<and> x_pc s = Returned demo_report"
proof -
  obtain s where s: "exec_run demo_env demo_acts demo_start = Some s" "x_pc s = Returned demo_report"
    using demo_run by blast
  have "list_all (allowed (shared_by {demo_env})) demo_acts" by (simp add: demo_acts_def)
  with s reach_run [OF reach_init] show ?thesis by blast
qed

lemma demo_cache_ok: "cache_ok E []"
  by (simp add: cache_ok_def cache_get_def)

section \<open>A module with two outputs\<close>

text \<open>
  \<open>u\<close> splits its input on the ports \<open>x\<close> and \<open>y\<close>; \<open>a\<close> copies \<open>x\<close> and \<open>b\<close> copies \<open>y\<close>. The input key of
  both is the key of \<open>u\<close>, whatever the port, so that \<open>b\<close> is served the result of \<open>a\<close>.
\<close>

definition split_run :: "(string, bytes) dict \<Rightarrow> params \<Rightarrow> bool \<Rightarrow> py_exn + results" where
  "split_run inputs ps draft = Inr [(''x'', \<lparr>r_type = ''t'', r_data = [1]\<rparr>), (''y'', \<lparr>r_type = ''t'', r_data = [2]\<rparr>)]"

definition split_module :: pymodule where
  "split_module = \<lparr>mod_manifest = \<lparr>m_name = ''s'', m_version = ''1'', m_description = [],
     m_inputs = [], m_outputs = [\<lparr>port_name = ''x'', port_type = ''t''\<rparr>, \<lparr>port_name = ''y'', port_type = ''t''\<rparr>],
     m_isolation = ''core''\<rparr>, mod_run = split_run\<rparr>"

definition split_graph :: graph where
  "split_graph = \<lparr>g_nodes = [\<lparr>nd_id = ''u'', nd_module = ''s'', nd_params = []\<rparr>,
       \<lparr>nd_id = ''a'', nd_module = ''c'', nd_params = []\<rparr>, \<lparr>nd_id = ''b'', nd_module = ''c'', nd_params = []\<rparr>],
     g_edges = [\<lparr>from_node = ''u'', from_port = ''x'', to_node = ''a'', to_port = ''in''\<rparr>,
       \<lparr>from_node = ''u'', from_port = ''y'', to_node = ''b'', to_port = ''in''\<rparr>],
     g_bindings = [], g_outputs = [\<lparr>o_node = ''a'', o_port = ''out'', o_group = None\<rparr>,
       \<lparr>o_node = ''b'', o_port = ''out'', o_group = None\<rparr>], g_groups = []\<rparr>"

definition split_env :: "(bytes \<Rightarrow> string) \<Rightarrow> exec_env" where
  "split_env H = \<lparr>e_graph = split_graph, e_reg = [(''s'', split_module), (''c'', copy_module)],
     e_ses = demo_session, e_draft = False, e_workers = 1, e_hash = H\<rparr>"

definition split_acts :: "exec_action list" where
  "split_acts = [Main [], Main [], Main [], Start] @ replicate 7 (Task ''u'') @
     [Main [''u''], Main [''a'', ''b''], Main [], Main [], Main [], Main [], Main [], Start] @
     replicate 9 (Task ''a'') @ [Start] @ replicate 6 (Task ''b'') @
     [Main [''a'', ''b''], Main [], Main [], Main [], Main [], Main []]"

definition split_key :: "(bytes \<Rightarrow> string) \<Rightarrow> string" where
  "split_key H = task_key (split_env H) \<lparr>nd_id = ''u'', nd_module = ''s'', nd_params = []\<rparr>
     (mod_manifest split_module) []"

definition branch_key :: "(bytes \<Rightarrow> string) \<Rightarrow> string" where
  "branch_key H = task_key (split_env H) \<lparr>nd_id = ''a'', nd_module = ''c'', nd_params = []\<rparr>
     (mod_manifest copy_module) [split_key H]"

lemma branch_key_b:
  "task_key (split_env H) \<lparr>nd_id = ''b'', nd_module = ''c'', nd_params = []\<rparr>
     (mod_manifest copy_module) [split_key H] = branch_key H"
  by (simp add: branch_key_def task_key_def)

definition split_output :: "string \<Rightarrow> bytes \<Rightarrow> exec_output" where
  "split_output n d = \<lparr>eo_node = n, eo_port = ''out'', eo_type = ''t'', eo_data = d\<rparr>"

lemma split_lookup:
  "node_lookup (split_env H) ''u'' = Inr (\<lparr>nd_id = ''u'', nd_module = ''s'', nd_params = []\<rparr>, split_module)"
  "node_lookup (split_env H) ''a'' = Inr (\<lparr>nd_id = ''a'', nd_module = ''c'', nd_params = []\<rparr>, copy_module)"
  "node_lookup (split_env H) ''b'' = Inr (\<lparr>nd_id = ''b'', nd_module = ''c'', nd_params = []\<rparr>, copy_module)"
  by (simp_all add: node_lookup_def split_env_def split_graph_def nodes_by_id_def dict_of_def registry_get_def)

lemma split_wiring:
  "binding_into split_graph = []"
  "edge_into split_graph = [((''a'', ''in''), (''u'', ''x'')), ((''b'', ''in''), (''u'', ''y''))]"
  "node_outputs split_graph ''u'' = []"
  "node_outputs split_graph ''a'' = [(''a'', ''out'')]"
  "node_outputs split_graph ''b'' = [(''b'', ''out'')]"
  by (simp_all add: split_graph_def binding_into_def edge_into_def dict_of_def node_outputs_filter)

lemma split_fields: "e_graph (split_env H) = split_graph" "e_draft (split_env H) = False"
  "m_inputs (mod_manifest split_module) = []" "mod_run split_module = split_run"
  "pool_size (split_env H) = 1"
  "g_outputs split_graph = [\<lparr>o_node = ''a'', o_port = ''out'', o_group = None\<rparr>,
     \<lparr>o_node = ''b'', o_port = ''out'', o_group = None\<rparr>]"
  by (simp_all add: split_env_def split_module_def pool_size_def split_graph_def)

lemma split_contract:
  "contract_error (mod_manifest split_module) [(''x'', \<lparr>r_type = ''t'', r_data = d\<rparr>), (''y'', \<lparr>r_type = ''t'', r_data = e\<rparr>)] = None"
  by (simp add: contract_error_def declared_types_def dict_of_def split_module_def)

definition split_start :: exec_state where
  "split_start = \<lparr>x_pc = Loop, x_tasks = [], x_ready = [''u''], x_in_flight = [],
     x_deps = [(''u'', []), (''a'', [''u'']), (''b'', [''u''])],
     x_dependents = [(''u'', [''b'', ''a'']), (''a'', []), (''b'', [])],
     x_keys = [], x_results = [], x_executed = [], x_cached = [], x_emitted = [], x_cache = [],
     x_cancel = False, x_calls = []\<rparr>"

lemma split_valid: "validate_graph split_graph (e_reg (split_env H)) (e_ses (split_env H)) = []"
  unfolding split_env_def exec_env.simps by code_simp

lemma split_topo: "topological_order split_graph = Some [''u'', ''a'', ''b'']"
  by code_simp

lemma split_exec_start: "exec_start (split_env H) [] False = Inr split_start"
  unfolding exec_start_def Let_def split_fields split_valid split_topo
  by (simp add: split_graph_def empty_sets_def dict_of_def set_add_def split_start_def)

lemma split_sequential:
  "sequential_outputs (split_env H) = Inr [split_output ''a'' [1, 0], split_output ''b'' [2, 0]]"
  by (simp add: sequential_outputs_def split_fields split_topo split_lookup split_wiring split_run_def copy_run_def
      demo_fields split_contract demo_contract output_of_def split_output_def)

lemmas split_simps = exec_step_def main_step_def pool_step_def task_step_def submit_node_def process_future_def
  close_pool_def task_defs split_lookup split_wiring split_fields split_contract demo_fields(4,7) demo_contract
  split_run_def copy_run_def running_def finished_def task_finished_def cache_get_def cache_put_def
  split_key_def [symmetric] branch_key_def [symmetric] branch_key_b

lemma split_run_wrong:
  assumes "branch_key H \<noteq> split_key H"
  shows "\<exists>s rep. exec_run (split_env H) split_acts split_start = Some s \<and> x_pc s = Returned rep \<and>
    rep_outputs rep = [split_output ''a'' [1, 0], split_output ''b'' [1, 0]] \<and>
    rep_executed rep = [''a'', ''u''] \<and> rep_cached rep = [''b'']"
  using assms unfolding split_acts_def split_start_def
  by (simp add: split_simps split_output_def numeral_eq_Suc insert_commute)

lemma split_keys_differ: "branch_key plain_digest \<noteq> split_key plain_digest"
proof
  assume "branch_key plain_digest = split_key plain_digest"
  then have "encode (recipe_text ''c'' ''1'' [] [split_key plain_digest] False) = encode (recipe_text ''s'' ''1'' [] [] False)"
    using plain_digest_inj
    by (simp add: branch_key_def split_key_def task_key_def recipe_key_def copy_module_def split_module_def
        split_env_def plain_digest_def inj_eq)
  then have t: "recipe_text ''c'' ''1'' [] [split_key plain_digest] False = recipe_text ''s'' ''1'' [] [] False"
    by (rule encode_inj)
  have wf: "wf_json (\<lambda>t. t) (JObj [])" by simp
  from recipe_text_inj [OF wf wf t] show False by simp
qed

text \<open>A state of that run in which \<open>a\<close> has stored its result and \<open>b\<close> has not begun.\<close>

definition split_prefix :: "exec_action list" where
  "split_prefix = [Main [], Main [], Main [], Start] @ replicate 7 (Task ''u'') @
     [Main [''u''], Main [''a'', ''b''], Main [], Main [], Main [], Main [], Main [], Start] @ replicate 4 (Task ''a'')"

lemma split_wired:
  "wired_to (split_env H) ''a'' \<lparr>port_name = ''in'', port_type = ''t''\<rparr> ''u'' ''x''"
  "wired_to (split_env H) ''b'' \<lparr>port_name = ''in'', port_type = ''t''\<rparr> ''u'' ''y''"
  by (simp_all add: wired_to_def split_fields split_wiring)

lemma split_parallel: "fed_in_parallel (split_env H) ''a'' ''b'' (m_inputs (mod_manifest copy_module))"
  using split_wired [of H] unfolding demo_fields(4) fed_in_parallel_def by auto

lemma split_run_stored:
  assumes "branch_key H \<noteq> split_key H"
  shows "\<exists>st. exec_run (split_env H) split_prefix split_start = Some st \<and>
    cache_get (x_cache st) (branch_key H) = Some [(''out'', \<lparr>r_type = ''t'', r_data = [1, 0]\<rparr>)] \<and>
    gather (split_env H) (x_keys st) (x_results st) ''a'' (m_inputs (mod_manifest copy_module)) [] [] =
      Inr ([split_key H], [(''in'', [1])]) \<and>
    gather (split_env H) (x_keys st) (x_results st) ''b'' (m_inputs (mod_manifest copy_module)) [] [] =
      Inr ([split_key H], [(''in'', [2])])"
  using assms unfolding split_prefix_def split_start_def
  by (simp add: split_simps numeral_eq_Suc insert_commute)

section \<open>Twins\<close>

text \<open>
  Both copies read port \<open>x\<close>; port \<open>y\<close> is requested but no edge reads it, and the outputs of \<open>u\<close> are
  requested against the order of their declaration. The second copy is served from the cache, and
  the set of this one execution is compatible.
\<close>

definition twin_graph :: graph where
  "twin_graph = split_graph\<lparr>
     g_edges := [\<lparr>from_node = ''u'', from_port = ''x'', to_node = ''a'', to_port = ''in''\<rparr>,
       \<lparr>from_node = ''u'', from_port = ''x'', to_node = ''b'', to_port = ''in''\<rparr>],
     g_outputs := [\<lparr>o_node = ''u'', o_port = ''y'', o_group = None\<rparr>, \<lparr>o_node = ''a'', o_port = ''out'', o_group = None\<rparr>,
       \<lparr>o_node = ''u'', o_port = ''x'', o_group = None\<rparr>, \<lparr>o_node = ''b'', o_port = ''out'', o_group = None\<rparr>]\<rparr>"

definition twin_env :: exec_env where
  "twin_env = split_env plain_digest\<lparr>e_graph := twin_graph\<rparr>"

definition twin_acts :: "exec_action list" where
  "twin_acts = [Main [], Main [], Main [], Start] @ replicate 11 (Task ''u'') @
     [Main [''u''], Main [''a'', ''b''], Main [], Main [], Main [], Main [], Main [], Start] @
     replicate 9 (Task ''a'') @ [Start] @ replicate 6 (Task ''b'') @
     [Main [''a'', ''b''], Main [], Main [], Main [], Main [], Main []]"

abbreviation "node_u \<equiv> \<lparr>nd_id = ''u'', nd_module = ''s'', nd_params = []\<rparr>"
abbreviation "node_a \<equiv> \<lparr>nd_id = ''a'', nd_module = ''c'', nd_params = []\<rparr>"
abbreviation "node_b \<equiv> \<lparr>nd_id = ''b'', nd_module = ''c'', nd_params = []\<rparr>"

lemma twin_lookup:
  "node_lookup twin_env ''u'' = Inr (node_u, split_module)" "node_lookup twin_env ''a'' = Inr (node_a, copy_module)"
  "node_lookup twin_env ''b'' = Inr (node_b, copy_module)"
  by (simp_all add: node_lookup_def twin_env_def split_env_def twin_graph_def split_graph_def nodes_by_id_def dict_of_def registry_get_def)

lemma twin_wiring:
  "binding_into twin_graph = []"
  "edge_into twin_graph = [((''a'', ''in''), (''u'', ''x'')), ((''b'', ''in''), (''u'', ''x''))]"
  "node_outputs twin_graph ''u'' = [(''u'', ''y''), (''u'', ''x'')]"
  "node_outputs twin_graph ''a'' = [(''a'', ''out'')]" "node_outputs twin_graph ''b'' = [(''b'', ''out'')]"
  by (simp_all add: twin_graph_def split_graph_def binding_into_def edge_into_def dict_of_def node_outputs_filter)

lemma twin_fields: "e_graph twin_env = twin_graph" "e_draft twin_env = False" "e_hash twin_env = plain_digest"
  "pool_size twin_env = 1" "e_ses twin_env = demo_session" "e_reg twin_env = e_reg (split_env plain_digest)"
  "g_outputs twin_graph = [\<lparr>o_node = ''u'', o_port = ''y'', o_group = None\<rparr>, \<lparr>o_node = ''a'', o_port = ''out'', o_group = None\<rparr>,
     \<lparr>o_node = ''u'', o_port = ''x'', o_group = None\<rparr>, \<lparr>o_node = ''b'', o_port = ''out'', o_group = None\<rparr>]"
  by (simp_all add: twin_env_def split_env_def pool_size_def twin_graph_def)

lemma twin_key: "task_key twin_env nd m ks = task_key (split_env plain_digest) nd m ks"
  by (simp add: task_key_def twin_env_def)

lemma twin_valid: "validate_graph twin_graph (e_reg twin_env) (e_ses twin_env) = []"
  unfolding twin_fields split_env_def exec_env.simps by code_simp

lemma twin_topo: "topological_order twin_graph = Some [''u'', ''a'', ''b'']"
  by code_simp

lemma twin_exec_start: "exec_start twin_env [] False = Inr split_start"
  unfolding exec_start_def Let_def twin_fields(1) twin_valid twin_topo
  by (simp add: twin_graph_def split_graph_def empty_sets_def dict_of_def set_add_def split_start_def)

lemmas twin_simps = exec_step_def main_step_def pool_step_def task_step_def submit_node_def process_future_def
  close_pool_def task_defs twin_lookup twin_wiring twin_fields split_fields(3,4) split_contract demo_fields(4,7) demo_contract
  split_run_def copy_run_def running_def finished_def task_finished_def cache_get_def cache_put_def
  twin_key split_key_def [symmetric] branch_key_def [symmetric] branch_key_b

definition twin_outputs :: "exec_output list" where
  "twin_outputs = [\<lparr>eo_node = ''u'', eo_port = ''y'', eo_type = ''t'', eo_data = [2]\<rparr>, split_output ''a'' [1, 0],
     \<lparr>eo_node = ''u'', eo_port = ''x'', eo_type = ''t'', eo_data = [1]\<rparr>, split_output ''b'' [1, 0]]"

lemma twin_run:
  "\<exists>s rep. exec_run twin_env twin_acts split_start = Some s \<and> x_pc s = Returned rep \<and> rep_outputs rep = twin_outputs \<and>
    rep_executed rep = [''a'', ''u''] \<and> rep_cached rep = [''b'']"
  using split_keys_differ unfolding twin_acts_def split_start_def
  by (simp add: twin_simps twin_outputs_def split_output_def numeral_eq_Suc insert_commute)

lemma twin_reach:
  "\<exists>s rep. reach twin_env (shared_by {twin_env}) split_start s \<and> x_pc s = Returned rep \<and> rep_outputs rep = twin_outputs \<and>
    rep_executed rep = [''a'', ''u''] \<and> rep_cached rep = [''b'']"
proof -
  obtain s rep where s: "exec_run twin_env twin_acts split_start = Some s" "x_pc s = Returned rep" "rep_outputs rep = twin_outputs"
      "rep_executed rep = [''a'', ''u'']" "rep_cached rep = [''b'']"
    using twin_run by blast
  have "list_all (allowed (shared_by {twin_env})) twin_acts" by (simp add: twin_acts_def list_all_iff)
  with s reach_run [OF reach_init] show ?thesis by blast
qed

lemma twin_uses: "uses {twin_env} nd md \<Longrightarrow> nd_params nd = [] \<and> (md = copy_module \<or> md = split_module)"
proof -
  assume "uses {twin_env} nd md"
  then obtain n where n: "node_lookup twin_env n = Inr (nd, md)" by (auto simp: uses_def)
  then have nd: "dict_get (nodes_by_id twin_graph) n = Some nd" "registry_get (e_reg (split_env plain_digest)) (nd_module nd) = Some md"
    by (auto simp: node_lookup_def twin_fields split: option.splits)
  have "nd \<in> set (g_nodes twin_graph)" using nd(1) unfolding nodes_by_id_def by (auto dest: dict_of_get_in)
  then show ?thesis using nd(2) by (auto simp: twin_graph_def split_graph_def split_env_def registry_get_def split: if_splits)
qed

lemma twin_reads: "reads_port {twin_env} split_module q \<Longrightarrow> q = ''x''"
  by (auto simp: reads_port_def wired_to_def twin_fields twin_wiring split: if_splits)

lemma twin_compatible: "compatible (\<lambda>t. t) {twin_env}"
  unfolding compatible_def
proof
  have "inj_on (e_hash twin_env) A" for A by (auto simp: inj_on_def twin_fields plain_digest_eq)
  moreover have "leaf_bytes twin_env = {}" by (auto simp: leaf_bytes_def bound_to_def twin_fields twin_wiring)
  ultimately show "collision_free {twin_env}" unfolding collision_free_def by simp
  have "m_name (mod_manifest copy_module) \<noteq> m_name (mod_manifest split_module)"
    by (simp add: copy_module_def split_module_def)
  moreover have "mod_run copy_module i ps d = mod_run copy_module i ps' d" "mod_run split_module i ps d = mod_run split_module i ps' d"
    for i ps ps' d by (simp_all add: copy_module_def split_module_def copy_run_def split_run_def)
  ultimately show "well_behaved (\<lambda>t. t) {twin_env}"
    unfolding well_behaved_def using copy_reads twin_reads by (auto dest!: twin_uses) (metis | blast)+
qed

lemma twin_val_u: "val twin_env ''u'' (split_key plain_digest)
    [(''x'', \<lparr>r_type = ''t'', r_data = [1]\<rparr>), (''y'', \<lparr>r_type = ''t'', r_data = [2]\<rparr>)]"
  unfolding val_iff
  by (rule exI [of _ node_u], rule exI [of _ split_module], rule exI [of _ "[]"])
    (simp add: hashes_def twin_lookup split_fields twin_key split_key_def split_run_def split_contract)

lemma twin_val:
  assumes "n \<in> {''a'', ''b''}"
  shows "val twin_env n (branch_key plain_digest) [(''out'', \<lparr>r_type = ''t'', r_data = [1, 0]\<rparr>)]"
proof -
  let ?nd = "\<lparr>nd_id = n, nd_module = ''c'', nd_params = []\<rparr>"
  have l: "node_lookup twin_env n = Inr (?nd, copy_module)" using assms by (auto simp: twin_lookup)
  have "wired_to twin_env n \<lparr>port_name = ''in'', port_type = ''t''\<rparr> ''u'' ''x''"
    using assms by (auto simp: wired_to_def twin_fields twin_wiring)
  then have "fed_with twin_env n \<lparr>port_name = ''in'', port_type = ''t''\<rparr> (split_key plain_digest, [1])"
    using twin_val_u by (fastforce simp: fed_with_def)
  then have h: "hashes twin_env n ?nd copy_module [(split_key plain_digest, [1])]"
    by (simp add: hashes_def l demo_fields)
  have k: "branch_key plain_digest = task_key twin_env ?nd (mod_manifest copy_module) [split_key plain_digest]"
    unfolding twin_key branch_key_def by (simp add: task_key_def)
  show ?thesis unfolding val_iff
    using h k demo_contract
    by (intro exI [of _ ?nd] exI [of _ copy_module] exI [of _ "[(split_key plain_digest, [1])]"])
      (simp add: demo_fields copy_run_def inputs_of_def dict_of_def)
qed

section \<open>Steps of the first execution\<close>

definition stored_acts :: "exec_action list" where
  "stored_acts = [Main [], Main [], Main [], Start, Task ''a'', Task ''a'', Task ''a'', Task ''a'']"

lemma demo_run_stored:
  "\<exists>s. exec_run demo_env stored_acts demo_start = Some s \<and>
     cache_get (x_cache s) key_a = Some [(''out'', \<lparr>r_type = ''t'', r_data = [7, 0]\<rparr>)]"
  unfolding stored_acts_def demo_start_def by (simp add: demo_simps)

lemma demo_reach_run:
  assumes "list_all (allowed P) as" and "exec_run demo_env as demo_start = Some s"
  shows "reach demo_env P demo_start s"
  using reach_run [OF reach_init assms] .

lemma demo_cached:
  "\<exists>s res. reach demo_env (shared_by {demo_env}) demo_start s \<and> cache_get (x_cache s) key_a = Some res"
proof -
  have "list_all (allowed (shared_by {demo_env})) stored_acts" by (simp add: stored_acts_def)
  then show ?thesis using demo_run_stored demo_reach_run by blast
qed

lemma demo_val_a: "\<exists>res. val demo_env ''a'' key_a res"
proof -
  have "bound_to demo_env ''a'' \<lparr>port_name = ''in'', port_type = ''t''\<rparr> (content_hash (e_hash demo_env) [7], [7])"
    by (simp add: bound_to_def demo_fields demo_wiring)
  then have "hashes demo_env ''a'' \<lparr>nd_id = ''a'', nd_module = ''c'', nd_params = []\<rparr> copy_module
      [(content_hash (e_hash demo_env) [7], [7])]"
    by (simp add: hashes_def demo_lookup demo_fields fed_with_def)
  moreover have "mod_run copy_module (inputs_of (m_inputs (mod_manifest copy_module))
      [(content_hash (e_hash demo_env) [7], [7])]) [] False = Inr [(''out'', \<lparr>r_type = ''t'', r_data = [7, 0]\<rparr>)]"
    by (simp add: demo_fields copy_run_def inputs_of_def dict_of_def)
  ultimately show ?thesis unfolding val_iff
    using demo_contract by (fastforce simp: key_a_def demo_fields)
qed

lemma demo_cancelled:
  "\<exists>s. reach demo_env (shared_by {demo_env}) demo_start s \<and> x_pc s = Raised ExecutionCancelled"
proof -
  have "\<exists>s. exec_run demo_env [Cancel, Main [], Main [], Main []] demo_start = Some s \<and> x_pc s = Raised ExecutionCancelled"
    unfolding demo_start_def by (simp add: demo_simps)
  then obtain s where s: "exec_run demo_env [Cancel, Main [], Main [], Main []] demo_start = Some s"
      "x_pc s = Raised ExecutionCancelled" by blast
  from s(2) reach_run [OF reach_init _ s(1)] show ?thesis by (intro exI [of _ s]) simp
qed

definition storing_acts :: "exec_action list" where
  "storing_acts = [Main [], Main [], Main [], Start, Task ''a'', Task ''a'', Task ''a'', Cancel]"

lemma demo_run_storing:
  "\<exists>s s'. exec_run demo_env storing_acts demo_start = Some s \<and> x_cancel s \<and> exec_run demo_env [Task ''a''] s = Some s' \<and>
     cache_get (x_cache s') key_a \<noteq> cache_get (x_cache s) key_a"
  unfolding storing_acts_def demo_start_def by (simp add: demo_simps)

lemma demo_storing:
  "\<exists>s s'. reach demo_env P demo_start s \<and> x_cancel s \<and> exec_run demo_env [Task ''a''] s = Some s' \<and>
     cache_get (x_cache s') key_a \<noteq> cache_get (x_cache s) key_a"
proof -
  have "list_all (allowed P) storing_acts" by (simp add: storing_acts_def)
  then show ?thesis using demo_run_storing demo_reach_run by blast
qed

end
