(* ===== verification/JobExamples.thy ===== *)
theory JobExamples
  imports JobDocs ExecExamples
begin

text \<open>
  Concrete sessions for the witnesses: the chain of \<open>demo_env\<close> run as a job to its end, a job with a
  pinned group whose second member arrives first, and a client's stream over the first session.
\<close>

definition demo_tok :: "nat \<Rightarrow> string" where
  "demo_tok n = replicate n CHR ''x''"

definition no_text :: "exec_error \<Rightarrow> string" where
  "no_text e = ''error''"

lemma demo_fresh: "fresh_tokens demo_tok demo_session"
proof -
  have "inj demo_tok" by (rule injI) (metis demo_tok_def length_replicate)
  moreover have "demo_tok n \<noteq> ''p''" for n by (cases n) (auto simp: demo_tok_def)
  ultimately show ?thesis by (auto simp: fresh_tokens_def demo_session_def get_payload_def split: if_splits)
qed

definition demo_output :: exec_output where
  "demo_output = \<lparr>eo_node = ''b'', eo_port = ''out'', eo_type = ''t'', eo_data = [7, 0, 0]\<rparr>"

definition demo_calls :: "exec_call list" where
  "demo_calls = [NodeCall ''a'' False, NodeCall ''b'' False, OutputCall demo_output]"

lemma demo_run_calls:
  "\<exists>s. exec_run demo_env demo_acts demo_start = Some s \<and> x_pc s = Returned demo_report \<and> x_calls s = demo_calls"
  unfolding demo_acts_def demo_start_def
  by (simp add: demo_simps demo_calls_def demo_output_def demo_report_def)

lemma demo_reach_calls:
  "\<exists>s. reach demo_env (shared_by {demo_env}) demo_start s \<and> x_pc s = Returned demo_report \<and> x_calls s = demo_calls"
proof -
  obtain s where s: "exec_run demo_env demo_acts demo_start = Some s" "x_pc s = Returned demo_report"
      "x_calls s = demo_calls"
    using demo_run_calls by blast
  have "list_all (allowed (shared_by {demo_env})) demo_acts" by (simp add: demo_acts_def)
  with s reach_run [OF reach_init] show ?thesis by blast
qed

definition demo_job_acts :: "job_action list" where
  "demo_job_acts = [Submit demo_graph False, Begin '''', Call '''' (NodeCall ''a'' False),
     Call '''' (NodeCall ''b'' False), Call '''' (OutputCall demo_output), Finish '''' None]"

lemma demo_gate_graph: "gate_graph demo_graph"
  by (simp add: gate_graph_def demo_graph_def ref_of_def)

lemma demo_job_calls: "calls_in '''' demo_job_acts = demo_calls"
  by (simp add: calls_in_def demo_job_acts_def demo_calls_def)

lemma demo_job_run: "\<exists>m th j. job_steps demo_tok no_text demo_job_acts (manager_init demo_session) = Some m \<and>
    dict_get (jm_threads m) '''' = Some th \<and> th_phase th = Ended \<and> th_graph th = demo_graph \<and>
    job_get m '''' = Some j \<and> j_status j = Completed"
proof -
  have "(case job_steps demo_tok no_text demo_job_acts (manager_init demo_session) of None \<Rightarrow> False
    | Some m \<Rightarrow> (case dict_get (jm_threads m) '''' of None \<Rightarrow> False | Some th \<Rightarrow>
        th_phase th = Ended \<and> th_graph th = demo_graph \<and>
        (case job_get m '''' of None \<Rightarrow> False | Some j \<Rightarrow> j_status j = Completed)))"
    unfolding demo_job_acts_def by code_simp
  then show ?thesis by (auto split: option.splits)
qed

definition pin_graph :: graph where
  "pin_graph = \<lparr>g_nodes = [], g_edges = [], g_bindings = [],
     g_outputs = [\<lparr>o_node = ''a'', o_port = ''out'', o_group = Some ''g''\<rparr>,
       \<lparr>o_node = ''b'', o_port = ''out'', o_group = Some ''g''\<rparr>, \<lparr>o_node = ''c'', o_port = ''out'', o_group = None\<rparr>],
     g_groups = [\<lparr>grp_id = ''g'', grp_order = ''pinned''\<rparr>]\<rparr>"

definition pin_output :: "string \<Rightarrow> exec_output" where
  "pin_output n = \<lparr>eo_node = n, eo_port = ''out'', eo_type = ''t'', eo_data = [1]\<rparr>"

definition pin_acts :: "job_action list" where
  "pin_acts = [Submit pin_graph False, Begin '''', Call '''' (OutputCall (pin_output ''b'')),
     Call '''' (OutputCall (pin_output ''c'')), Call '''' (OutputCall (pin_output ''a''))]"

lemma pin_gate_graph: "gate_graph pin_graph"
  by (simp add: gate_graph_def pin_graph_def ref_of_def dict_of_def)

lemma pin_run: "\<exists>m th j. job_steps demo_tok no_text pin_acts (manager_init demo_session) = Some m \<and>
    dict_get (jm_threads m) '''' = Some th \<and> th_phase th = Live \<and> th_graph th = pin_graph \<and>
    job_get m '''' = Some j \<and> map jo_node (j_outputs j) = [''c'', ''a'', ''b'']"
proof -
  have "(case job_steps demo_tok no_text pin_acts (manager_init demo_session) of None \<Rightarrow> False
    | Some m \<Rightarrow> (case dict_get (jm_threads m) '''' of None \<Rightarrow> False | Some th \<Rightarrow>
        th_phase th = Live \<and> th_graph th = pin_graph \<and>
        (case job_get m '''' of None \<Rightarrow> False | Some j \<Rightarrow> map jo_node (j_outputs j) = [''c'', ''a'', ''b''])))"
    unfolding pin_acts_def by code_simp
  then show ?thesis by (auto split: option.splits)
qed

lemma demo_submits: "list_all submits_ok demo_job_acts" "list_all submits_ok pin_acts"
  by (simp_all add: demo_job_acts_def pin_acts_def submits_ok_def demo_gate_graph pin_gate_graph)

section \<open>A stream with a keepalive\<close>

text \<open>
  A client polls after the job began, then 300 times with no news, which earns it a keepalive, and
  once more after the job has ended.
\<close>

definition stream_acts :: "job_action list list" where
  "stream_acts = [take 2 demo_job_acts] @ replicate 300 [] @ [drop 2 demo_job_acts]"

lemma logs_at_idle:
  "logs_at tok xt (replicate n [] @ ass) m = map_option (\<lambda>ls. replicate n (jm_events m) @ ls) (logs_at tok xt ass m)"
  by (induction n) (simp_all add: option.map_comp comp_def option.map_ident)

lemma idle_polls:
  "ss_cursor ss = length l \<Longrightarrow> ss_idle ss + n * poll_ms < keepalive_ms \<Longrightarrow>
     stream_run (replicate n l @ ls) ss = stream_run ls (ss\<lparr>ss_idle := ss_idle ss + n * poll_ms\<rparr>)"
proof (induction n arbitrary: ss)
  case (Suc n)
  have "stream_poll l ss = ([], ss\<lparr>ss_idle := ss_idle ss + poll_ms\<rparr>)"
    using Suc.prems by (simp add: stream_poll_def log_since_def)
  moreover have "stream_run (replicate n l @ ls) (ss\<lparr>ss_idle := ss_idle ss + poll_ms\<rparr>) =
      stream_run ls (ss\<lparr>ss_idle := ss_idle ss + Suc n * poll_ms\<rparr>)"
    using Suc.IH [of "ss\<lparr>ss_idle := ss_idle ss + poll_ms\<rparr>"] Suc.prems by (simp add: add.assoc)
  ultimately show ?case by simp
qed simp

lemma keepalive_poll:
  assumes "ss_cursor ss = length l" and "ss_idle ss + 300 * poll_ms = keepalive_ms"
  shows "keepalive \<in> set (fst (stream_run (replicate 300 l @ ls) ss))"
proof -
  let ?ss = "ss\<lparr>ss_idle := ss_idle ss + 299 * poll_ms\<rparr>"
  have "replicate 300 l @ ls = replicate 299 l @ (l # ls)" by (simp add: numeral_eq_Suc replicate_app_Cons_same)
  moreover have "stream_run (replicate 299 l @ (l # ls)) ss = stream_run (l # ls) ?ss"
    using assms by (intro idle_polls) (simp_all add: poll_ms_def keepalive_ms_def)
  moreover have "fst (stream_poll l ?ss) = [keepalive]"
    using assms by (simp add: stream_poll_def log_since_def poll_ms_def keepalive_ms_def)
  ultimately show ?thesis by (auto split: prod.splits)
qed

lemma demo_stream:
  "\<exists>ls chunks ss. logs_at demo_tok no_text stream_acts (manager_init demo_session) = Some ls \<and> ls \<noteq> [] \<and>
    stream_run ls stream_start = (chunks, ss) \<and> keepalive \<in> set chunks \<and>
    map ev_type (last ls) = [''job.status'', ''job.status'', ''node.completed'', ''node.completed'', ''job.output'', ''job.status'', ''job.completed'']"
proof -
  have "(case job_steps demo_tok no_text (take 2 demo_job_acts) (manager_init demo_session) of None \<Rightarrow> False | Some m \<Rightarrow>
      map ev_index (jm_events m) = [0, 1] \<and>
      (case job_steps demo_tok no_text (drop 2 demo_job_acts) m of None \<Rightarrow> False | Some m' \<Rightarrow>
        map ev_type (jm_events m') = [''job.status'', ''job.status'', ''node.completed'', ''node.completed'', ''job.output'', ''job.status'', ''job.completed'']))"
    unfolding demo_job_acts_def by code_simp
  then obtain m m' where m: "job_steps demo_tok no_text (take 2 demo_job_acts) (manager_init demo_session) = Some m"
      "map ev_index (jm_events m) = [0, 1]" "job_steps demo_tok no_text (drop 2 demo_job_acts) m = Some m'"
      "map ev_type (jm_events m') = [''job.status'', ''job.status'', ''node.completed'', ''node.completed'', ''job.output'', ''job.status'', ''job.completed'']"
    by (auto split: option.splits)
  let ?ls = "jm_events m # replicate 300 (jm_events m) @ [jm_events m']"
  have l: "logs_at demo_tok no_text stream_acts (manager_init demo_session) = Some ?ls"
    unfolding stream_acts_def by (simp add: m logs_at_idle del: replicate.simps)
  have ne: "jm_events m \<noteq> []" "length (jm_events m) = 2" "ev_index (last (jm_events m)) = 1"
    using m(2) by (auto simp: map_eq_Cons_conv)
  then have p: "stream_poll (jm_events m) stream_start = (map event_sse (jm_events m), \<lparr>ss_cursor = 2, ss_idle = 0\<rparr>)"
    by (simp add: stream_poll_def stream_start_def log_since_def Let_def)
  have "keepalive \<in> set (fst (stream_run (replicate 300 (jm_events m) @ [jm_events m']) \<lparr>ss_cursor = 2, ss_idle = 0\<rparr>))"
    using ne(2) by (intro keepalive_poll) (simp_all add: poll_ms_def keepalive_ms_def)
  then have "keepalive \<in> set (fst (stream_run ?ls stream_start))" by (auto simp: p split: prod.splits)
  moreover obtain chunks ss where "stream_run ?ls stream_start = (chunks, ss)" by fastforce
  ultimately show ?thesis using l m(4) by (intro exI [of _ ?ls] exI [of _ chunks] exI [of _ ss]) (simp del: replicate.simps)
qed

end
