(* ===== verification/ServerExamples.thy ===== *)
theory ServerExamples
  imports ServerFacts JobExamples
begin

text \<open>
  A server on its default interface for the witnesses: one session is made, a payload uploaded, a
  graph submitted and the session deleted.
\<close>

definition demo_args :: cli_args where
  "demo_args = \<lparr>a_host = ''127.0.0.1'', a_port = 7457, a_token = Some ''secret'', a_cors = [], a_workers = None,
     a_extensions = Some ''ext''\<rparr>"

definition demo_config :: server_config where
  "demo_config = \<lparr>c_host = ''127.0.0.1'', c_port = 7457, c_token = ''secret'', c_explicit = True,
     c_allowed = default_allowed_hosts, c_cors = [], c_workers = None, c_extensions = Some ''ext''\<rparr>"

lemma demo_build: "build_config ''generated'' demo_args None = Inr demo_config"
  by (simp add: build_config_def demo_args_def demo_config_def py_or_def config_validate_def loopback_hosts_def)

definition demo_request :: request where
  "demo_request = \<lparr>rq_host = Some ''localhost:7457'', rq_origin = None, rq_path = [], rq_auth = Some ''Bearer secret''\<rparr>"

definition demo_server_env :: server_env where
  "demo_server_env = \<lparr>se_fc = (\<lambda>t. t), se_render = (\<lambda>v. []),
     se_mk = isolated_module (\<lambda>v. []) (\<lambda>root req. Inl (PyError ''no worker'')) ''ext'',
     se_sids = (\<lambda>n. replicate n CHR ''s''), se_toks = (\<lambda>sid n. replicate n CHR ''x''), se_xt = (\<lambda>e. ''error'')\<rparr>"

definition demo_server :: server where
  "demo_server = \<lparr>sv_config = demo_config, sv_enabled = True, sv_ext = \<lparr>es_registry = [], es_installed = [], es_disk = []\<rparr>,
     sv_heap = [], sv_store = [], sv_managers = [], sv_tokens = 0, sv_waiting = []\<rparr>"

definition demo_os :: os_install where
  "demo_os = \<lparr>os_is_dir = False, os_file = NoToml, os_mkdir = None, os_copy = None, os_venv = None, os_pip = PipOk,
     os_state = None, os_left = Removed\<rparr>"

lemma replicate_inj: "inj (\<lambda>n. replicate n c)"
  by (rule injI) (metis length_replicate)

lemma demo_inj: "inj (se_sids demo_server_env)" "inj (se_toks demo_server_env sid)"
  by (simp_all add: demo_server_env_def replicate_inj)

lemma demo_app: "create_app demo_server_env demo_config [] [] = Inr demo_server"
  by (simp add: create_app_def demo_server_def demo_config_def load_installed_def Let_def)

definition demo_upload :: "server_action list" where
  "demo_upload = [Arrive 0 demo_request CreateSession, Arrive 1 demo_request (UploadPayload [] (Some ''t''))]"

definition demo_submit :: "server_action list" where
  "demo_submit = demo_upload @ [RawBody 1 [7], Arrive 2 demo_request (SubmitJob [])]"

definition demo_delete :: "server_action list" where
  "demo_delete = demo_upload @ [Arrive 2 demo_request (DeleteSession []), Proceed 2]"

lemma demo_upload_run: "\<exists>rs sv m. server_steps demo_server_env demo_upload demo_server = Some (rs, sv) \<and>
    dict_get (sv_waiting sv) 1 = Some (AwaitUpload [] ''t'') \<and> dict_get (sv_heap sv) [] = Some m \<and> sv_store sv = [[]]"
proof -
  have "(case server_steps demo_server_env demo_upload demo_server of None \<Rightarrow> False | Some (rs, sv) \<Rightarrow>
    dict_get (sv_waiting sv) 1 = Some (AwaitUpload [] ''t'') \<and> sv_store sv = [[]] \<and>
    (case dict_get (sv_heap sv) [] of None \<Rightarrow> False | Some m \<Rightarrow> True))"
    by code_simp
  then show ?thesis by (auto split: option.splits)
qed

definition demo_module_server :: server where
  "demo_module_server = demo_server\<lparr>sv_ext := \<lparr>es_registry = [(''c'', copy_module)], es_installed = [], es_disk = []\<rparr>\<rparr>"

lemma demo_module_app: "create_app demo_server_env demo_config [(''c'', copy_module)] [] = Inr demo_module_server"
  by (simp add: create_app_def demo_server_def demo_module_server_def demo_config_def load_installed_def Let_def)

definition demo_body :: string where
  "demo_body = dumps '','' '':'' (JObj [(''graph'', JObj [
     (''nodes'', JArr [JObj [(''id'', JStr ''a''), (''module'', JStr ''c'')]]),
     (''bindings'', JArr [JObj [(''payload'', JStr []), (''node'', JStr ''a''), (''port'', JStr ''in'')]]),
     (''outputs'', JArr [JObj [(''node'', JStr ''a''), (''port'', JStr ''out'')]])])])"

text \<open>A submission whose body arrives while its session is being deleted.\<close>

definition demo_late :: "server_action list" where
  "demo_late = demo_submit @ [Arrive 3 demo_request (DeleteSession []), Proceed 3, JsonBody 2 demo_body demo_os]"

lemma demo_late_run: "\<exists>rs sv m j. server_steps demo_server_env demo_late demo_module_server = Some (rs, sv) \<and>
    dict_get (sv_waiting sv) 3 = Some (StopManager []) \<and> dict_get (sv_heap sv) [] = Some m \<and>
    job_get m ''x'' = Some j \<and> j_status j = Pending"
proof -
  have "(case server_steps demo_server_env demo_late demo_module_server of None \<Rightarrow> False | Some (rs, sv) \<Rightarrow>
    dict_get (sv_waiting sv) 3 = Some (StopManager []) \<and>
    (case dict_get (sv_heap sv) [] of None \<Rightarrow> False | Some m \<Rightarrow>
      (case job_get m ''x'' of None \<Rightarrow> False | Some j \<Rightarrow> j_status j = Pending)))"
    by code_simp
  then show ?thesis by (auto split: option.splits)
qed

section \<open>A graph of one node\<close>

definition lone_graph :: graph where
  "lone_graph = \<lparr>g_nodes = [node_u], g_edges = [], g_bindings = [],
     g_outputs = [\<lparr>o_node = ''u'', o_port = ''x'', o_group = None\<rparr>], g_groups = []\<rparr>"

definition lone_server :: server where
  "lone_server = set_manager [] (fresh_manager []) (snd (await_cont 2 (AwaitGraph [])
     (demo_server\<lparr>sv_ext := \<lparr>es_registry = [(''s'', split_module)], es_installed = [], es_disk = []\<rparr>\<rparr>)))"

lemma lone_waits:
  "dict_get (sv_waiting lone_server) 2 = Some (AwaitGraph [])" "dict_get (sv_heap lone_server) [] = Some (fresh_manager [])"
  by (simp_all add: lone_server_def set_manager_def await_cont_def)

lemma lone_valid: "valid_graph (sv_registry lone_server) (jm_session (fresh_manager [])) lone_graph"
proof -
  have "validate_graph lone_graph [(''s'', split_module)] (jm_session (fresh_manager [])) = []" by code_simp
  moreover have "sv_registry lone_server = [(''s'', split_module)]"
    by (simp add: lone_server_def set_manager_def await_cont_def sv_registry_def)
  ultimately show ?thesis by (simp add: validate_graph_Nil)
qed

lemma lone_params: "plain_params fc lone_graph"
  by (simp add: plain_params_def lone_graph_def)

section \<open>An extension\<close>

definition demo_ext :: ext_manifest where
  "demo_ext = \<lparr>xe_name = ''bg'', xe_version = ''1'', xe_description = [], xe_isolation = ''isolated'',
     xe_requirements = [''rembg''], xe_modules = [\<lparr>xm_manifest = \<lparr>m_name = ''bg.remove'', m_version = ''1'',
       m_description = [], m_inputs = [\<lparr>port_name = ''image'', port_type = ''raster/png''\<rparr>],
       m_outputs = [\<lparr>port_name = ''image'', port_type = ''raster/png''\<rparr>], m_isolation = ''isolated''\<rparr>,
       xm_entry = ''bg:run''\<rparr>]\<rparr>"

lemma demo_ext_parse: "parse_extension_manifest render (Toml (ext_toml demo_ext)) = Inr demo_ext"
proof (rule parse_ext_toml)
  show "ext_wf demo_ext" by code_simp
  show "list_all (\<lambda>s. ports_named (m_inputs (xm_manifest s)) \<and> ports_named (m_outputs (xm_manifest s))) (xe_modules demo_ext)"
    by code_simp
qed

definition demo_ext_os :: os_install where
  "demo_ext_os = \<lparr>os_is_dir = True, os_file = Toml (ext_toml demo_ext), os_mkdir = None, os_copy = None, os_venv = None,
     os_pip = PipOk, os_state = None, os_left = Removed\<rparr>"

end
