(* ===== verification/PyNum.thy ===== *)
theory PyNum
  imports Access Registry Complex_Main
begin

text \<open>
  Python's numbers as the core modules read them from the params: floats are IEEE doubles, whose
  finite values are rationals. The rounding of an exact result to a double, the power function of
  the C library, and the reading and printing of float literals are the record \<open>flt\<close>; the rest
  (comparisons, \<open>min\<close>, \<open>max\<close>, \<open>round\<close>, \<open>int\<close>) is written out. \<open>fl_repr\<close> is \<open>repr\<close> of a JSON value and
  \<open>fl_str\<close> is \<open>str\<close> of one that is not a string.
\<close>

section \<open>Floats\<close>

datatype pyfloat = Fin rat | PInf | NInf | NaN

record flt =
  fl_round :: "rat \<Rightarrow> pyfloat"
  fl_pow :: "pyfloat \<Rightarrow> pyfloat \<Rightarrow> pyfloat"
  fl_lit :: "string \<Rightarrow> pyfloat"
  fl_parse :: "string \<Rightarrow> pyfloat option"
  fl_text :: "pyfloat \<Rightarrow> string"
  fl_repr :: "json \<Rightarrow> string"
  fl_str :: "json \<Rightarrow> string"

definition py_lt :: "pyfloat \<Rightarrow> pyfloat \<Rightarrow> bool" where
  "py_lt x y = (case (x, y) of
     (Fin a, Fin b) \<Rightarrow> a < b | (Fin a, PInf) \<Rightarrow> True | (NInf, Fin b) \<Rightarrow> True | (NInf, PInf) \<Rightarrow> True | _ \<Rightarrow> False)"

definition py_le :: "pyfloat \<Rightarrow> pyfloat \<Rightarrow> bool" where
  "py_le x y \<longleftrightarrow> py_lt x y \<or> (x = y \<and> x \<noteq> NaN)"

text \<open>\<open>min(a, b)\<close> and \<open>max(a, b)\<close> keep the first argument unless the second one is strictly better.\<close>

definition py_min :: "pyfloat \<Rightarrow> pyfloat \<Rightarrow> pyfloat" where
  "py_min a b = (if py_lt b a then b else a)"

definition py_max :: "pyfloat \<Rightarrow> pyfloat \<Rightarrow> pyfloat" where
  "py_max a b = (if py_lt a b then b else a)"

text \<open>\<open>round\<close> with one argument: to the nearest integer, halves to the even one.\<close>

definition round_half_even :: "rat \<Rightarrow> int" where
  "round_half_even q = (let n = \<lfloor>q\<rfloor>; d = q - of_int n in
     if d < 1 / 2 then n else if 1 / 2 < d then n + 1 else if even n then n else n + 1)"

definition py_round :: "pyfloat \<Rightarrow> py_exn + int" where
  "py_round x = (case x of
     Fin q \<Rightarrow> Inr (round_half_even q)
   | NaN \<Rightarrow> Inl (PyError ''ValueError: cannot convert float NaN to integer'')
   | _ \<Rightarrow> Inl (PyError ''OverflowError: cannot convert float infinity to integer''))"

section \<open>Reading a param\<close>

definition truncate :: "rat \<Rightarrow> int" where
  "truncate q = (if q < 0 then - \<lfloor>- q\<rfloor> else \<lfloor>q\<rfloor>)"

definition digit_value :: "char \<Rightarrow> int" where
  "digit_value c = int (of_char c) - 48"

text \<open>Decimal digits with single underscores between them.\<close>

fun digits_of :: "string \<Rightarrow> int \<Rightarrow> int option" where
  "digits_of [] acc = None"
| "digits_of [c] acc = (if is_digit c then Some (acc * 10 + digit_value c) else None)"
| "digits_of (c # d # cs) acc =
     (if is_digit c
      then (if d = CHR ''_'' then digits_of cs (acc * 10 + digit_value c)
            else digits_of (d # cs) (acc * 10 + digit_value c))
      else None)"

definition max_str_digits :: nat where
  "max_str_digits = 4300"

definition int_of_string :: "string \<Rightarrow> int option" where
  "int_of_string s =
     (let t = py_strip s;
          (neg, ds) = (case t of [] \<Rightarrow> (False, []) | c # cs \<Rightarrow>
             if c = CHR ''-'' then (True, cs) else if c = CHR ''+'' then (False, cs) else (False, t))
      in if max_str_digits < length (filter is_digit ds) then None
         else map_option (\<lambda>i. if neg then - i else i) (digits_of ds 0))"

definition repr_name :: "string \<Rightarrow> string" where
  "repr_name s = [CHR 0x27] @ s @ [CHR 0x27]"

definition invalid_param :: "flt \<Rightarrow> string \<Rightarrow> params \<Rightarrow> py_exn" where
  "invalid_param F name ps = ModuleError (''invalid '' @ repr_name name @ '': '' @
     fl_repr F (case dict_get ps name of None \<Rightarrow> JNull | Some v \<Rightarrow> v))"

definition overflow :: py_exn where
  "overflow = PyError ''OverflowError''"

text \<open>What \<open>int\<close> and \<open>float\<close> raise: a \<open>TypeError\<close> or \<open>ValueError\<close>, which the modules turn into a
  \<open>ModuleError\<close>, or an \<open>OverflowError\<close>, which they do not catch.\<close>

datatype conv_error = Unconvertible | Overflow

definition py_int :: "flt \<Rightarrow> json \<Rightarrow> conv_error + int" where
  "py_int F v = (case v of
     JBool b \<Rightarrow> Inr (if b then 1 else 0)
   | JInt i \<Rightarrow> Inr i
   | JFloat t \<Rightarrow> (case fl_lit F t of Fin q \<Rightarrow> Inr (truncate q) | NaN \<Rightarrow> Inl Unconvertible | _ \<Rightarrow> Inl Overflow)
   | JStr s \<Rightarrow> (case int_of_string s of None \<Rightarrow> Inl Unconvertible | Some i \<Rightarrow> Inr i)
   | _ \<Rightarrow> Inl Unconvertible)"

definition py_float :: "flt \<Rightarrow> json \<Rightarrow> conv_error + pyfloat" where
  "py_float F v = (case v of
     JBool b \<Rightarrow> Inr (Fin (if b then 1 else 0))
   | JInt i \<Rightarrow> (case fl_round F (of_int i) of Fin q \<Rightarrow> Inr (Fin q) | _ \<Rightarrow> Inl Overflow)
   | JFloat t \<Rightarrow> Inr (fl_lit F t)
   | JStr s \<Rightarrow> (case fl_parse F s of None \<Rightarrow> Inl Unconvertible | Some x \<Rightarrow> Inr x)
   | _ \<Rightarrow> Inl Unconvertible)"

definition conv_raise :: "py_exn \<Rightarrow> conv_error + 'a \<Rightarrow> py_exn + 'a" where
  "conv_raise e r = (case r of Inr x \<Rightarrow> Inr x | Inl Unconvertible \<Rightarrow> Inl e | Inl Overflow \<Rightarrow> Inl overflow)"

definition int_param :: "flt \<Rightarrow> params \<Rightarrow> string \<Rightarrow> int \<Rightarrow> py_exn + int" where
  "int_param F ps name dflt = (case dict_get ps name of
     None \<Rightarrow> Inr dflt | Some v \<Rightarrow> conv_raise (invalid_param F name ps) (py_int F v))"

definition float_param :: "flt \<Rightarrow> params \<Rightarrow> string \<Rightarrow> rat \<Rightarrow> py_exn + pyfloat" where
  "float_param F ps name dflt = (case dict_get ps name of
     None \<Rightarrow> Inr (Fin dflt) | Some v \<Rightarrow> conv_raise (invalid_param F name ps) (py_float F v))"

section \<open>Facts\<close>

lemma round_half_even_of_int [simp]: "round_half_even (of_int n) = n"
  by (simp add: round_half_even_def)

lemma round_half_even_mono:
  assumes "p \<le> q" shows "round_half_even p \<le> round_half_even q"
proof (cases "\<lfloor>p\<rfloor> = \<lfloor>q\<rfloor>")
  case True
  then show ?thesis using assms unfolding round_half_even_def Let_def True by auto
next
  case False
  then have l: "\<lfloor>p\<rfloor> + 1 \<le> \<lfloor>q\<rfloor>" using floor_mono [OF assms] by linarith
  have "round_half_even p \<le> \<lfloor>p\<rfloor> + 1" "\<lfloor>q\<rfloor> \<le> round_half_even q" unfolding round_half_even_def Let_def by auto
  then show ?thesis using l by linarith
qed

text \<open>
  What is documented of rounding and of \<open>pow\<close>. IEEE 754: rounding to the nearest double is monotone,
  exact on integers up to \<open>2 ^ 53\<close> and on \<open>1 / 2 ^ 53\<close>, does not overflow in that range, and has a
  relative error of at most \<open>1 / 2 ^ 53\<close>. C, Annex F, of \<open>pow\<close> only the special cases: for a
  positive exponent \<open>pow(0, y)\<close> is 0 and \<open>pow(1, y)\<close> is 1. Nothing is said about other arguments.
\<close>

definition double_range :: "rat \<Rightarrow> bool" where
  "double_range q \<longleftrightarrow> - (2 ^ 53) \<le> q \<and> q \<le> 2 ^ 53"

definition double_laws :: "flt \<Rightarrow> bool" where
  "double_laws F \<longleftrightarrow>
     (\<forall>q. double_range q \<longrightarrow> (\<exists>r. fl_round F q = Fin r)) \<and>
     (\<forall>p q r s. p \<le> q \<longrightarrow> fl_round F p = Fin r \<longrightarrow> fl_round F q = Fin s \<longrightarrow> r \<le> s) \<and>
     (\<forall>n. double_range (of_int n) \<longrightarrow> fl_round F (of_int n) = Fin (of_int n)) \<and>
     fl_round F (1 / 2 ^ 53) = Fin (1 / 2 ^ 53) \<and>
     (\<forall>q r. 1 \<le> q \<longrightarrow> q \<le> 2 ^ 53 \<longrightarrow> fl_round F q = Fin r \<longrightarrow> \<bar>r - q\<bar> \<le> q / 2 ^ 53) \<and>
     (\<forall>y. 0 < y \<longrightarrow> fl_pow F (Fin 0) (Fin y) = Fin 0 \<and> fl_pow F (Fin 1) (Fin y) = Fin 1)"

lemma double_rangeI:
  assumes "of_int (- 65025) \<le> q" and "q \<le> of_int 65025" shows "double_range q"
proof -
  have "(2 :: rat) ^ 53 = 9007199254740992" by simp
  then show ?thesis using assms unfolding double_range_def by simp
qed

definition rnd :: "flt \<Rightarrow> rat \<Rightarrow> rat" where
  "rnd F q = (case fl_round F q of Fin r \<Rightarrow> r | _ \<Rightarrow> 0)"

lemma rnd_round:
  assumes "double_laws F" and "double_range q" shows "fl_round F q = Fin (rnd F q)"
proof -
  obtain r where "fl_round F q = Fin r" using assms unfolding double_laws_def by blast
  then show ?thesis by (simp add: rnd_def)
qed

lemma rnd_mono:
  assumes "double_laws F" and "double_range p" and "double_range q" and "p \<le> q" shows "rnd F p \<le> rnd F q"
proof -
  have "\<forall>p q r s. p \<le> q \<longrightarrow> fl_round F p = Fin r \<longrightarrow> fl_round F q = Fin s \<longrightarrow> r \<le> s"
    using assms(1) unfolding double_laws_def by (elim conjE)
  then show ?thesis using rnd_round [OF assms(1,2)] rnd_round [OF assms(1,3)] assms(4) by blast
qed

lemma rnd_int: "double_laws F \<Longrightarrow> double_range (of_int n) \<Longrightarrow> rnd F (of_int n) = of_int n"
  unfolding double_laws_def rnd_def by simp

lemma pow_ends:
  assumes "double_laws F" and "0 < y"
  shows "fl_pow F (Fin 0) (Fin y) = Fin 0" and "fl_pow F (Fin 1) (Fin y) = Fin 1"
proof -
  have "\<forall>y. 0 < y \<longrightarrow> fl_pow F (Fin 0) (Fin y) = Fin 0 \<and> fl_pow F (Fin 1) (Fin y) = Fin 1"
    using assms(1) unfolding double_laws_def by (elim conjE)
  then show "fl_pow F (Fin 0) (Fin y) = Fin 0" "fl_pow F (Fin 1) (Fin y) = Fin 1" using assms(2) by blast+
qed

lemma rnd_near:
  assumes "double_laws F" and "1 \<le> q" and "q \<le> 2 ^ 53" shows "q - q / 2 ^ 53 \<le> rnd F q"
proof -
  have "double_range q" using assms(2,3) unfolding double_range_def by linarith
  note r = rnd_round [OF assms(1) this]
  have "\<forall>q r. 1 \<le> q \<longrightarrow> q \<le> 2 ^ 53 \<longrightarrow> fl_round F q = Fin r \<longrightarrow> \<bar>r - q\<bar> \<le> q / 2 ^ 53"
    using assms(1) unfolding double_laws_def by (elim conjE)
  then have "\<bar>rnd F q - q\<bar> \<le> q / 2 ^ 53" using r assms(2,3) by blast
  then show ?thesis by linarith
qed

lemma rnd_between:
  assumes "double_laws F" and "of_int m \<le> q" and "q \<le> of_int n" and "double_range (of_int m)" and "double_range (of_int n)"
  shows "of_int m \<le> rnd F q" and "rnd F q \<le> of_int n" and "double_range q"
proof -
  show q: "double_range q" using assms unfolding double_range_def by linarith
  show "of_int m \<le> rnd F q" using rnd_mono [OF assms(1,4) q assms(2)] rnd_int [OF assms(1,4)] by simp
  show "rnd F q \<le> of_int n" using rnd_mono [OF assms(1) q assms(5,3)] rnd_int [OF assms(1,5)] by simp
qed

end
