(* ===== verification/Raster.thy ===== *)
theory Raster
  imports PyNum
begin

text \<open>
  \<^verbatim>\<open>core/raster.py\<close>: the raster modules. Pillow is the record \<open>pil\<close>, one field per call the modules
  make; a field that can raise gives the text of the exception. Pillow decodes lazily, so a call
  on an opened image may raise where the code no longer expects it.
\<close>

type_synonym box = "int \<times> int \<times> int \<times> int"
type_synonym rgb = "int \<times> int \<times> int"

record 'img pil =
  pl_open :: "bytes \<Rightarrow> string + 'img"
  pl_size :: "'img \<Rightarrow> int \<times> int"
  pl_mode :: "'img \<Rightarrow> string"
  pl_bands :: "'img \<Rightarrow> string list"
  pl_transparency :: "'img \<Rightarrow> bool"
  pl_white :: "int \<times> int \<Rightarrow> 'img"
  pl_convert :: "string \<Rightarrow> 'img \<Rightarrow> string + 'img"
  pl_over :: "'img \<Rightarrow> 'img \<Rightarrow> string + 'img"
  pl_crop :: "box \<Rightarrow> 'img \<Rightarrow> string + 'img"
  pl_rotate :: "pyfloat \<Rightarrow> 'img \<Rightarrow> string + 'img"
  pl_point :: "int list \<Rightarrow> 'img \<Rightarrow> string + 'img"
  pl_lut :: "int list \<Rightarrow> 'img \<Rightarrow> string + 'img"
  pl_invert :: "'img \<Rightarrow> string + 'img"
  pl_contain :: "int \<times> int \<Rightarrow> 'img \<Rightarrow> string + 'img"
  pl_quantize :: "int \<Rightarrow> 'img \<Rightarrow> string + 'img"
  pl_min_filter :: "int \<Rightarrow> 'img \<Rightarrow> string + 'img"
  pl_pixels :: "'img \<Rightarrow> string + rgb list"
  pl_indexed :: "int \<times> int \<Rightarrow> 8 word list \<Rightarrow> int list \<Rightarrow> 'img"
  pl_save :: "string \<Rightarrow> 'img \<Rightarrow> string + bytes"

definition raises :: "string + 'a \<Rightarrow> py_exn + 'a" where
  "raises r = (case r of Inl e \<Rightarrow> Inl (PyError e) | Inr x \<Rightarrow> Inr x)"

definition input_of :: "(string, bytes) dict \<Rightarrow> string \<Rightarrow> py_exn + bytes" where
  "input_of ins name = (case dict_get ins name of
     None \<Rightarrow> Inl (PyError (''KeyError: '' @ repr_name name)) | Some b \<Rightarrow> Inr b)"

definition raster_png :: string where
  "raster_png = ''raster/png''"

definition decode_png :: "'img pil \<Rightarrow> bytes \<Rightarrow> py_exn + 'img" where
  "decode_png P data = (case pl_open P data of
     Inl e \<Rightarrow> Inl (ModuleError (''could not decode PNG input: '' @ e)) | Inr img \<Rightarrow> Inr img)"

definition flatten :: "'img pil \<Rightarrow> 'img \<Rightarrow> string + 'img" where
  "flatten P img =
     (if \<not> (''A'' \<in> set (pl_bands P img) \<or> (pl_mode P img = ''P'' \<and> pl_transparency P img)) then Inr img
      else ebind (pl_convert P ''RGBA'' img) (pl_over P (pl_white P (pl_size P img))))"

definition encode_png :: "'img pil \<Rightarrow> 'img \<Rightarrow> py_exn + mresult" where
  "encode_png P img = ebind (raises (pl_save P ''PNG'' img)) (\<lambda>data. Inr \<lparr>r_type = raster_png, r_data = data\<rparr>)"

text \<open>\<open>_flatten(_decode(inputs["image"])).convert(mode)\<close>, with which most modules begin.\<close>

definition flat_image :: "'img pil \<Rightarrow> string \<Rightarrow> (string, bytes) dict \<Rightarrow> py_exn + 'img" where
  "flat_image P mode ins =
     ebind (input_of ins ''image'') (\<lambda>data. ebind (decode_png P data) (\<lambda>img.
       ebind (raises (flatten P img)) (\<lambda>flat. raises (pl_convert P mode flat))))"

definition single_image_manifest :: "string \<Rightarrow> string \<Rightarrow> manifest" where
  "single_image_manifest name descr = \<lparr>m_name = name, m_version = ''1.0'', m_description = descr,
     m_inputs = [\<lparr>port_name = ''image'', port_type = raster_png\<rparr>],
     m_outputs = [\<lparr>port_name = ''image'', port_type = raster_png\<rparr>], m_isolation = ''core''\<rparr>"

definition image_result :: "'img pil \<Rightarrow> py_exn + 'img \<Rightarrow> py_exn + results" where
  "image_result P r = ebind r (\<lambda>img. ebind (encode_png P img) (\<lambda>res. Inr [(''image'', res)]))"

type_synonym run = "(string, bytes) dict \<Rightarrow> params \<Rightarrow> bool \<Rightarrow> py_exn + results"

section \<open>Crop\<close>

definition crop_run :: "'img pil \<Rightarrow> flt \<Rightarrow> run" where
  "crop_run P F ins ps draft =
     ebind (input_of ins ''image'') (\<lambda>data. ebind (decode_png P data) (\<lambda>image.
       case pl_size P image of (iw, ih) \<Rightarrow>
       ebind (int_param F ps ''x'' 0) (\<lambda>x. ebind (int_param F ps ''y'' 0) (\<lambda>y.
       ebind (int_param F ps ''width'' (iw - x)) (\<lambda>w. ebind (int_param F ps ''height'' (ih - y)) (\<lambda>h.
         if w \<le> 0 \<or> h \<le> 0
         then Inl (ModuleError (''crop size must be positive, got '' @ show_int w @ ''x'' @ show_int h))
         else if x < 0 \<or> y < 0 \<or> iw < x + w \<or> ih < y + h
         then Inl (ModuleError (''crop rectangle ('' @ show_int x @ '','' @ show_int y @ '','' @ show_int w @ '','' @
           show_int h @ '') exceeds image bounds '' @ show_int iw @ ''x'' @ show_int ih))
         else image_result P (raises (pl_crop P (x, y, x + w, y + h) image))))))))"

definition crop_module :: "'img pil \<Rightarrow> flt \<Rightarrow> pymodule" where
  "crop_module P F = \<lparr>mod_manifest = single_image_manifest ''image.crop'' ''Crop to a pixel rectangle (x, y, width, height)'',
     mod_run = crop_run P F\<rparr>"

section \<open>Rotate\<close>

definition rotate_run :: "'img pil \<Rightarrow> flt \<Rightarrow> run" where
  "rotate_run P F ins ps draft =
     ebind (flat_image P ''RGB'' ins) (\<lambda>image. ebind (float_param F ps ''angle'' 0) (\<lambda>angle.
       image_result P (raises (pl_rotate P angle image))))"

definition rotate_module :: "'img pil \<Rightarrow> flt \<Rightarrow> pymodule" where
  "rotate_module P F = \<lparr>mod_manifest = single_image_manifest ''image.rotate'' ''Rotate counter-clockwise (degrees)'',
     mod_run = rotate_run P F\<rparr>"

section \<open>Levels\<close>

text \<open>The float operations of the table; the divisors are never zero there.\<close>

definition fl_mul :: "flt \<Rightarrow> pyfloat \<Rightarrow> pyfloat \<Rightarrow> pyfloat" where
  "fl_mul F x y = (case (x, y) of (Fin a, Fin b) \<Rightarrow> fl_round F (a * b) | _ \<Rightarrow> NaN)"

definition fl_div :: "flt \<Rightarrow> rat \<Rightarrow> pyfloat \<Rightarrow> pyfloat" where
  "fl_div F a y = (case y of Fin b \<Rightarrow> fl_round F (a / b) | NaN \<Rightarrow> NaN | _ \<Rightarrow> Fin 0)"

definition level_entry :: "flt \<Rightarrow> int \<Rightarrow> int \<Rightarrow> pyfloat \<Rightarrow> int \<Rightarrow> py_exn + int" where
  "level_entry F black white gamma v =
     (let scale = fl_div F 255 (Fin (of_int (white - black)));
          x = (case fl_mul F (Fin (of_int (v - black))) scale of Fin a \<Rightarrow> fl_div F a (Fin 255) | y \<Rightarrow> y);
          c = py_max (Fin 0) (py_min (Fin 1) x)
      in py_round (case fl_pow F c (fl_div F 1 gamma) of Fin a \<Rightarrow> fl_mul F (Fin 255) (Fin a) | y \<Rightarrow> y))"

fun level_entries :: "flt \<Rightarrow> int \<Rightarrow> int \<Rightarrow> pyfloat \<Rightarrow> int list \<Rightarrow> py_exn + int list" where
  "level_entries F black white gamma [] = Inr []"
| "level_entries F black white gamma (v # vs) =
     ebind (level_entry F black white gamma v) (\<lambda>e.
       ebind (level_entries F black white gamma vs) (\<lambda>es. Inr (e # es)))"

definition levels_run :: "'img pil \<Rightarrow> flt \<Rightarrow> run" where
  "levels_run P F ins ps draft =
     ebind (flat_image P ''RGB'' ins) (\<lambda>image.
     ebind (int_param F ps ''black'' 0) (\<lambda>black. ebind (int_param F ps ''white'' 255) (\<lambda>white.
     ebind (float_param F ps ''gamma'' 1) (\<lambda>gamma.
       if \<not> (0 \<le> black \<and> black < white \<and> white \<le> 255)
       then Inl (ModuleError (''need 0 <= black < white <= 255, got black='' @ show_int black @ '' white='' @ show_int white))
       else if py_le gamma (Fin 0)
       then Inl (ModuleError (''gamma must be positive, got '' @ fl_text F gamma))
       else ebind (level_entries F black white gamma (map int [0..<256])) (\<lambda>table.
         image_result P (raises (pl_point P (table @ table @ table) image)))))))"

definition levels_module :: "'img pil \<Rightarrow> flt \<Rightarrow> pymodule" where
  "levels_module P F = \<lparr>mod_manifest = single_image_manifest ''image.levels'' ''Levels adjustment: black point, white point, gamma'',
     mod_run = levels_run P F\<rparr>"

section \<open>Threshold, invert, downsample\<close>

definition threshold_table :: "int \<Rightarrow> int list" where
  "threshold_table level = map (\<lambda>v. if level < int v then 255 else 0) [0..<256]"

definition threshold_run :: "'img pil \<Rightarrow> flt \<Rightarrow> run" where
  "threshold_run P F ins ps draft =
     ebind (flat_image P ''L'' ins) (\<lambda>image. ebind (int_param F ps ''level'' 128) (\<lambda>level.
       if \<not> (0 \<le> level \<and> level \<le> 255)
       then Inl (ModuleError (''level must be in [0, 255], got '' @ show_int level))
       else image_result P (raises (pl_point P (threshold_table level) image))))"

definition threshold_module :: "'img pil \<Rightarrow> flt \<Rightarrow> pymodule" where
  "threshold_module P F = \<lparr>mod_manifest = single_image_manifest ''image.threshold'' ''Binarize at a gray level (0-255)'',
     mod_run = threshold_run P F\<rparr>"

definition invert_run :: "'img pil \<Rightarrow> run" where
  "invert_run P ins ps draft = ebind (flat_image P ''RGB'' ins) (\<lambda>image. image_result P (raises (pl_invert P image)))"

definition invert_module :: "'img pil \<Rightarrow> pymodule" where
  "invert_module P = \<lparr>mod_manifest = single_image_manifest ''image.invert'' ''Invert colors (per-channel)'', mod_run = invert_run P\<rparr>"

definition downsample_run :: "'img pil \<Rightarrow> flt \<Rightarrow> run" where
  "downsample_run P F ins ps draft =
     ebind (input_of ins ''image'') (\<lambda>data.
       let same = Inr [(''image'', \<lparr>r_type = raster_png, r_data = data\<rparr>)] in
       if \<not> draft then same
       else ebind (decode_png P data) (\<lambda>image. ebind (int_param F ps ''max_dimension'' 512) (\<lambda>d.
         if d \<le> 0 then Inl (ModuleError (''max_dimension must be positive, got '' @ show_int d))
         else if max (fst (pl_size P image)) (snd (pl_size P image)) \<le> d then same
         else image_result P (raises (pl_contain P (d, d) image)))))"

definition downsample_module :: "'img pil \<Rightarrow> flt \<Rightarrow> pymodule" where
  "downsample_module P F = \<lparr>mod_manifest = single_image_manifest ''image.downsample''
       ''Identity at full quality; downsample to max_dimension in draft'',
     mod_run = downsample_run P F\<rparr>"

section \<open>The table of levels\<close>

definition clamp :: "rat \<Rightarrow> rat" where
  "clamp q = max 0 (min 1 q)"

lemma py_clamp: "py_max (Fin 0) (py_min (Fin 1) (Fin q)) = Fin (clamp q)"
  by (auto simp: py_max_def py_min_def py_lt_def clamp_def)

definition levels_ok :: "flt \<Rightarrow> int \<Rightarrow> int \<Rightarrow> rat \<Rightarrow> bool" where
  "levels_ok F black white g \<longleftrightarrow> double_laws F \<and> 0 \<le> black \<and> black < white \<and> white \<le> 255 \<and> 1 / 2 ^ 53 \<le> g \<and> g \<le> 2 ^ 53"

lemma inv_gamma:
  assumes "levels_ok F black white g"
  shows "fl_div F 1 (Fin g) = Fin (rnd F (1 / g))" and "0 < rnd F (1 / g)"
proof -
  have laws: "double_laws F" and gamma: "1 / 2 ^ 53 \<le> g" "g \<le> 2 ^ 53" using assms by (simp_all add: levels_ok_def)
  have "(0 :: rat) < 1 / 2 ^ 53" by simp
  then have "0 < g" using gamma(1) by (rule order_less_le_trans)
  then have b: "1 / 2 ^ 53 \<le> 1 / g" "1 / g \<le> 2 ^ 53"
    using gamma by (simp_all add: field_simps)
  have r: "double_range (1 / g)" "double_range (1 / 2 ^ 53)" using b by (simp_all add: double_range_def)
  show "fl_div F 1 (Fin g) = Fin (rnd F (1 / g))" by (simp add: fl_div_def rnd_round [OF laws r(1)])
  have "rnd F (1 / 2 ^ 53) = 1 / 2 ^ 53" using laws unfolding double_laws_def rnd_def by simp
  then show "0 < rnd F (1 / g)" using rnd_mono [OF laws r(2,1) b(1)] by simp
qed

lemma level_scale:
  assumes "levels_ok F black white g"
  shows "fl_div F 255 (Fin (of_int (white - black))) = Fin (rnd F (255 / of_int (white - black)))"
    and "1 \<le> rnd F (255 / of_int (white - black))" and "rnd F (255 / of_int (white - black)) \<le> 255"
proof -
  have laws: "double_laws F" and d: "(1 :: rat) \<le> of_int (white - black)" "of_int (white - black) \<le> (255 :: rat)"
    using assms by (simp_all add: levels_ok_def flip: of_int_1_le_iff)
  let ?q = "255 / of_int (white - black) :: rat"
  have q: "of_int 1 \<le> ?q" "?q \<le> of_int 255" using d by (simp_all add: field_simps)
  note r = rnd_between [OF laws q]
  show "1 \<le> rnd F ?q" "rnd F ?q \<le> 255" using r by (simp_all add: double_range_def)
  have "double_range ?q" by (rule r(3)) (simp_all add: double_range_def)
  then show "fl_div F 255 (Fin (of_int (white - black))) = Fin (rnd F ?q)"
    by (simp add: fl_div_def rnd_round [OF laws])
qed

definition level_arg :: "flt \<Rightarrow> int \<Rightarrow> int \<Rightarrow> int \<Rightarrow> rat" where
  "level_arg F black white v = rnd F (of_int (v - black) * rnd F (255 / of_int (white - black)))"

lemma level_product:
  assumes "levels_ok F black white g" and "0 \<le> v" and "v \<le> 255"
  shows "of_int (- 65025) \<le> of_int (v - black) * rnd F (255 / of_int (white - black))"
    and "of_int (v - black) * rnd F (255 / of_int (white - black)) \<le> of_int 65025"
proof -
  let ?s = "rnd F (255 / of_int (white - black))" and ?n = "of_int (v - black) :: rat"
  have s: "\<bar>?s\<bar> \<le> 255" using level_scale(2,3) [OF assms(1)] by linarith
  have "\<bar>v - black\<bar> \<le> 255" using assms by (auto simp: levels_ok_def)
  then have n: "\<bar>?n\<bar> \<le> 255" by (metis of_int_abs of_int_le_iff of_int_numeral)
  have "\<bar>?n * ?s\<bar> \<le> 255 * 255" unfolding abs_mult by (rule mult_mono) (use n s in simp_all)
  then show "of_int (- 65025) \<le> ?n * ?s" "?n * ?s \<le> of_int 65025" by linarith+
qed

lemma level_arg:
  assumes ok: "levels_ok F black white g" and v: "0 \<le> v" "v \<le> 255"
  shows "fl_mul F (Fin (of_int (v - black))) (fl_div F 255 (Fin (of_int (white - black)))) = Fin (level_arg F black white v)"
    and "fl_div F (level_arg F black white v) (Fin 255) = Fin (rnd F (level_arg F black white v / 255))"
    and "double_range (level_arg F black white v / 255)"
proof -
  have laws: "double_laws F" using ok by (simp add: levels_ok_def)
  have r: "double_range (of_int (- 65025))" "double_range (of_int 65025)" by (simp_all add: double_range_def)
  note b = rnd_between [OF laws level_product [OF ok v] r]
  show "fl_mul F (Fin (of_int (v - black))) (fl_div F 255 (Fin (of_int (white - black)))) = Fin (level_arg F black white v)"
    unfolding level_scale(1) [OF ok] level_arg_def fl_mul_def prod.case pyfloat.case by (rule rnd_round [OF laws b(3)])
  show q: "double_range (level_arg F black white v / 255)"
    using b(1,2) unfolding level_arg_def double_range_def by simp
  show "fl_div F (level_arg F black white v) (Fin 255) = Fin (rnd F (level_arg F black white v / 255))"
    by (simp add: fl_div_def rnd_round [OF laws q])
qed

text \<open>The entry of \<open>v\<close> is a function of the clamped fraction.\<close>

definition frac_entry :: "flt \<Rightarrow> rat \<Rightarrow> rat \<Rightarrow> py_exn + int" where
  "frac_entry F g c = py_round (case fl_pow F (Fin c) (Fin (rnd F (1 / g))) of
     Fin a \<Rightarrow> fl_mul F (Fin 255) (Fin a) | y \<Rightarrow> y)"

lemma level_entry_frac:
  assumes ok: "levels_ok F black white g" and v: "0 \<le> v" "v \<le> 255"
  shows "level_entry F black white (Fin g) v = frac_entry F g (clamp (rnd F (level_arg F black white v / 255)))"
proof -
  have x: "(case fl_mul F (Fin (of_int (v - black))) (fl_div F 255 (Fin (of_int (white - black)))) of
      Fin a \<Rightarrow> fl_div F a (Fin 255) | y \<Rightarrow> y) = Fin (rnd F (level_arg F black white v / 255))"
    by (simp only: level_arg(1,2) [OF ok v] pyfloat.case)
  show ?thesis by (simp only: level_entry_def Let_def x py_clamp inv_gamma(1) [OF ok] frac_entry_def)
qed

lemma frac_entry_ends:
  assumes ok: "levels_ok F black white g"
  shows "frac_entry F g 0 = Inr 0" and "frac_entry F g 1 = Inr 255"
proof -
  have laws: "double_laws F" using ok by (simp add: levels_ok_def)
  note p = pow_ends [OF laws inv_gamma(2) [OF ok]]
  have d: "double_range (of_int 0)" "double_range (of_int 255)" by (simp_all add: double_range_def)
  have r: "fl_round F 0 = Fin 0" "fl_round F 255 = Fin 255"
    using rnd_round [OF laws d(1)] rnd_round [OF laws d(2)] rnd_int [OF laws d(1)] rnd_int [OF laws d(2)] by simp_all
  have i: "round_half_even 0 = 0" "round_half_even 255 = 255"
    using round_half_even_of_int [of 0] round_half_even_of_int [of 255] by simp_all
  show "frac_entry F g 0 = Inr 0" "frac_entry F g 1 = Inr 255"
    by (simp_all add: frac_entry_def p fl_mul_def r py_round_def i)
qed

lemma level_entry_black:
  assumes ok: "levels_ok F black white g" and v: "0 \<le> v" "v \<le> black"
  shows "level_entry F black white (Fin g) v = Inr 0"
proof -
  have laws: "double_laws F" using ok by (simp add: levels_ok_def)
  have b: "v \<le> 255" using ok v by (simp add: levels_ok_def)
  have z: "rnd F 0 = 0" using rnd_int [OF laws, of 0] by (simp add: double_range_def)
  have "of_int (v - black) \<le> (0 :: rat)" using v by simp
  moreover have "0 \<le> rnd F (255 / of_int (white - black))" using level_scale(2) [OF ok] by linarith
  ultimately have n: "of_int (v - black) * rnd F (255 / of_int (white - black)) \<le> 0" by (rule mult_nonpos_nonneg)
  have d: "double_range (of_int (v - black) * rnd F (255 / of_int (white - black)))" "double_range 0"
    using level_product [OF ok v(1) b] by (simp_all add: double_rangeI del: of_int_diff of_int_minus)
  have "level_arg F black white v \<le> 0"
    unfolding level_arg_def using rnd_mono [OF laws d n] z by linarith
  then have "rnd F (level_arg F black white v / 255) \<le> rnd F 0"
    using level_arg(3) [OF ok v(1) b] by (intro rnd_mono [OF laws]) (simp_all add: double_range_def)
  then have "clamp (rnd F (level_arg F black white v / 255)) = 0" by (simp add: z clamp_def)
  then show ?thesis by (simp add: level_entry_frac [OF ok v(1) b] frac_entry_ends [OF ok])
qed

lemma level_entry_full:
  assumes ok: "levels_ok F black white g" and v: "0 \<le> v" "v \<le> 255"
    and p: "255 \<le> of_int (v - black) * rnd F (255 / of_int (white - black))"
  shows "level_entry F black white (Fin g) v = Inr 255"
proof -
  have laws: "double_laws F" using ok by (simp add: levels_ok_def)
  have i: "rnd F 255 = 255" "rnd F 1 = 1"
    using rnd_int [OF laws, of 255] rnd_int [OF laws, of 1] by (simp_all add: double_range_def)
  have r: "double_range (of_int (v - black) * rnd F (255 / of_int (white - black)))" "double_range 255" "double_range 1"
    by (rule double_rangeI [OF level_product [OF ok v]]) (simp_all add: double_range_def)
  have "255 \<le> level_arg F black white v"
    unfolding level_arg_def using rnd_mono [OF laws r(2,1) p] i by simp
  then have "1 \<le> rnd F (level_arg F black white v / 255)"
    using rnd_mono [OF laws r(3) level_arg(3) [OF ok v]] i by simp
  then have "clamp (rnd F (level_arg F black white v / 255)) = 1" by (simp add: clamp_def)
  then show ?thesis by (simp add: level_entry_frac [OF ok v] frac_entry_ends [OF ok])
qed

text \<open>Above the white point the rounding of the scale cannot bring the product below 255.\<close>

lemma scaled_full:
  fixes d u s n :: rat
  assumes "1 \<le> d" and "(d + 1) * u \<le> 1" and "255 / d * (1 - u) \<le> s" and "d + 1 \<le> n" and "0 \<le> s"
  shows "255 \<le> n * s"
proof -
  have "d \<le> (d + 1) * (1 - u)" using assms(2) by (simp add: algebra_simps)
  then have "255 / d * d \<le> 255 / d * ((d + 1) * (1 - u))" using assms(1) by (intro mult_left_mono) simp_all
  also have "\<dots> = (d + 1) * (255 / d * (1 - u))" by (simp only: mult_ac)
  also have "\<dots> \<le> (d + 1) * s" using assms(1,3) by (intro mult_left_mono) simp_all
  also have "\<dots> \<le> n * s" using assms(4,5) by (intro mult_right_mono)
  finally show ?thesis using assms(1) by simp
qed

lemma level_entry_above:
  assumes ok: "levels_ok F black white g" and v: "white < v" "v \<le> 255"
  shows "level_entry F black white (Fin g) v = Inr 255"
proof (rule level_entry_full [OF ok])
  define d u :: rat where du: "d = of_int (white - black)" "u = 1 / 2 ^ 53"
  have laws: "double_laws F" using ok by (simp add: levels_ok_def)
  have "1 \<le> white - black" "white - black \<le> 254" using ok v by (auto simp: levels_ok_def)
  then have "of_int 1 \<le> d" "d \<le> of_int 254" unfolding du by (simp_all only: of_int_le_iff)
  then have d: "1 \<le> d" "d \<le> 254" by simp_all
  have q: "1 \<le> 255 / d" "255 / d \<le> 255" using d by (simp_all add: field_simps)
  have big: "(255 :: rat) \<le> 2 ^ 53" by simp
  have "255 / d - 255 / d / 2 ^ 53 = 255 / d * (1 - u)" unfolding du(2) right_diff_distrib by simp
  then have s: "255 / d * (1 - u) \<le> rnd F (255 / d)" using rnd_near [OF laws q(1) order_trans [OF q(2) big]] by simp
  have "d + 1 = of_int (white - black + 1)" unfolding du by simp
  also have "\<dots> \<le> of_int (v - black)" using v(1) by (simp only: of_int_le_iff)
  finally have n: "d + 1 \<le> of_int (v - black)" .
  have "(d + 1) * u \<le> 255 * u" using d(2) unfolding du(2) by (intro mult_right_mono) simp_all
  also have "\<dots> \<le> 1" unfolding du(2) by simp
  finally have u: "(d + 1) * u \<le> 1" .
  have "0 \<le> rnd F (255 / d)" using level_scale(2) [OF ok] unfolding du by linarith
  from scaled_full [OF d(1) u s n this]
  show "255 \<le> of_int (v - black) * rnd F (255 / of_int (white - black))" unfolding du .
  show "0 \<le> v" "v \<le> 255" using ok v by (auto simp: levels_ok_def)
qed

lemma level_entry_white:
  assumes ok: "levels_ok F black white g" and "(white - black) dvd 255"
  shows "level_entry F black white (Fin g) white = Inr 255"
proof (rule level_entry_full [OF ok])
  have laws: "double_laws F" and w: "0 < white - black" using ok by (simp_all add: levels_ok_def)
  obtain k where k: "255 = (white - black) * k" using assms(2) by (elim dvdE)
  have "0 < k" "k \<le> 255"
    using k w zero_less_mult_iff [of "white - black" k] mult_mono [of 1 "white - black" k k] by auto
  then have "rnd F (of_int k) = of_int k" by (intro rnd_int [OF laws] double_rangeI) simp_all
  moreover have "of_int (white - black) * of_int k = (255 :: rat)"
    using arg_cong [OF k, where f = "of_int :: int \<Rightarrow> rat"] by (simp del: of_int_diff)
  moreover from this have "255 / of_int (white - black) = (of_int k :: rat)"
    using w by (simp add: field_simps del: of_int_diff)
  ultimately show "255 \<le> of_int (white - black) * rnd F (255 / of_int (white - black))" by (simp del: of_int_diff)
  show "0 \<le> white" "white \<le> 255" using ok by (auto simp: levels_ok_def)
qed

section \<open>The table\<close>

lemma level_entries_map:
  "(\<And>v. v \<in> set vs \<Longrightarrow> level_entry F black white gamma v = Inr (f v)) \<Longrightarrow>
     level_entries F black white gamma vs = Inr (map f vs)"
  by (induction vs) simp_all

lemma level_entries_nth:
  "level_entries F black white gamma vs = Inr t \<Longrightarrow>
     length t = length vs \<and> (\<forall>i < length vs. level_entry F black white gamma (vs ! i) = Inr (t ! i))"
proof (induction vs arbitrary: t)
  case (Cons v vs)
  then show ?case by (auto simp: ebind_Inr nth_Cons split: nat.split)
qed simp

theorem levels_table:
  "level_entries F black white gamma (map int [0..<256]) = Inr t \<Longrightarrow>
     length t = 256 \<and> (\<forall>v < 256. level_entry F black white gamma (int v) = Inr (t ! v))"
  by (drule level_entries_nth) simp

text \<open>With the white point next to the black point, levels are a threshold.\<close>

theorem levels_threshold:
  assumes ok: "levels_ok F black (black + 1) g"
  shows "level_entries F black (black + 1) (Fin g) (map int [0..<256]) = Inr (threshold_table black)"
proof -
  let ?f = "\<lambda>v. if black < v then 255 else 0 :: int"
  have "level_entry F black (black + 1) (Fin g) v = Inr (?f v)" if "v \<in> set (map int [0..<256])" for v
  proof -
    have v: "0 \<le> v" "v \<le> 255" using that by auto
    consider "v \<le> black" | "v = black + 1" | "black + 1 < v" by linarith
    then show ?thesis
      using level_entry_black [OF ok v(1)] level_entry_white [OF ok] level_entry_above [OF ok _ v(2)] by cases auto
  qed
  then have "level_entries F black (black + 1) (Fin g) (map int [0..<256]) = Inr (map ?f (map int [0..<256]))"
    by (rule level_entries_map)
  then show ?thesis by (simp add: threshold_table_def comp_def)
qed

end
