(* ===== verification/Color.thy ===== *)
theory Color
  imports Raster
begin

text \<open>
  \<^verbatim>\<open>core/color.py\<close>: palettes, posterize, colour masks and the SVG modules. An element of
  \<^verbatim>\<open>xml.etree\<close> is \<open>elem\<close>; parsing and printing a document are the record \<open>svg_io\<close>. numpy and
  scikit-image give the CIELAB distance of two colours, the argument \<open>lab\<close>, as the double it is.
\<close>

section \<open>Palettes\<close>

definition hex_value :: "char \<Rightarrow> int option" where
  "hex_value c = (let n = (of_char c :: nat) in
     if 48 \<le> n \<and> n \<le> 57 then Some (int n - 48) else if 97 \<le> n \<and> n \<le> 102 then Some (int n - 87)
     else if 65 \<le> n \<and> n \<le> 70 then Some (int n - 55) else None)"

definition hex_pair :: "char \<Rightarrow> char \<Rightarrow> int" where
  "hex_pair c d = (case (hex_value c, hex_value d) of (Some i, Some j) \<Rightarrow> i * 16 + j | _ \<Rightarrow> 0)"

text \<open>A \<open>#rrggbb\<close> colour.\<close>

definition hex_color :: "string \<Rightarrow> rgb option" where
  "hex_color s = (case s of
     [h, a, b, c, d, e, f] \<Rightarrow>
       (if h = CHR ''#'' \<and> list_all (\<lambda>x. hex_value x \<noteq> None) [a, b, c, d, e, f]
        then Some (hex_pair a b, hex_pair c d, hex_pair e f) else None)
   | _ \<Rightarrow> None)"

fun palette_entries :: "flt \<Rightarrow> nat \<Rightarrow> json list \<Rightarrow> rgb list \<Rightarrow> py_exn + rgb list" where
  "palette_entries F position [] entries = Inr entries"
| "palette_entries F position (e # es) entries =
     (case (case e of JStr s \<Rightarrow> hex_color s | _ \<Rightarrow> None) of
        None \<Rightarrow> Inl (ModuleError (''palette['' @ show_nat position @ ''] must be a #rrggbb hex color, got '' @ fl_repr F e))
      | Some rgb \<Rightarrow>
          (if rgb \<in> set entries
           then Inl (ModuleError (''palette['' @ show_nat position @ ''] duplicates an earlier entry: '' @ fl_repr F e))
           else palette_entries F (Suc position) es (entries @ [rgb])))"

definition type_name :: "json \<Rightarrow> string" where
  "type_name v = (case v of JNull \<Rightarrow> ''NoneType'' | JBool b \<Rightarrow> ''bool'' | JInt i \<Rightarrow> ''int'' | JFloat t \<Rightarrow> ''float''
     | JStr s \<Rightarrow> ''str'' | JArr xs \<Rightarrow> ''list'' | JObj kvs \<Rightarrow> ''dict'')"

definition validate_palette :: "flt \<Rightarrow> json \<Rightarrow> py_exn + rgb list" where
  "validate_palette F raw = (case raw of
     JArr es \<Rightarrow>
       (if \<not> (2 \<le> length es \<and> length es \<le> 256)
        then Inl (ModuleError (''palette length must be in [2, 256], got '' @ show_nat (length es)))
        else palette_entries F 0 es [])
   | v \<Rightarrow> Inl (ModuleError (''palette must be a list of #rrggbb strings, got '' @ type_name v)))"

section \<open>Posterize\<close>

text \<open>\<open>argmin\<close>: the first position of the least value.\<close>

fun argmin_from :: "nat \<Rightarrow> nat \<Rightarrow> rat \<Rightarrow> rat list \<Rightarrow> nat" where
  "argmin_from i best least [] = best"
| "argmin_from i best least (x # xs) =
     (if x < least then argmin_from (Suc i) i x xs else argmin_from (Suc i) best least xs)"

definition argmin :: "rat list \<Rightarrow> nat" where
  "argmin xs = (case xs of [] \<Rightarrow> 0 | x # ys \<Rightarrow> argmin_from 1 0 x ys)"

definition palette_index :: "(rgb \<Rightarrow> rgb \<Rightarrow> rat) \<Rightarrow> rgb list \<Rightarrow> rgb \<Rightarrow> 8 word" where
  "palette_index lab palette p = word_of_nat (argmin (map (lab p) palette))"

definition map_to_palette :: "'img pil \<Rightarrow> (rgb \<Rightarrow> rgb \<Rightarrow> rat) \<Rightarrow> 'img \<Rightarrow> rgb list \<Rightarrow> string + 'img" where
  "map_to_palette P lab img palette =
     ebind (pl_pixels P img) (\<lambda>pixels. Inr (pl_indexed P (pl_size P img) (map (palette_index lab palette) pixels)
       (concat (map (\<lambda>(r, g, b). [r, g, b]) palette))))"

definition posterize_run :: "'img pil \<Rightarrow> flt \<Rightarrow> (rgb \<Rightarrow> rgb \<Rightarrow> rat) \<Rightarrow> run" where
  "posterize_run P F lab ins ps draft =
     (if dict_get ps ''palette'' \<noteq> None \<and> dict_get ps ''colors'' \<noteq> None
      then Inl (ModuleError ''palette and colors are mutually exclusive; give one, not both'')
      else ebind (flat_image P ''RGB'' ins) (\<lambda>img.
        case dict_get ps ''palette'' of
          Some raw \<Rightarrow> ebind (validate_palette F raw) (\<lambda>palette. image_result P (raises (map_to_palette P lab img palette)))
        | None \<Rightarrow> ebind (int_param F ps ''colors'' 8) (\<lambda>colors.
            if \<not> (2 \<le> colors \<and> colors \<le> 256)
            then Inl (ModuleError (''colors must be in [2, 256], got '' @ show_int colors))
            else image_result P (raises (pl_quantize P colors img)))))"

definition posterize_module :: "'img pil \<Rightarrow> flt \<Rightarrow> (rgb \<Rightarrow> rgb \<Rightarrow> rat) \<Rightarrow> pymodule" where
  "posterize_module P F lab = \<lparr>mod_manifest = single_image_manifest ''image.posterize''
       ''Quantize to N flat colors (palette-mode PNG output)'',
     mod_run = posterize_run P F lab\<rparr>"

section \<open>Colour masks\<close>

definition mask_lut :: "int \<Rightarrow> int list" where
  "mask_lut index = (replicate 256 255)[nat index := 0]"

definition grow_mask :: "'img pil \<Rightarrow> flt \<Rightarrow> json \<Rightarrow> 'img \<Rightarrow> py_exn + results" where
  "grow_mask P F v img =
     (let bad = Inl (ModuleError (''grow must be a non-negative integer, got '' @ fl_repr F v)) in
      case v of
        JInt grow \<Rightarrow>
          (if grow < 0 then bad
           else ebind (if 0 < grow then raises (pl_min_filter P (2 * grow + 1) img) else Inr img) (\<lambda>m.
             ebind (encode_png P m) (\<lambda>res. Inr [(''mask'', \<lparr>r_type = raster_png, r_data = r_data res\<rparr>)])))
      | _ \<Rightarrow> bad)"

definition colormask_run :: "'img pil \<Rightarrow> flt \<Rightarrow> run" where
  "colormask_run P F ins ps draft =
     ebind (int_param F ps ''index'' 0) (\<lambda>index.
     ebind (input_of ins ''image'') (\<lambda>data. ebind (decode_png P data) (\<lambda>img.
       if pl_mode P img \<noteq> ''P''
       then Inl (ModuleError ''colormask needs a palette-mode image (the output of image.posterize)'')
       else if \<not> (0 \<le> index \<and> index < 256)
       then Inl (ModuleError (''index must be in [0, 256), got '' @ show_int index))
       else ebind (raises (pl_lut P (mask_lut index) img)) (\<lambda>mask.
         grow_mask P F (case dict_get ps ''grow'' of None \<Rightarrow> JInt 0 | Some v \<Rightarrow> v) mask))))"

definition colormask_manifest :: manifest where
  "colormask_manifest = \<lparr>m_name = ''image.colormask'', m_version = ''1.0'',
     m_description = ''Binary mask of one palette index of a posterized image'',
     m_inputs = [\<lparr>port_name = ''image'', port_type = raster_png\<rparr>],
     m_outputs = [\<lparr>port_name = ''mask'', port_type = raster_png\<rparr>], m_isolation = ''core''\<rparr>"

definition colormask_module :: "'img pil \<Rightarrow> flt \<Rightarrow> pymodule" where
  "colormask_module P F = \<lparr>mod_manifest = colormask_manifest, mod_run = colormask_run P F\<rparr>"

section \<open>SVG\<close>

datatype elem = Elem (el_tag: string) (el_attrib: "(string, string) dict") (el_text: "string option")
  (el_tail: "string option") (el_children: "elem list")

record svg_io =
  sv_parse :: "bytes \<Rightarrow> string + elem"
  sv_print :: "elem \<Rightarrow> bytes"

definition vector_svg :: string where
  "vector_svg = ''vector/svg''"

definition svg_tag :: "string \<Rightarrow> string" where
  "svg_tag name = ''{http://www.w3.org/2000/svg}'' @ name"

definition parse_svg :: "svg_io \<Rightarrow> bytes \<Rightarrow> string \<Rightarrow> py_exn + elem" where
  "parse_svg X data what = (case sv_parse X data of
     Inl e \<Rightarrow> Inl (ModuleError (''could not parse '' @ what @ '' as SVG: '' @ e)) | Inr r \<Rightarrow> Inr r)"

definition svg_result :: "svg_io \<Rightarrow> elem \<Rightarrow> results" where
  "svg_result X doc = [(''svg'', \<lparr>r_type = vector_svg, r_data = sv_print X doc\<rparr>)]"

definition set_fill :: "string \<Rightarrow> elem \<Rightarrow> elem" where
  "set_fill fill e = (case e of Elem tag attrib txt tail cs \<Rightarrow>
     if tag \<in> {svg_tag ''g'', svg_tag ''path''} then Elem tag (dict_set ''fill'' fill attrib) txt tail cs else e)"

definition colorize :: "string \<Rightarrow> elem \<Rightarrow> elem" where
  "colorize fill doc = (case doc of Elem tag attrib txt tail cs \<Rightarrow> Elem tag attrib txt tail (map (set_fill fill) cs))"

definition fill_ok :: "string \<Rightarrow> bool" where
  "fill_ok fill \<longleftrightarrow> take 1 fill = ''#'' \<and> length fill \<in> {4, 7} \<and> list_all (\<lambda>c. hex_value c \<noteq> None) (tl fill)"

definition svg_colorize_run :: "svg_io \<Rightarrow> flt \<Rightarrow> run" where
  "svg_colorize_run X F ins ps draft =
     (let fill = (case dict_get ps ''fill'' of None \<Rightarrow> ''#000000'' | Some (JStr s) \<Rightarrow> s | Some v \<Rightarrow> fl_str F v) in
      if \<not> fill_ok fill
      then Inl (ModuleError (''fill must be a #rgb or #rrggbb hex color, got '' @ fl_repr F (JStr fill)))
      else ebind (input_of ins ''svg'') (\<lambda>data. ebind (parse_svg X data ''input'') (\<lambda>doc.
        Inr (svg_result X (colorize fill doc)))))"

definition svg_colorize_manifest :: manifest where
  "svg_colorize_manifest = \<lparr>m_name = ''svg.colorize'', m_version = ''1.0'',
     m_description = ''Set fill color (hex) on an SVG's top-level groups and paths'',
     m_inputs = [\<lparr>port_name = ''svg'', port_type = vector_svg\<rparr>],
     m_outputs = [\<lparr>port_name = ''svg'', port_type = vector_svg\<rparr>], m_isolation = ''core''\<rparr>"

definition svg_colorize_module :: "svg_io \<Rightarrow> flt \<Rightarrow> pymodule" where
  "svg_colorize_module X F = \<lparr>mod_manifest = svg_colorize_manifest, mod_run = svg_colorize_run X F\<rparr>"

definition merge_svg :: "elem \<Rightarrow> elem \<Rightarrow> elem" where
  "merge_svg bottom over = (case bottom of Elem tag attrib txt tail cs \<Rightarrow>
     Elem tag attrib txt tail (cs @ filter (\<lambda>c. el_tag c \<noteq> svg_tag ''metadata'') (el_children over)))"

definition svg_merge_run :: "svg_io \<Rightarrow> run" where
  "svg_merge_run X ins ps draft =
     ebind (input_of ins ''under'') (\<lambda>u. ebind (parse_svg X u ''under'') (\<lambda>bottom.
     ebind (input_of ins ''over'') (\<lambda>v. ebind (parse_svg X v ''over'') (\<lambda>over.
       Inr (svg_result X (merge_svg bottom over))))))"

definition svg_merge_manifest :: manifest where
  "svg_merge_manifest = \<lparr>m_name = ''svg.merge'', m_version = ''1.0'',
     m_description = ''Stack two SVGs (under, over) on the under-canvas'',
     m_inputs = [\<lparr>port_name = ''under'', port_type = vector_svg\<rparr>, \<lparr>port_name = ''over'', port_type = vector_svg\<rparr>],
     m_outputs = [\<lparr>port_name = ''svg'', port_type = vector_svg\<rparr>], m_isolation = ''core''\<rparr>"

definition svg_merge_module :: "svg_io \<Rightarrow> pymodule" where
  "svg_merge_module X = \<lparr>mod_manifest = svg_merge_manifest, mod_run = svg_merge_run X\<rparr>"

end
