(* ===== verification/ColorFacts.thy ===== *)
theory ColorFacts
  imports Color "HOL-Library.Sublist"
begin

text \<open>
  What the palette, the masks and the SVG modules compute: a validated palette, the nearest entry
  with ties to the lowest index (ADR 0020), a mask of one index (ADR 0022), and a merge whose
  result depends only on the order of the layers, not on the shape of the merge tree (ADR 0009).
\<close>

section \<open>Palettes\<close>

lemma palette_entries_iff:
  "distinct entries \<Longrightarrow> palette_entries F i es entries = Inr pal \<longleftrightarrow>
     (\<exists>ss ps. es = map JStr ss \<and> map hex_color ss = map Some ps \<and> pal = entries @ ps \<and> distinct pal)"
proof (induction es arbitrary: i entries)
  case (Cons e es)
  show ?case
  proof (cases "case e of JStr s \<Rightarrow> hex_color s | _ \<Rightarrow> None")
    case None
    have "\<not> (\<exists>ss ps. e # es = map JStr ss \<and> map hex_color ss = map Some ps)"
    proof
      assume "\<exists>ss ps. e # es = map JStr ss \<and> map hex_color ss = map Some ps"
      then obtain ss ps where a: "e # es = map JStr ss" "map hex_color ss = map Some ps" by (elim exE conjE)
      then obtain s ss' where "ss = s # ss'" "e = JStr s" by (cases ss) auto
      then show False using a(2) None by (cases ps) auto
    qed
    then show ?thesis using None by auto
  next
    case (Some rgb)
    then obtain s where s: "e = JStr s" "hex_color s = Some rgb" by (cases e) auto
    show ?thesis
    proof (cases "rgb \<in> set entries")
      case True
      have "\<not> (\<exists>ss ps. e # es = map JStr ss \<and> map hex_color ss = map Some ps \<and> distinct (entries @ ps))"
      proof
        assume "\<exists>ss ps. e # es = map JStr ss \<and> map hex_color ss = map Some ps \<and> distinct (entries @ ps)"
        then obtain ss ps where a: "e # es = map JStr ss" "map hex_color ss = map Some ps" "distinct (entries @ ps)" by (elim exE conjE)
        then obtain ss' where "ss = s # ss'" using s by (cases ss) auto
        then have "rgb \<in> set ps" using a(2) s by (cases ps) auto
        then show False using a(3) True by auto
      qed
      then show ?thesis using True Some s by auto
    next
      case False
      then have d: "distinct (entries @ [rgb])" using Cons.prems by simp
      have "palette_entries F i (e # es) entries = palette_entries F (Suc i) es (entries @ [rgb])"
        using False Some by simp
      also have "\<dots> = Inr pal \<longleftrightarrow> (\<exists>ss ps. es = map JStr ss \<and> map hex_color ss = map Some ps \<and>
          pal = (entries @ [rgb]) @ ps \<and> distinct pal)"
        by (rule Cons.IH [OF d])
      also have "\<dots> \<longleftrightarrow> (\<exists>ss ps. e # es = map JStr ss \<and> map hex_color ss = map Some ps \<and> pal = entries @ ps \<and> distinct pal)"
      proof
        assume "\<exists>ss ps. es = map JStr ss \<and> map hex_color ss = map Some ps \<and> pal = (entries @ [rgb]) @ ps \<and> distinct pal"
        then obtain ss ps where "es = map JStr ss" "map hex_color ss = map Some ps" "pal = (entries @ [rgb]) @ ps" "distinct pal"
          by (elim exE conjE)
        then have "e # es = map JStr (s # ss)" "map hex_color (s # ss) = map Some (rgb # ps)" "pal = entries @ (rgb # ps)" "distinct pal"
          using s by simp_all
        then show "\<exists>ss ps. e # es = map JStr ss \<and> map hex_color ss = map Some ps \<and> pal = entries @ ps \<and> distinct pal"
          by (intro exI conjI)
      next
        assume "\<exists>ss ps. e # es = map JStr ss \<and> map hex_color ss = map Some ps \<and> pal = entries @ ps \<and> distinct pal"
        then obtain ss ps where a: "e # es = map JStr ss" "map hex_color ss = map Some ps" "pal = entries @ ps" "distinct pal"
          by (elim exE conjE)
        from a(1) s obtain ss' where b: "ss = s # ss'" "es = map JStr ss'" by (cases ss) auto
        with a(2) s obtain ps' where c: "ps = rgb # ps'" "map hex_color ss' = map Some ps'" by (cases ps) auto
        show "\<exists>ss ps. es = map JStr ss \<and> map hex_color ss = map Some ps \<and> pal = (entries @ [rgb]) @ ps \<and> distinct pal"
          using a(3,4) b c by (intro exI [of _ ss'] exI [of _ ps']) simp
      qed
      finally show ?thesis .
    qed
  qed
qed auto

theorem validate_palette_iff:
  "validate_palette F raw = Inr pal \<longleftrightarrow> (\<exists>ss. raw = JArr (map JStr ss) \<and> map hex_color ss = map Some pal \<and>
     2 \<le> length pal \<and> length pal \<le> 256 \<and> distinct pal)"
proof (cases raw)
  case (JArr es)
  have "palette_entries F 0 es [] = Inr pal \<longleftrightarrow>
      (\<exists>ss. es = map JStr ss \<and> map hex_color ss = map Some pal \<and> distinct pal)"
    by (simp add: palette_entries_iff)
  moreover have "length es = length pal" if "es = map JStr ss" "map hex_color ss = map Some pal" for ss
    using that by (metis length_map)
  ultimately show ?thesis by (auto simp: validate_palette_def JArr)
qed (auto simp: validate_palette_def)

section \<open>The nearest entry\<close>

lemma argmin_from_spec:
  assumes "pre \<noteq> []" and "best < length pre" and "pre ! best = least"
    and "\<forall>j < length pre. least \<le> pre ! j" and "\<forall>j < best. least < pre ! j"
  shows "argmin_from (length pre) best least xs < length (pre @ xs) \<and>
    (\<forall>j < length (pre @ xs). (pre @ xs) ! argmin_from (length pre) best least xs \<le> (pre @ xs) ! j) \<and>
    (\<forall>j < argmin_from (length pre) best least xs. (pre @ xs) ! argmin_from (length pre) best least xs < (pre @ xs) ! j)"
  using assms
proof (induction xs arbitrary: pre best least)
  case Nil
  then show ?case by simp
next
  case (Cons x xs)
  show ?case
  proof (cases "x < least")
    case True
    have "argmin_from (length (pre @ [x])) (length pre) x xs < length ((pre @ [x]) @ xs) \<and>
      (\<forall>j < length ((pre @ [x]) @ xs). ((pre @ [x]) @ xs) ! argmin_from (length (pre @ [x])) (length pre) x xs \<le> ((pre @ [x]) @ xs) ! j) \<and>
      (\<forall>j < argmin_from (length (pre @ [x])) (length pre) x xs.
         ((pre @ [x]) @ xs) ! argmin_from (length (pre @ [x])) (length pre) x xs < ((pre @ [x]) @ xs) ! j)"
    proof (rule Cons.IH)
      show "\<forall>j < length (pre @ [x]). x \<le> (pre @ [x]) ! j"
        using Cons.prems(4) True by (auto simp: nth_append less_Suc_eq intro: order_trans order_less_imp_le)
      show "\<forall>j < length pre. x < (pre @ [x]) ! j"
        using Cons.prems(4) True by (auto simp: nth_append intro: order_less_le_trans)
    qed simp_all
    then show ?thesis using True by simp
  next
    case False
    have "argmin_from (length (pre @ [x])) best least xs < length ((pre @ [x]) @ xs) \<and>
      (\<forall>j < length ((pre @ [x]) @ xs). ((pre @ [x]) @ xs) ! argmin_from (length (pre @ [x])) best least xs \<le> ((pre @ [x]) @ xs) ! j) \<and>
      (\<forall>j < argmin_from (length (pre @ [x])) best least xs.
         ((pre @ [x]) @ xs) ! argmin_from (length (pre @ [x])) best least xs < ((pre @ [x]) @ xs) ! j)"
      by (rule Cons.IH) (use Cons.prems False in \<open>auto simp: nth_append less_Suc_eq\<close>)
    then show ?thesis using False by simp
  qed
qed

definition first_least :: "rat list \<Rightarrow> nat \<Rightarrow> bool" where
  "first_least xs k \<longleftrightarrow> k < length xs \<and> (\<forall>j < length xs. xs ! k \<le> xs ! j) \<and> (\<forall>j < k. xs ! k < xs ! j)"

lemma argmin_first_least: "xs \<noteq> [] \<Longrightarrow> first_least xs (argmin xs)"
  using argmin_from_spec [of "[hd xs]" 0 "hd xs" "tl xs"] by (cases xs) (auto simp: argmin_def first_least_def)

lemma palette_index_nearest:
  assumes "pal \<noteq> []" and "length pal \<le> 256"
  shows "first_least (map (lab p) pal) (unat (palette_index lab pal p))"
proof -
  have f: "first_least (map (lab p) pal) (argmin (map (lab p) pal))" using assms(1) by (intro argmin_first_least) simp
  then have "argmin (map (lab p) pal) < 256" using assms(2) by (simp add: first_least_def)
  then have "unat (palette_index lab pal p) = argmin (map (lab p) pal)"
    by (simp add: palette_index_def unsigned_of_nat take_bit_nat_eq_self)
  then show ?thesis using f by simp
qed

section \<open>Masks\<close>

lemma mask_lut_entry:
  assumes "0 \<le> index" and "index < 256" and "v < 256"
  shows "mask_lut index ! v = (if int v = index then 0 else 255)" and "length (mask_lut index) = 256"
proof -
  have n: "nat index = v \<longleftrightarrow> int v = index" "nat index < 256" using assms by auto
  show "mask_lut index ! v = (if int v = index then 0 else 255)"
    using n assms by (auto simp: mask_lut_def nth_list_update)
  show "length (mask_lut index) = 256" by (simp add: mask_lut_def)
qed

section \<open>Merging layers\<close>

definition layers :: "elem \<Rightarrow> elem list" where
  "layers e = filter (\<lambda>c. el_tag c \<noteq> svg_tag ''metadata'') (el_children e)"

lemma merge_svg_children: "el_children (merge_svg a b) = el_children a @ layers b"
  by (cases a) (simp add: merge_svg_def layers_def)

lemma layers_merge: "layers (merge_svg a b) = layers a @ layers b"
  unfolding layers_def merge_svg_children by (simp add: layers_def)

lemma merge_svg_assoc: "merge_svg (merge_svg a b) c = merge_svg a (merge_svg b c)"
proof -
  have m: "merge_svg x y = Elem (el_tag x) (el_attrib x) (el_text x) (el_tail x) (el_children x @ layers y)" for x y
    by (cases x) (simp add: merge_svg_def layers_def)
  show ?thesis unfolding m [of a "merge_svg b c"] layers_merge m [of "merge_svg a b" c] by (simp add: m [of a b])
qed

text \<open>Any binary tree of \<open>svg.merge\<close> nodes over SVG payloads, run as the modules run it.\<close>

datatype merge_tree = Layer bytes | Merge merge_tree merge_tree

fun leaves :: "merge_tree \<Rightarrow> bytes list" where
  "leaves (Layer b) = [b]"
| "leaves (Merge l r) = leaves l @ leaves r"

fun run_tree :: "svg_io \<Rightarrow> merge_tree \<Rightarrow> py_exn + bytes" where
  "run_tree X (Layer b) = Inr b"
| "run_tree X (Merge l r) =
     ebind (run_tree X l) (\<lambda>u. ebind (run_tree X r) (\<lambda>v.
       ebind (svg_merge_run X [(''under'', u), (''over'', v)] [] False) (\<lambda>rs.
         case dict_get rs ''svg'' of None \<Rightarrow> Inl (PyError ''KeyError'') | Some r \<Rightarrow> Inr (r_data r))))"

text \<open>The stack of the layers \<open>es\<close>: the first document with the elements of the others after its own.\<close>

definition merge_all :: "elem list \<Rightarrow> elem" where
  "merge_all es = (case hd es of Elem tag attrib txt tail cs \<Rightarrow>
     Elem tag attrib txt tail (cs @ concat (map layers (tl es))))"

lemma merge_all_single [simp]: "merge_all [e] = e"
  by (cases e) (simp add: merge_all_def)

lemma layers_idem: "filter (\<lambda>c. el_tag c \<noteq> svg_tag ''metadata'') (concat (map layers es)) = concat (map layers es)"
  by (induction es) (simp_all add: layers_def)

lemma layers_merge_all: "es \<noteq> [] \<Longrightarrow> layers (merge_all es) = concat (map layers es)"
  by (cases es; cases "hd es") (simp_all add: merge_all_def layers_idem layers_def [of "merge_all es" for es] layers_def [of "Elem a b c d e" for a b c d e])

lemma merge_all_append:
  assumes "es \<noteq> []" and "fs \<noteq> []" shows "merge_all (es @ fs) = merge_svg (merge_all es) (merge_all fs)"
proof -
  have "merge_svg (merge_all es) d = Elem (el_tag (hd es)) (el_attrib (hd es)) (el_text (hd es)) (el_tail (hd es))
      (el_children (hd es) @ concat (map layers (tl es)) @ layers d)" for d
    by (cases "hd es") (simp add: merge_all_def merge_svg_def layers_def)
  then show ?thesis
    using assms by (cases "hd es") (simp add: layers_merge_all, simp add: merge_all_def)
qed

lemma leaves_nonempty [simp]: "leaves t \<noteq> []"
  by (induction t) auto

text \<open>
  What the modules need of \<^verbatim>\<open>xml.etree\<close>: the documents that occur, merges of consecutive layers, are
  read back as they were written.
\<close>

definition reads_back :: "svg_io \<Rightarrow> elem list \<Rightarrow> bool" where
  "reads_back X es \<longleftrightarrow> (\<forall>fs. fs \<noteq> [] \<longrightarrow> sublist fs es \<longrightarrow> sv_parse X (sv_print X (merge_all fs)) = Inr (merge_all fs))"

lemma reads_back_part: "reads_back X es \<Longrightarrow> sublist fs es \<Longrightarrow> reads_back X fs"
  unfolding reads_back_def using sublist_order.order_trans by blast

theorem run_tree_merges:
  assumes "map (sv_parse X) (leaves t) = map Inr es" and "reads_back X es"
  shows "\<exists>b. run_tree X t = Inr b \<and> sv_parse X b = Inr (merge_all es)"
  using assms
proof (induction t arbitrary: es)
  case (Layer b)
  then show ?case by (auto)
next
  case (Merge l r)
  let ?n = "length (leaves l)"
  have "map (sv_parse X) (leaves l) = map Inr (take ?n es)" "map (sv_parse X) (leaves r) = map Inr (drop ?n es)"
    using Merge.prems(1) by (metis append_eq_conv_conj leaves.simps(2) length_map map_append take_map drop_map)+
  then obtain u v where u: "run_tree X l = Inr u" "sv_parse X u = Inr (merge_all (take ?n es))"
      and v: "run_tree X r = Inr v" "sv_parse X v = Inr (merge_all (drop ?n es))"
    using Merge.IH reads_back_part [OF Merge.prems(2)] by (meson sublist_take sublist_drop)
  have len: "length es = ?n + length (leaves r)" using Merge.prems(1) by (metis leaves.simps(2) length_append length_map)
  moreover have "0 < ?n" "0 < length (leaves r)" by simp_all
  ultimately have ne: "take ?n es \<noteq> []" "drop ?n es \<noteq> []" "es \<noteq> []" by auto
  then have m: "merge_all es = merge_svg (merge_all (take ?n es)) (merge_all (drop ?n es))"
    using merge_all_append [of "take ?n es" "drop ?n es"] by simp
  have "sv_parse X (sv_print X (merge_all es)) = Inr (merge_all es)"
    using Merge.prems(2) ne(3) by (simp add: reads_back_def)
  then show ?case
    using u v by (simp add: svg_merge_run_def input_of_def parse_svg_def svg_result_def m)
qed

lemma colorize_merge: "colorize fill (merge_svg a b) = merge_svg (colorize fill a) (colorize fill b)"
proof -
  have t: "el_tag (set_fill fill c) = el_tag c" for c by (cases c) (simp add: set_fill_def)
  show ?thesis
    by (cases a; cases b) (simp add: colorize_def merge_svg_def filter_map comp_def t)
qed

end
