(* ===== verification/Potrace.thy ===== *)
theory Potrace
  imports Raster
begin

text \<open>
  \<^verbatim>\<open>core/potrace.py\<close>: the tracing module. Where the binary may be is the record \<open>potrace_env\<close>, with
  the program itself as a function of its command line and its standard input.
\<close>

datatype process_result = TimedOut | NotStarted string | Exited int bytes string

record potrace_env =
  pe_variable :: "string option"
  pe_is_file :: "string \<Rightarrow> bool"
  pe_which :: "string option"
  pe_process :: "string list \<Rightarrow> bytes \<Rightarrow> process_result"

definition dev_potrace :: string where
  "dev_potrace = ''tools/potrace-1.16.win64/potrace.exe''"

definition path_potrace :: "potrace_env \<Rightarrow> string option" where
  "path_potrace V = (case pe_which V of
     Some (c # cs) \<Rightarrow> Some (c # cs) | _ \<Rightarrow> if pe_is_file V dev_potrace then Some dev_potrace else None)"

definition find_potrace :: "potrace_env \<Rightarrow> string option" where
  "find_potrace V = (case pe_variable V of
     Some env \<Rightarrow> if env \<noteq> [] \<and> pe_is_file V env then Some env else path_potrace V
   | None \<Rightarrow> path_potrace V)"

definition png_to_pgm :: "'img pil \<Rightarrow> bytes \<Rightarrow> py_exn + bytes" where
  "png_to_pgm P data =
     (case ebind (pl_open P data) (\<lambda>img. ebind (flatten P img) (pl_convert P ''L'')) of
        Inl e \<Rightarrow> Inl (ModuleError (''could not decode PNG input: '' @ e))
      | Inr gray \<Rightarrow> raises (pl_save P ''PPM'' gray))"

definition potrace_command :: "flt \<Rightarrow> string \<Rightarrow> pyfloat \<Rightarrow> int \<Rightarrow> string list" where
  "potrace_command F binary blacklevel turdsize =
     [binary, ''--svg'', ''--blacklevel'', fl_text F blacklevel, ''--turdsize'', show_int turdsize, ''--output'', ''-'']"

definition potrace_param :: "params \<Rightarrow> string \<Rightarrow> json \<Rightarrow> json" where
  "potrace_param ps name dflt = (case dict_get ps name of None \<Rightarrow> dflt | Some v \<Rightarrow> v)"

definition invalid_potrace :: "(string \<Rightarrow> json \<Rightarrow> string) \<Rightarrow> string \<Rightarrow> json \<Rightarrow> py_exn" where
  "invalid_potrace xt f v = ModuleError (''invalid potrace params: '' @ xt f v)"

definition traced :: "process_result \<Rightarrow> py_exn + results" where
  "traced r = (case r of
     TimedOut \<Rightarrow> Inl (ModuleError ''potrace timed out after 300s'')
   | NotStarted e \<Rightarrow> Inl (ModuleError (''failed to run potrace: '' @ e))
   | Exited code out err \<Rightarrow>
       (if code \<noteq> 0 then Inl (ModuleError (''potrace failed (exit '' @ show_int code @ ''): '' @ py_strip err))
        else Inr [(''svg'', \<lparr>r_type = ''vector/svg'', r_data = out\<rparr>)]))"

text \<open>\<open>xt f v\<close> is the text of the exception of \<open>f(v)\<close> for the functions \<open>float\<close> and \<open>int\<close>.\<close>

definition potrace_run :: "potrace_env \<Rightarrow> 'img pil \<Rightarrow> flt \<Rightarrow> (string \<Rightarrow> json \<Rightarrow> string) \<Rightarrow> run" where
  "potrace_run V P F xt ins ps draft =
     (case find_potrace V of
        None \<Rightarrow> Inl (ModuleError (''potrace binary not found (set FORMSHIFT_POTRACE, add potrace to PATH, '' @
          ''or place it at tools/potrace-1.16.win64/potrace.exe)''))
      | Some binary \<Rightarrow>
          (let bl = potrace_param ps ''blacklevel'' (JFloat ''0.5''); ts = potrace_param ps ''turdsize'' (JInt 2) in
           ebind (if dict_get ps ''blacklevel'' = None then Inr (Fin (1 / 2))
             else conv_raise (invalid_potrace xt ''float'' bl) (py_float F bl)) (\<lambda>blacklevel.
           ebind (conv_raise (invalid_potrace xt ''int'' ts) (py_int F ts)) (\<lambda>turdsize.
             if \<not> (py_le (Fin 0) blacklevel \<and> py_le blacklevel (Fin 1))
             then Inl (ModuleError (''blacklevel must be in [0, 1], got '' @ fl_text F blacklevel))
             else if turdsize < 0
             then Inl (ModuleError (''turdsize must be >= 0, got '' @ show_int turdsize))
             else ebind (input_of ins ''image'') (\<lambda>data. ebind (png_to_pgm P data) (\<lambda>pgm.
               traced (pe_process V (potrace_command F binary blacklevel turdsize) pgm)))))))"

definition potrace_manifest :: manifest where
  "potrace_manifest = \<lparr>m_name = ''potrace.trace'', m_version = ''1.16'',
     m_description = ''Trace a raster image to SVG with potrace (subprocess, GPL boundary)'',
     m_inputs = [\<lparr>port_name = ''image'', port_type = ''raster/png''\<rparr>],
     m_outputs = [\<lparr>port_name = ''svg'', port_type = ''vector/svg''\<rparr>], m_isolation = ''core''\<rparr>"

definition potrace_module :: "potrace_env \<Rightarrow> 'img pil \<Rightarrow> flt \<Rightarrow> (string \<Rightarrow> json \<Rightarrow> string) \<Rightarrow> pymodule" where
  "potrace_module V P F xt = \<lparr>mod_manifest = potrace_manifest, mod_run = potrace_run V P F xt\<rparr>"

end
