(* ===== verification/CoreModules.thy ===== *)
theory CoreModules
  imports ColorFacts Potrace Values
begin

text \<open>
  The registry the server starts with (\<open>default_registry\<close> of \<^verbatim>\<open>app.py\<close>) and the contract of its
  modules: whatever a run returns has the outputs its manifest declares, so the executor never
  rejects it.
\<close>

record 'img core_env =
  ce_pil :: "'img pil"
  ce_flt :: flt
  ce_lab :: "rgb \<Rightarrow> rgb \<Rightarrow> rat"
  ce_svg :: svg_io
  ce_potrace :: potrace_env
  ce_text :: "string \<Rightarrow> json \<Rightarrow> string"

definition core_modules :: "'img core_env \<Rightarrow> pymodule list" where
  "core_modules E =
     (let P = ce_pil E; F = ce_flt E; X = ce_svg E in
      [potrace_module (ce_potrace E) P F (ce_text E), crop_module P F, rotate_module P F, levels_module P F,
       threshold_module P F, invert_module P, downsample_module P F, posterize_module P F (ce_lab E),
       colormask_module P F, svg_colorize_module X F, svg_merge_module X])"

definition default_registry :: "'img core_env \<Rightarrow> registry_error + registry" where
  "default_registry E = foldl (\<lambda>r md. ebind r (register md)) (Inr []) (core_modules E)"

section \<open>The contract of a core module\<close>

locale conforming_module =
  fixes md :: pymodule
  assumes core: "m_isolation (mod_manifest md) = ''core''"
    and ports: "ports_distinct (mod_manifest md)"
    and run_conforms: "mod_run md ins ps draft = Inr rs \<Longrightarrow> conforms (mod_manifest md) rs"
begin

lemma never_rejected: "mod_run md ins ps draft = Inr rs \<Longrightarrow> contract_error (mod_manifest md) rs = None"
  by (simp add: contract_error_None run_conforms)

lemma registers:
  "registry_get reg (m_name (mod_manifest md)) = None \<Longrightarrow> register md reg = Inr (reg @ [(m_name (mod_manifest md), md)])"
  by (simp add: register_Inr core dict_set_fresh registry_get_def)

lemma facts: "m_isolation (mod_manifest md) = ''core'' \<and> ports_distinct (mod_manifest md) \<and>
    (\<forall>ins ps draft rs. mod_run md ins ps draft = Inr rs \<longrightarrow> contract_error (mod_manifest md) rs = None)"
  using core ports never_rejected by blast

end

lemma image_result_Inr: "image_result P r = Inr rs \<Longrightarrow> \<exists>d. rs = [(''image'', \<lparr>r_type = raster_png, r_data = d\<rparr>)]"
  by (auto simp: image_result_def encode_png_def ebind_Inr)

lemma conforms_image: "\<exists>d. rs = [(''image'', \<lparr>r_type = raster_png, r_data = d\<rparr>)] \<Longrightarrow> conforms (single_image_manifest n t) rs"
  by (auto simp: conforms_def declared_types_def dict_of_def single_image_manifest_def)

lemma single_image_ok: "m_isolation (single_image_manifest n t) = ''core''" "ports_distinct (single_image_manifest n t)"
  by (simp_all add: single_image_manifest_def ports_distinct_def)

lemma crop_results: "crop_run P F ins ps draft = Inr rs \<Longrightarrow> \<exists>d. rs = [(''image'', \<lparr>r_type = raster_png, r_data = d\<rparr>)]"
  by (auto simp: crop_run_def ebind_Inr case_prod_beta dest: image_result_Inr split: if_splits)

interpretation crop: conforming_module "crop_module P F" for P F
  by unfold_locales (simp_all add: crop_module_def single_image_ok conforms_image crop_results)

lemma rotate_results: "rotate_run P F ins ps draft = Inr rs \<Longrightarrow> \<exists>d. rs = [(''image'', \<lparr>r_type = raster_png, r_data = d\<rparr>)]"
  by (auto simp: rotate_run_def ebind_Inr dest: image_result_Inr)

interpretation rotate: conforming_module "rotate_module P F" for P F
  by unfold_locales (simp_all add: rotate_module_def single_image_ok conforms_image rotate_results)

lemma levels_results: "levels_run P F ins ps draft = Inr rs \<Longrightarrow> \<exists>d. rs = [(''image'', \<lparr>r_type = raster_png, r_data = d\<rparr>)]"
  by (auto simp: levels_run_def ebind_Inr dest: image_result_Inr split: if_splits)

interpretation levels: conforming_module "levels_module P F" for P F
  by unfold_locales (simp_all add: levels_module_def single_image_ok conforms_image levels_results)

lemma threshold_results: "threshold_run P F ins ps draft = Inr rs \<Longrightarrow> \<exists>d. rs = [(''image'', \<lparr>r_type = raster_png, r_data = d\<rparr>)]"
  by (auto simp: threshold_run_def ebind_Inr dest: image_result_Inr split: if_splits)

interpretation threshold: conforming_module "threshold_module P F" for P F
  by unfold_locales (simp_all add: threshold_module_def single_image_ok conforms_image threshold_results)

lemma invert_results: "invert_run P ins ps draft = Inr rs \<Longrightarrow> \<exists>d. rs = [(''image'', \<lparr>r_type = raster_png, r_data = d\<rparr>)]"
  by (auto simp: invert_run_def ebind_Inr dest: image_result_Inr)

interpretation invert: conforming_module "invert_module P" for P
  by unfold_locales (simp_all add: invert_module_def single_image_ok conforms_image invert_results)

lemma downsample_results: "downsample_run P F ins ps draft = Inr rs \<Longrightarrow> \<exists>d. rs = [(''image'', \<lparr>r_type = raster_png, r_data = d\<rparr>)]"
  by (auto simp: downsample_run_def ebind_Inr Let_def dest: image_result_Inr split: if_splits)

interpretation downsample: conforming_module "downsample_module P F" for P F
  by unfold_locales (simp_all add: downsample_module_def single_image_ok conforms_image downsample_results)

lemma posterize_results: "posterize_run P F lab ins ps draft = Inr rs \<Longrightarrow> \<exists>d. rs = [(''image'', \<lparr>r_type = raster_png, r_data = d\<rparr>)]"
  by (auto simp: posterize_run_def ebind_Inr dest: image_result_Inr split: if_splits option.splits)

interpretation posterize: conforming_module "posterize_module P F lab" for P F lab
  by unfold_locales (simp_all add: posterize_module_def single_image_ok conforms_image posterize_results)

lemma grow_mask_results: "grow_mask P F v img = Inr rs \<Longrightarrow> \<exists>d. rs = [(''mask'', \<lparr>r_type = raster_png, r_data = d\<rparr>)]"
  by (cases v) (auto simp: grow_mask_def ebind_Inr Let_def split: if_splits)

lemma colormask_results:
  "colormask_run P F ins ps draft = Inr rs \<Longrightarrow> \<exists>d. rs = [(''mask'', \<lparr>r_type = raster_png, r_data = d\<rparr>)]"
  by (auto simp: colormask_run_def ebind_Inr dest: grow_mask_results split: if_splits)

interpretation colormask: conforming_module "colormask_module P F" for P F
  by unfold_locales (auto simp: colormask_module_def colormask_manifest_def ports_distinct_def conforms_def declared_types_def
      dict_of_def dest!: colormask_results)

interpretation svg_colorize: conforming_module "svg_colorize_module X F" for X F
  by unfold_locales (auto simp: svg_colorize_module_def svg_colorize_manifest_def svg_colorize_run_def ports_distinct_def
      conforms_def declared_types_def dict_of_def ebind_Inr Let_def svg_result_def split: if_splits)

interpretation svg_merge: conforming_module "svg_merge_module X" for X
  by unfold_locales (auto simp: svg_merge_module_def svg_merge_manifest_def svg_merge_run_def ports_distinct_def
      conforms_def declared_types_def dict_of_def ebind_Inr svg_result_def)

lemma traced_results: "traced r = Inr rs \<Longrightarrow> \<exists>d. rs = [(''svg'', \<lparr>r_type = ''vector/svg'', r_data = d\<rparr>)]"
  by (auto simp: traced_def split: process_result.splits if_splits)

lemma potrace_results:
  "potrace_run V P F xt ins ps draft = Inr rs \<Longrightarrow> \<exists>d. rs = [(''svg'', \<lparr>r_type = ''vector/svg'', r_data = d\<rparr>)]"
  by (auto simp: potrace_run_def ebind_Inr Let_def dest: traced_results split: option.splits if_splits)

interpretation potrace: conforming_module "potrace_module V P F xt" for V P F xt
  by unfold_locales (auto simp: potrace_module_def potrace_manifest_def ports_distinct_def conforms_def declared_types_def
      dict_of_def dest!: potrace_results)

section \<open>The default registry\<close>

definition core_names :: "string list" where
  "core_names = [''potrace.trace'', ''image.crop'', ''image.rotate'', ''image.levels'', ''image.threshold'',
     ''image.invert'', ''image.downsample'', ''image.posterize'', ''image.colormask'', ''svg.colorize'', ''svg.merge'']"

lemma core_modules_names: "map (\<lambda>md. m_name (mod_manifest md)) (core_modules E) = core_names"
  by (simp add: core_modules_def Let_def core_names_def potrace_module_def potrace_manifest_def crop_module_def
      rotate_module_def levels_module_def threshold_module_def invert_module_def downsample_module_def
      posterize_module_def colormask_module_def colormask_manifest_def svg_colorize_module_def
      svg_colorize_manifest_def svg_merge_module_def svg_merge_manifest_def single_image_manifest_def)

lemma core_modules_conform: "md \<in> set (core_modules E) \<Longrightarrow> conforming_module md"
  by (auto simp: core_modules_def Let_def potrace.conforming_module_axioms crop.conforming_module_axioms
      rotate.conforming_module_axioms levels.conforming_module_axioms threshold.conforming_module_axioms
      invert.conforming_module_axioms downsample.conforming_module_axioms posterize.conforming_module_axioms
      colormask.conforming_module_axioms svg_colorize.conforming_module_axioms svg_merge.conforming_module_axioms)

lemma register_all:
  "\<forall>md \<in> set mds. conforming_module md \<Longrightarrow> distinct (map fst reg @ map (\<lambda>md. m_name (mod_manifest md)) mds) \<Longrightarrow>
     foldl (\<lambda>r md. ebind r (register md)) (Inr reg) mds = Inr (reg @ map (\<lambda>md. (m_name (mod_manifest md), md)) mds)"
proof (induction mds arbitrary: reg)
  case (Cons md mds)
  have "registry_get reg (m_name (mod_manifest md)) = None"
    using Cons.prems(2) by (auto simp: registry_get_def map_of_eq_None_iff)
  then have "register md reg = Inr (reg @ [(m_name (mod_manifest md), md)])"
    using conforming_module.registers Cons.prems(1) by simp
  then show ?case using Cons by simp
qed simp

lemma default_registry_eq:
  "default_registry E = Inr (map (\<lambda>md. (m_name (mod_manifest md), md)) (core_modules E))"
proof -
  have "distinct core_names" by (simp add: core_names_def)
  then show ?thesis
    unfolding default_registry_def
    using register_all [of "core_modules E" "[]"] core_modules_conform [of _ E] by (simp add: core_modules_names)
qed

theorem default_registry_modules:
  "\<exists>reg. default_registry E = Inr reg \<and> dict_keys reg = core_names \<and> registry_ok reg \<and>
     (\<forall>(name, md) \<in> set reg. conforming_module md)"
proof -
  let ?reg = "map (\<lambda>md. (m_name (mod_manifest md), md)) (core_modules E)"
  have "distinct core_names" by (simp add: core_names_def)
  moreover have c: "\<forall>(name, md) \<in> set ?reg. conforming_module md" using core_modules_conform by auto
  ultimately have "registry_ok ?reg"
    using conforming_module.core by (auto simp: registry_ok_def dict_ok_def comp_def core_modules_names)
  moreover have "dict_keys ?reg = core_names" using core_modules_names by (simp add: comp_def)
  ultimately show ?thesis using default_registry_eq c by blast
qed

end
