(* ===== verification/Wiring.thy ===== *)
theory Wiring
  imports CoreModules
begin

text \<open>
  Building a valid graph node by node: a node whose inputs are fed by nodes that are already there
  keeps the contract of \<^verbatim>\<open>graph.py\<close>, and the ports of the core modules that clients wire.
\<close>

section \<open>Growing a valid graph\<close>

text \<open>The graph under construction: every node's inputs are fed once, by nodes that come before.\<close>

definition part_graph :: "binding list \<Rightarrow> node list \<Rightarrow> edge list \<Rightarrow> graph" where
  "part_graph bs ns es = \<lparr>g_nodes = ns, g_edges = es, g_bindings = bs, g_outputs = [], g_groups = []\<rparr>"

definition offers :: "registry \<Rightarrow> string \<Rightarrow> (string \<times> string) list \<Rightarrow> (string \<times> string) list \<Rightarrow> bool" where
  "offers reg name ins outs \<longleftrightarrow> (\<exists>md. registry_get reg name = Some md \<and>
     m_inputs (mod_manifest md) = map (\<lambda>(n, t). \<lparr>port_name = n, port_type = t\<rparr>) ins \<and>
     m_outputs (mod_manifest md) = map (\<lambda>(n, t). \<lparr>port_name = n, port_type = t\<rparr>) outs)"

abbreviation gives :: "registry \<Rightarrow> node list \<Rightarrow> string \<Rightarrow> string \<Rightarrow> string \<Rightarrow> bool" where
  "gives reg ns \<equiv> node_has_output reg (part_graph [] ns [])"

abbreviation takes :: "registry \<Rightarrow> node list \<Rightarrow> string \<Rightarrow> string \<Rightarrow> string \<Rightarrow> bool" where
  "takes reg ns \<equiv> node_has_input reg (part_graph [] ns [])"

definition wired :: "registry \<Rightarrow> binding list \<Rightarrow> node list \<Rightarrow> edge list \<Rightarrow> bool" where
  "wired reg bs ns es \<longleftrightarrow>
     distinct (map nd_id ns) \<and> (\<forall>n \<in> set ns. registry_get reg (nd_module n) \<noteq> None) \<and>
     (\<forall>e \<in> set es. \<exists>ty. gives reg ns (from_node e) (from_port e) ty \<and> takes reg ns (to_node e) (to_port e) ty) \<and>
     distinct (feed_keys (part_graph bs ns es)) \<and>
     (\<forall>n \<in> set ns. \<forall>md. registry_get reg (nd_module n) = Some md \<longrightarrow>
        (\<forall>p \<in> set (m_inputs (mod_manifest md)). (nd_id n, port_name p) \<in> set (feed_keys (part_graph bs ns es)))) \<and>
     edges_forward (dep_edges (part_graph bs ns es)) (map nd_id ns) \<and>
     (\<forall>b \<in> set bs. takes reg ns (b_node b) (b_port b) raster_png)"

lemma gives_id: "gives reg ns nid port ty \<Longrightarrow> nid \<in> nd_id ` set ns"
  by (auto simp: node_has_output_def part_graph_def)

lemma takes_id: "takes reg ns nid port ty \<Longrightarrow> nid \<in> nd_id ` set ns"
  by (auto simp: node_has_input_def part_graph_def)

lemma gives_append: "gives reg ns nid port ty \<Longrightarrow> gives reg (ns @ ns') nid port ty"
  by (auto simp: node_has_output_def part_graph_def)

lemma takes_append: "takes reg ns nid port ty \<Longrightarrow> takes reg (ns @ ns') nid port ty"
  by (auto simp: node_has_input_def part_graph_def)

lemma find_port:
  "distinct (map fst ps) \<Longrightarrow> (port, ty) \<in> set ps \<Longrightarrow>
     \<exists>p. find (\<lambda>p. port_name p = port) (map (\<lambda>(n, t). \<lparr>port_name = n, port_type = t\<rparr>) ps) = Some p \<and> port_type p = ty"
  by (induction ps) (auto simp: rev_image_eqI)

lemma offers_gives:
  "offers reg (nd_module n) ins outs \<Longrightarrow> distinct (map fst outs) \<Longrightarrow> (port, ty) \<in> set outs \<Longrightarrow>
     n \<in> set ns \<Longrightarrow> gives reg ns (nd_id n) port ty"
  unfolding offers_def node_has_output_def part_graph_def output_port_def
  by (auto dest!: find_port)

lemma offers_takes:
  "offers reg (nd_module n) ins outs \<Longrightarrow> distinct (map fst ins) \<Longrightarrow> (port, ty) \<in> set ins \<Longrightarrow>
     n \<in> set ns \<Longrightarrow> takes reg ns (nd_id n) port ty"
  unfolding offers_def node_has_input_def part_graph_def input_port_def
  by (auto dest!: find_port)


lemma edges_forward_more:
  "edges_forward es order \<Longrightarrow> (\<And>f t. (f, t) \<in> set es' \<Longrightarrow> t \<notin> set order) \<Longrightarrow> edges_forward (es @ es') order"
  unfolding edges_forward_def by fastforce

lemma wired_single:
  assumes off: "offers reg (nd_module n) [(port, raster_png)] outs"
  shows "wired reg [\<lparr>b_payload = pid, b_node = nd_id n, b_port = port\<rparr>] [n] []"
  using off offers_takes [OF off, of port raster_png "[n]"] by (auto simp: wired_def offers_def feed_keys_def dep_edges_def part_graph_def edges_forward_def)

lemma wired_extend:
  assumes w: "wired reg bs ns es" and fresh: "nd_id n \<notin> nd_id ` set ns"
    and off: "offers reg (nd_module n) ins outs" and dist: "distinct (map fst ins)"
    and edges: "list_all2 (\<lambda>(port, ty) e. to_node e = nd_id n \<and> to_port e = port \<and>
        gives reg ns (from_node e) (from_port e) ty) ins es'"
  shows "wired reg bs (ns @ [n]) (es @ es')"
proof -
  let ?k = "\<lambda>es. map (\<lambda>e. (to_node e, to_port e)) es"
  let ?b = "map (\<lambda>b. (b_node b, b_port b)) bs"
  have fk: "feed_keys (part_graph bs ns es) = ?k es @ ?b" for ns es by (simp add: feed_keys_def part_graph_def)
  have new: "?k es' = map (\<lambda>p. (nd_id n, p)) (map fst ins)"
    using edges by (induction rule: list_all2_induct) auto
  have old: "to_node e \<in> nd_id ` set ns" if "e \<in> set es" for e
    using w that takes_id unfolding wired_def by blast
  have oldb: "b_node b \<in> nd_id ` set ns" if "b \<in> set bs" for b
    using w that takes_id unfolding wired_def by blast
  have from_old: "from_node e \<in> nd_id ` set ns \<and> to_node e = nd_id n" if "e \<in> set es'" for e
    using edges that gives_id by (fastforce simp: list_all2_conv_all_nth in_set_conv_nth)
  obtain md where md: "registry_get reg (nd_module n) = Some md" "map port_name (m_inputs (mod_manifest md)) = map fst ins"
    using off by (auto simp: offers_def comp_def case_prod_beta)
  have ids: "distinct (map nd_id (ns @ [n]))" using w fresh by (auto simp: wired_def)
  have known: "\<forall>n' \<in> set (ns @ [n]). registry_get reg (nd_module n') \<noteq> None"
    using w md(1) by (auto simp: wired_def)
  have typed: "\<forall>e \<in> set (es @ es'). \<exists>ty. gives reg (ns @ [n]) (from_node e) (from_port e) ty \<and>
      takes reg (ns @ [n]) (to_node e) (to_port e) ty"
  proof
    fix e assume "e \<in> set (es @ es')"
    then consider "e \<in> set es" | "e \<in> set es'" by auto
    then show "\<exists>ty. gives reg (ns @ [n]) (from_node e) (from_port e) ty \<and> takes reg (ns @ [n]) (to_node e) (to_port e) ty"
    proof cases
      case 1
      then show ?thesis using w gives_append takes_append unfolding wired_def by blast
    next
      case 2
      then obtain ty where "(to_port e, ty) \<in> set ins" "to_node e = nd_id n" "gives reg ns (from_node e) (from_port e) ty"
        using edges by (fastforce simp: list_all2_conv_all_nth in_set_conv_nth)
      then show ?thesis using gives_append offers_takes [OF off dist, of _ _ "ns @ [n]"] by (metis in_set_conv_decomp)
    qed
  qed
  have dk: "distinct (feed_keys (part_graph bs (ns @ [n]) (es @ es')))"
  proof -
    have d: "distinct (?k es @ ?b)" "distinct (?k es')"
      using w dist unfolding new by (simp_all add: wired_def fk distinct_map inj_on_def)
    have sub: "fst ` set (?k es @ ?b) \<subseteq> nd_id ` set ns" using old oldb by auto
    have "fst x \<noteq> nd_id n" if "x \<in> set (?k es @ ?b)" for x
      using subsetD [OF sub imageI [OF that]] fresh by metis
    moreover have "fst x = nd_id n" if "x \<in> set (?k es')" for x using that unfolding new by auto
    ultimately have "set (?k es @ ?b) \<inter> set (?k es') = {}" by blast
    with d show ?thesis unfolding fk map_append by (simp only: distinct_append set_append) blast
  qed
  have fed: "\<forall>n' \<in> set (ns @ [n]). \<forall>md. registry_get reg (nd_module n') = Some md \<longrightarrow>
      (\<forall>p \<in> set (m_inputs (mod_manifest md)). (nd_id n', port_name p) \<in> set (feed_keys (part_graph bs (ns @ [n]) (es @ es'))))"
  proof (intro ballI allI impI)
    fix n' md' p
    assume a: "n' \<in> set (ns @ [n])" "registry_get reg (nd_module n') = Some md'" "p \<in> set (m_inputs (mod_manifest md'))"
    show "(nd_id n', port_name p) \<in> set (feed_keys (part_graph bs (ns @ [n]) (es @ es')))"
    proof (cases "n' = n")
      case True
      then have "port_name p \<in> set (map fst ins)" using a md by (metis image_eqI list.set_map option.inject)
      then have "(nd_id n', port_name p) \<in> set (?k es')" unfolding new True by auto
      then show ?thesis unfolding fk by simp
    next
      case False
      then have "(nd_id n', port_name p) \<in> set (?k es @ ?b)" using w a by (simp add: wired_def fk)
      then show ?thesis unfolding fk by auto
    qed
  qed
  have fw: "edges_forward (dep_edges (part_graph bs (ns @ [n]) (es @ es'))) (map nd_id (ns @ [n]))"
  proof -
    let ?d = "map (\<lambda>e. (from_node e, to_node e))"
    have t: "t = nd_id n \<and> f \<in> set (map nd_id ns)" if "(f, t) \<in> set (?d es')" for f t using that from_old by auto
    have nt: "(f, nd_id n) \<notin> set (?d es)" for f using old fresh by auto
    have "edges_forward (?d es) (map nd_id ns)" using w by (simp add: wired_def dep_edges_def part_graph_def)
    then have "edges_forward (?d (es @ es')) (map nd_id ns)"
      unfolding map_append by (rule edges_forward_more) (use t fresh in auto)
    moreover have "f \<in> set (map nd_id ns)" if "u \<in> set [nd_id n]" "(f, u) \<in> set (?d (es @ es'))" for u f
    proof -
      have "u = nd_id n" using that(1) by simp
      then have "(f, u) \<in> set (?d es')" using that(2) nt unfolding map_append set_append by blast
      then show ?thesis using t by blast
    qed
    ultimately have "edges_forward (?d (es @ es')) (map nd_id ns @ [nd_id n])" by (rule edges_forward_append)
    then show ?thesis by (simp add: dep_edges_def part_graph_def)
  qed
  have "\<forall>b \<in> set bs. takes reg (ns @ [n]) (b_node b) (b_port b) raster_png"
    using w takes_append unfolding wired_def by blast
  then show ?thesis unfolding wired_def using ids known typed dk fed fw by blast
qed

lemma wired_valid:
  assumes w: "wired reg bs ns es" and ne: "ns \<noteq> []" and out: "gives reg ns o_id o_p ty"
    and bound: "\<forall>b \<in> set bs. \<exists>p. get_payload ses (b_payload b) = Some p \<and> pl_type p = raster_png"
  shows "validate_graph \<lparr>g_nodes = ns, g_edges = es, g_bindings = bs, g_outputs = [\<lparr>o_node = o_id, o_port = o_p, o_group = None\<rparr>],
    g_groups = []\<rparr> reg ses = []"
proof -
  let ?g = "\<lparr>g_nodes = ns, g_edges = es, g_bindings = bs, g_outputs = [\<lparr>o_node = o_id, o_port = o_p, o_group = None\<rparr>],
    g_groups = []\<rparr>"
  have io: "node_has_output reg ?g = gives reg ns" "node_has_input reg ?g = takes reg ns"
    by (auto simp: fun_eq_iff node_has_output_def node_has_input_def part_graph_def)
  have k: "feed_keys ?g = feed_keys (part_graph bs ns es)" "dep_edges ?g = dep_edges (part_graph bs ns es)"
    by (simp_all add: feed_keys_def dep_edges_def part_graph_def)
  have "distinct xs \<Longrightarrow> x \<in> set xs \<Longrightarrow> count_list xs x = 1" for x and xs :: "(string \<times> string) list"
    by (induction xs) (auto simp: count_list_0_iff)
  then have "valid_wiring reg ses ?g" "valid_nodes reg ?g"
    using w bound ne unfolding valid_wiring_def valid_nodes_def io k wired_def by auto
  moreover have "valid_outputs reg ?g" using out unfolding valid_outputs_def io by auto
  moreover have "acyclic (set (dep_edges ?g))" unfolding k
  proof (rule edges_forward_acyclic)
    show "edges_forward (dep_edges (part_graph bs ns es)) (map nd_id ns)" "distinct (map nd_id ns)"
      using w unfolding wired_def by blast+
    have "to_node e \<in> nd_id ` set ns" if "e \<in> set es" for e using w that takes_id unfolding wired_def by blast
    then show "\<forall>(f, t) \<in> set (dep_edges (part_graph bs ns es)). t \<in> set (map nd_id ns)"
      by (auto simp: dep_edges_def part_graph_def)
  qed
  ultimately show ?thesis by (simp add: validate_graph_Nil valid_graph_def)
qed

section \<open>The ports of the core modules\<close>

lemma core_offers:
  assumes "default_registry E = Inr reg"
  shows "offers reg ''image.posterize'' [(''image'', raster_png)] [(''image'', raster_png)]"
    and "offers reg ''image.levels'' [(''image'', raster_png)] [(''image'', raster_png)]"
    and "offers reg ''image.downsample'' [(''image'', raster_png)] [(''image'', raster_png)]"
    and "offers reg ''image.colormask'' [(''image'', raster_png)] [(''mask'', raster_png)]"
    and "offers reg ''potrace.trace'' [(''image'', raster_png)] [(''svg'', vector_svg)]"
    and "offers reg ''svg.colorize'' [(''svg'', vector_svg)] [(''svg'', vector_svg)]"
    and "offers reg ''svg.merge'' [(''under'', vector_svg), (''over'', vector_svg)] [(''svg'', vector_svg)]"
proof -
  have reg: "reg = map (\<lambda>md. (m_name (mod_manifest md), md)) (core_modules E)"
    using assms default_registry_eq [of E] by simp
  note defs = core_modules_def Let_def potrace_module_def potrace_manifest_def crop_module_def rotate_module_def
    levels_module_def threshold_module_def invert_module_def downsample_module_def posterize_module_def
    colormask_module_def colormask_manifest_def svg_colorize_module_def svg_colorize_manifest_def
    svg_merge_module_def svg_merge_manifest_def single_image_manifest_def raster_png_def vector_svg_def
  show "offers reg ''image.posterize'' [(''image'', raster_png)] [(''image'', raster_png)]"
    "offers reg ''image.levels'' [(''image'', raster_png)] [(''image'', raster_png)]"
    "offers reg ''image.downsample'' [(''image'', raster_png)] [(''image'', raster_png)]"
    "offers reg ''image.colormask'' [(''image'', raster_png)] [(''mask'', raster_png)]"
    "offers reg ''potrace.trace'' [(''image'', raster_png)] [(''svg'', vector_svg)]"
    "offers reg ''svg.colorize'' [(''svg'', vector_svg)] [(''svg'', vector_svg)]"
    "offers reg ''svg.merge'' [(''under'', vector_svg), (''over'', vector_svg)] [(''svg'', vector_svg)]"
    unfolding reg offers_def registry_get_def by (simp_all add: defs)
qed

end
