(* ===== verification/Bench.thy ===== *)
theory Bench
  imports Wiring
begin

text \<open>
  The graphs that the benchmark clients submit (\<^verbatim>\<open>scripts/bench_parallel.py\<close> and
  \<^verbatim>\<open>scripts/bench_baseline.py\<close>): the colour separation of the design document (posterize, one mask,
  trace and colorize per palette entry, a binary tree of merges) and the chains. Each is accepted
  by the validator over the default registry, and the merge tree of the separation stacks the
  layers in the order of the palette.
\<close>

section \<open>The separation graph\<close>

definition post_node :: node where
  "post_node = \<lparr>nd_id = ''post'', nd_module = ''image.posterize'', nd_params = [(''colors'', JInt 16)]\<rparr>"

definition mask_id :: "int \<Rightarrow> string" where
  "mask_id index = ''mask'' @ show_int index"

definition trace_id :: "int \<Rightarrow> string" where
  "trace_id index = ''trace'' @ show_int index"

definition color_id :: "int \<Rightarrow> string" where
  "color_id index = ''color'' @ show_int index"

definition merge_id :: "nat \<Rightarrow> string" where
  "merge_id merges = ''merge'' @ show_nat merges"

definition color_nodes :: "int \<Rightarrow> int \<Rightarrow> string \<Rightarrow> node list" where
  "color_nodes salt index fill =
     [\<lparr>nd_id = mask_id index, nd_module = ''image.colormask'', nd_params = [(''index'', JInt index)]\<rparr>,
      \<lparr>nd_id = trace_id index, nd_module = ''potrace.trace'',
        nd_params = [(''blacklevel'', JFloat ''0.5''), (''turdsize'', JInt salt)]\<rparr>,
      \<lparr>nd_id = color_id index, nd_module = ''svg.colorize'', nd_params = [(''fill'', JStr fill)]\<rparr>]"

definition color_edges :: "int \<Rightarrow> edge list" where
  "color_edges index =
     [\<lparr>from_node = ''post'', from_port = ''image'', to_node = mask_id index, to_port = ''image''\<rparr>,
      \<lparr>from_node = mask_id index, from_port = ''mask'', to_node = trace_id index, to_port = ''image''\<rparr>,
      \<lparr>from_node = trace_id index, from_port = ''svg'', to_node = color_id index, to_port = ''svg''\<rparr>]"

fun add_colors :: "int \<Rightarrow> (int, string) dict \<Rightarrow> node list \<Rightarrow> edge list \<Rightarrow> node list \<times> edge list" where
  "add_colors salt [] nodes edges = (nodes, edges)"
| "add_colors salt ((index, fill) # palette) nodes edges =
     add_colors salt palette (nodes @ color_nodes salt index fill) (edges @ color_edges index)"

definition merge_node :: "nat \<Rightarrow> node" where
  "merge_node merges = \<lparr>nd_id = merge_id merges, nd_module = ''svg.merge'', nd_params = []\<rparr>"

definition merge_edges :: "nat \<Rightarrow> string \<times> string \<Rightarrow> string \<times> string \<Rightarrow> edge list" where
  "merge_edges merges u v =
     [\<lparr>from_node = fst u, from_port = snd u, to_node = merge_id merges, to_port = ''under''\<rparr>,
      \<lparr>from_node = fst v, from_port = snd v, to_node = merge_id merges, to_port = ''over''\<rparr>]"

text \<open>One pass of the inner loop over the pairs of a layer, with the last one carried over when the
  layer is odd.\<close>

fun merge_pairs ::
  "nat \<Rightarrow> node list \<Rightarrow> edge list \<Rightarrow> (string \<times> string) list \<Rightarrow> (string \<times> string) list \<Rightarrow>
     nat \<times> node list \<times> edge list \<times> (string \<times> string) list" where
  "merge_pairs merges nodes edges nxt (u # v # rest) =
     merge_pairs (Suc merges) (nodes @ [merge_node merges]) (edges @ merge_edges merges u v)
       (nxt @ [(merge_id merges, ''svg'')]) rest"
| "merge_pairs merges nodes edges nxt rest = (merges, nodes, edges, nxt @ rest)"

lemma merge_pairs_length:
  "length (snd (snd (snd (merge_pairs merges nodes edges nxt layer)))) = length nxt + (length layer + 1) div 2"
  by (induction merges nodes edges nxt layer rule: merge_pairs.induct) auto

lemma merge_pairs_shrinks:
  "Suc 0 < length layer \<Longrightarrow> (case merge_pairs merges nodes edges [] layer of (k, ns, es, nxt) \<Rightarrow> length nxt) < length layer"
  using merge_pairs_length [of merges nodes edges "[]" layer] by (simp add: case_prod_beta)

function merge_layers ::
  "nat \<Rightarrow> node list \<Rightarrow> edge list \<Rightarrow> (string \<times> string) list \<Rightarrow> node list \<times> edge list \<times> (string \<times> string) list" where
  "merge_layers merges nodes edges layer =
     (if 1 < length layer
      then (case merge_pairs merges nodes edges [] layer of
          (merges', nodes', edges', nxt) \<Rightarrow> merge_layers merges' nodes' edges' nxt)
      else (nodes, edges, layer))"
  by pat_completeness auto
termination
  by (relation "measure (\<lambda>(merges, nodes, edges, layer). length layer)") (auto simp: merge_pairs_shrinks)

declare merge_layers.simps [simp del]

text \<open>An empty palette has no last layer to give out: \<open>layer[0]\<close> raises.\<close>

definition build_graph :: "string \<Rightarrow> (int, string) dict \<Rightarrow> int \<Rightarrow> json option" where
  "build_graph payload_id palette salt =
     (case add_colors salt palette [post_node] [] of (nodes, edges) \<Rightarrow>
      case merge_layers 0 nodes edges (map (\<lambda>(i, fill). (color_id i, ''svg'')) palette) of (nodes', edges', layer) \<Rightarrow>
      case layer of
        [] \<Rightarrow> None
      | l # ls \<Rightarrow> Some (JObj
          [(''nodes'', JArr (map node_to_json nodes')),
           (''edges'', JArr (map edge_to_json edges')),
           (''bindings'', JArr [JObj [(''payload'', JStr payload_id), (''node'', JStr ''post''), (''port'', JStr ''image'')]]),
           (''outputs'', JArr [JObj [(''node'', JStr (fst l)), (''port'', JStr ''svg'')]])]))"

lemma ids_differ [simp]:
  "mask_id i = mask_id j \<longleftrightarrow> i = j" "trace_id i = trace_id j \<longleftrightarrow> i = j" "color_id i = color_id j \<longleftrightarrow> i = j"
  "mask_id i \<noteq> trace_id j" "trace_id j \<noteq> mask_id i" "mask_id i \<noteq> color_id j" "color_id j \<noteq> mask_id i"
  "trace_id i \<noteq> color_id j" "color_id j \<noteq> trace_id i"
  "''post'' \<noteq> mask_id i" "''post'' \<noteq> trace_id i" "''post'' \<noteq> color_id i"
  "merge_id k \<noteq> ''post''" "merge_id k \<noteq> mask_id i" "merge_id k \<noteq> trace_id i" "merge_id k \<noteq> color_id i"
proof -
  have i: "show_int i = show_int j \<longleftrightarrow> i = j" for i j by (metis read_show_int)
  show "mask_id i = mask_id j \<longleftrightarrow> i = j" "trace_id i = trace_id j \<longleftrightarrow> i = j" "color_id i = color_id j \<longleftrightarrow> i = j"
    by (simp_all add: mask_id_def trace_id_def color_id_def i)
qed (simp_all add: mask_id_def trace_id_def color_id_def merge_id_def)

lemma merge_id_eq [simp]: "merge_id j = merge_id k \<longleftrightarrow> j = k"
proof -
  have "show_int (int j) = show_int (int k) \<longleftrightarrow> j = k" by (metis of_nat_eq_iff read_show_int)
  then show ?thesis by (simp add: merge_id_def show_int_def)
qed

section \<open>The layers of the separation\<close>

lemma wired_color:
  assumes core: "default_registry E = Inr reg" and w: "wired reg bs ns es" and post: "gives reg ns ''post'' ''image'' raster_png"
    and fresh: "mask_id i \<notin> nd_id ` set ns" "trace_id i \<notin> nd_id ` set ns" "color_id i \<notin> nd_id ` set ns"
  shows "wired reg bs (ns @ color_nodes salt i fill) (es @ color_edges i)"
    and "gives reg (ns @ color_nodes salt i fill) (color_id i) ''svg'' vector_svg"
proof -
  note off = core_offers [OF core]
  obtain m t cn where n: "color_nodes salt i fill = [m, t, cn]" "nd_id m = mask_id i" "nd_id t = trace_id i" "nd_id cn = color_id i"
      "nd_module m = ''image.colormask''" "nd_module t = ''potrace.trace''" "nd_module cn = ''svg.colorize''"
    by (simp add: color_nodes_def)
  obtain e f h where c: "color_edges i = [e, f, h]" by (simp add: color_edges_def)
  then have e: "from_node e = ''post''" "from_port e = ''image''" "to_node e = mask_id i"
      "to_port e = ''image''" "from_node f = mask_id i" "from_port f = ''mask''" "to_node f = trace_id i" "to_port f = ''image''"
      "from_node h = trace_id i" "from_port h = ''svg''" "to_node h = color_id i" "to_port h = ''svg''"
    by (auto simp: color_edges_def)
  have 1: "wired reg bs (ns @ [m]) (es @ [e])"
    by (rule wired_extend [OF w, where ins = "[(''image'', raster_png)]" and outs = "[(''mask'', raster_png)]"])
      (use n e fresh off(4) post in simp_all)
  have g1: "gives reg (ns @ [m]) (mask_id i) ''mask'' raster_png"
    using offers_gives [of reg m _ _ "''mask''" raster_png "ns @ [m]"] off(4) n by simp
  have 2: "wired reg bs ((ns @ [m]) @ [t]) ((es @ [e]) @ [f])"
    by (rule wired_extend [OF 1, where ins = "[(''image'', raster_png)]" and outs = "[(''svg'', vector_svg)]"])
      (use n e fresh off(5) g1 in simp_all)
  have g2: "gives reg ((ns @ [m]) @ [t]) (trace_id i) ''svg'' vector_svg"
    using offers_gives [of reg t _ _ "''svg''" vector_svg "(ns @ [m]) @ [t]"] off(5) n by simp
  have 3: "wired reg bs (((ns @ [m]) @ [t]) @ [cn]) (((es @ [e]) @ [f]) @ [h])"
    by (rule wired_extend [OF 2, where ins = "[(''svg'', vector_svg)]" and outs = "[(''svg'', vector_svg)]"])
      (use n e fresh off(6) g2 in simp_all)
  then show "wired reg bs (ns @ color_nodes salt i fill) (es @ color_edges i)" by (simp add: n c)
  show "gives reg (ns @ color_nodes salt i fill) (color_id i) ''svg'' vector_svg"
    using offers_gives [of reg cn _ _ "''svg''" vector_svg "ns @ color_nodes salt i fill"] off(6) n by simp
qed

definition color_ids :: "(int, string) dict \<Rightarrow> string list" where
  "color_ids palette = concat (map (\<lambda>(i, fill). [mask_id i, trace_id i, color_id i]) palette)"

lemma add_colors_wired:
  assumes core: "default_registry E = Inr reg"
  shows "wired reg bs ns es \<Longrightarrow> gives reg ns ''post'' ''image'' raster_png \<Longrightarrow> dict_ok palette \<Longrightarrow>
    nd_id ` set ns \<inter> set (color_ids palette) = {} \<Longrightarrow> add_colors salt palette ns es = (ns', es') \<Longrightarrow>
    wired reg bs ns' es' \<and> map nd_id ns' = map nd_id ns @ color_ids palette \<and>
    (\<forall>nid port ty. gives reg ns nid port ty \<longrightarrow> gives reg ns' nid port ty) \<and>
    (\<forall>(i, fill) \<in> set palette. gives reg ns' (color_id i) ''svg'' vector_svg)"
proof (induction salt palette ns es rule: add_colors.induct)
  case (2 salt i fill palette ns es)
  let ?ns = "ns @ color_nodes salt i fill"
  have fresh: "mask_id i \<notin> nd_id ` set ns" "trace_id i \<notin> nd_id ` set ns" "color_id i \<notin> nd_id ` set ns"
    using "2.prems"(4) by (auto simp: color_ids_def disjoint_iff)
  note w = wired_color [OF core "2.prems"(1,2) fresh, of salt fill]
  have ids: "map nd_id (color_nodes salt i fill) = [mask_id i, trace_id i, color_id i]" by (simp add: color_nodes_def)
  then have "nd_id ` set ?ns = nd_id ` set ns \<union> {mask_id i, trace_id i, color_id i}"
    by (metis image_Un list.set(1,2) list.set_map set_append)
  moreover have "{mask_id i, trace_id i, color_id i} \<inter> set (color_ids palette) = {}"
    using "2.prems"(3) by (auto simp: color_ids_def dict_ok_def rev_image_eqI)
  moreover have "nd_id ` set ns \<inter> set (color_ids palette) = {}" using "2.prems"(4) by (auto simp: color_ids_def)
  ultimately have "nd_id ` set ?ns \<inter> set (color_ids palette) = {}" by auto
  moreover have "gives reg ?ns ''post'' ''image'' raster_png" by (rule gives_append [OF "2.prems"(2)])
  moreover have "dict_ok palette" using "2.prems"(3) by (simp add: dict_ok_def)
  ultimately have r: "wired reg bs ns' es' \<and> map nd_id ns' = map nd_id ?ns @ color_ids palette \<and>
      (\<forall>nid port ty. gives reg ?ns nid port ty \<longrightarrow> gives reg ns' nid port ty) \<and>
      (\<forall>(i, fill) \<in> set palette. gives reg ns' (color_id i) ''svg'' vector_svg)"
    using "2.IH" [OF w(1)] "2.prems"(5) by simp
  moreover have "map nd_id ?ns @ color_ids palette = map nd_id ns @ color_ids ((i, fill) # palette)"
    by (simp add: ids color_ids_def)
  ultimately show ?case using w(2) gives_append [of reg ns] by auto
qed (simp add: color_ids_def)

section \<open>The tree of merges\<close>

datatype layer_tree = Only string | Stacked layer_tree layer_tree

fun tree_ids :: "layer_tree \<Rightarrow> string list" where
  "tree_ids (Only n) = [n]"
| "tree_ids (Stacked l r) = tree_ids l @ tree_ids r"

text \<open>The edges feed the inputs \<open>under\<close> and \<open>over\<close> of every inner node of the tree from its subtrees.\<close>

fun builds :: "edge list \<Rightarrow> string \<Rightarrow> layer_tree \<Rightarrow> bool" where
  "builds es n (Only m) = (n = m)"
| "builds es n (Stacked l r) =
     ((\<exists>e \<in> set es. to_node e = n \<and> to_port e = ''under'' \<and> from_port e = ''svg'' \<and> builds es (from_node e) l) \<and>
      (\<exists>e \<in> set es. to_node e = n \<and> to_port e = ''over'' \<and> from_port e = ''svg'' \<and> builds es (from_node e) r))"

lemma builds_append: "builds es n t \<Longrightarrow> builds (es @ es') n t"
  by (induction t arbitrary: n) (simp, unfold builds.simps set_append, blast)

definition stage ::
  "registry \<Rightarrow> binding list \<Rightarrow> nat \<Rightarrow> node list \<Rightarrow> edge list \<Rightarrow> (string \<times> string) list \<Rightarrow> nat \<Rightarrow> string list \<Rightarrow> bool" where
  "stage reg bs k ns es layer tally ids \<longleftrightarrow>
     wired reg bs ns es \<and> (\<forall>l \<in> set layer. snd l = ''svg'' \<and> gives reg ns (fst l) ''svg'' vector_svg) \<and>
     (\<forall>j \<ge> k. merge_id j \<notin> nd_id ` set ns) \<and> length ns + length layer = tally \<and>
     (\<exists>ts. list_all2 (\<lambda>l t. builds es (fst l) t) layer ts \<and> concat (map tree_ids ts) = ids)"

lemma stage_merge:
  assumes core: "default_registry E = Inr reg" and s: "stage reg bs k ns es (nxt @ u # v # rest) tally ids"
  shows "stage reg bs (Suc k) (ns @ [merge_node k]) (es @ merge_edges k u v) ((nxt @ [(merge_id k, ''svg'')]) @ rest) tally ids"
proof -
  note off = core_offers(7) [OF core]
  have n: "nd_id (merge_node k) = merge_id k" "nd_module (merge_node k) = ''svg.merge''" by (simp_all add: merge_node_def)
  have g: "snd u = ''svg''" "gives reg ns (fst u) ''svg'' vector_svg" "snd v = ''svg''" "gives reg ns (fst v) ''svg'' vector_svg"
    using s by (simp_all add: stage_def)
  have "wired reg bs (ns @ [merge_node k]) (es @ merge_edges k u v)"
  proof (rule wired_extend [where ins = "[(''under'', vector_svg), (''over'', vector_svg)]" and outs = "[(''svg'', vector_svg)]"])
    show "wired reg bs ns es" "nd_id (merge_node k) \<notin> nd_id ` set ns" using s n(1) by (simp_all add: stage_def)
  qed (use off n g in \<open>simp_all add: merge_edges_def\<close>)
  moreover have "gives reg (ns @ [merge_node k]) (merge_id k) ''svg'' vector_svg"
    using offers_gives [of reg "merge_node k" _ _ "''svg''" vector_svg "ns @ [merge_node k]"] off n by simp
  moreover have "\<forall>l \<in> set (nxt @ rest). snd l = ''svg'' \<and> gives reg (ns @ [merge_node k]) (fst l) ''svg'' vector_svg"
    using s gives_append [of reg ns] by (auto simp: stage_def)
  moreover have "\<forall>j \<ge> Suc k. merge_id j \<notin> nd_id ` set (ns @ [merge_node k])"
    using s n(1) by (auto simp: stage_def)
  moreover have "\<exists>ts. list_all2 (\<lambda>l t. builds (es @ merge_edges k u v) (fst l) t) (nxt @ (merge_id k, ''svg'') # rest) ts \<and>
      concat (map tree_ids ts) = ids"
  proof -
    let ?es = "es @ merge_edges k u v"
    obtain ts where ts: "list_all2 (\<lambda>l t. builds es (fst l) t) (nxt @ u # v # rest) ts" "concat (map tree_ids ts) = ids"
      using s by (auto simp: stage_def)
    then obtain as x y bs where b: "ts = as @ x # y # bs" "list_all2 (\<lambda>l t. builds es (fst l) t) nxt as"
        "builds es (fst u) x" "builds es (fst v) y" "list_all2 (\<lambda>l t. builds es (fst l) t) rest bs"
      by (auto simp: list_all2_append1 list_all2_Cons1)
    have mono: "list_all2 (\<lambda>l t. builds ?es (fst l) t) ls us" if "list_all2 (\<lambda>l t. builds es (fst l) t) ls us" for ls us
      using that by (rule list_all2_mono) (rule builds_append)
    have "builds ?es (merge_id k) (Stacked x y)"
      using builds_append [OF b(3)] builds_append [OF b(4)] g(1,3) by (auto simp: merge_edges_def)
    then have "list_all2 (\<lambda>l t. builds ?es (fst l) t) (nxt @ (merge_id k, ''svg'') # rest) (as @ Stacked x y # bs)"
      using mono [OF b(2)] mono [OF b(5)] by (simp add: list_all2_appendI)
    then show ?thesis using ts(2) b(1) by (intro exI conjI) (assumption, simp)
  qed
  ultimately show ?thesis using s by (auto simp: stage_def)
qed

lemma stage_pairs:
  assumes core: "default_registry E = Inr reg"
  shows "stage reg bs k ns es (nxt @ layer) tally ids \<Longrightarrow> merge_pairs k ns es nxt layer = (k', ns', es', layer') \<Longrightarrow>
    stage reg bs k' ns' es' layer' tally ids"
proof (induction k ns es nxt layer rule: merge_pairs.induct)
  case (1 k ns es nxt u v rest)
  show ?case using "1.IH" [OF stage_merge [OF core "1.prems"(1)]] "1.prems"(2) by simp
qed simp_all

lemma stage_layers:
  assumes core: "default_registry E = Inr reg"
  shows "stage reg bs k ns es layer tally ids \<Longrightarrow> layer \<noteq> [] \<Longrightarrow>
    \<exists>k' ns' es' l. merge_layers k ns es layer = (ns', es', [l]) \<and> stage reg bs k' ns' es' [l] tally ids"
proof (induction k ns es layer rule: merge_layers.induct)
  case (1 k ns es layer)
  show ?case
  proof (cases "1 < length layer")
    case True
    obtain k' ns' es' nxt where p: "merge_pairs k ns es [] layer = (k', ns', es', nxt)" by (metis prod_cases4)
    have "nxt \<noteq> []" using merge_pairs_length [of k ns es "[]" layer] p True by auto
    moreover have "stage reg bs k' ns' es' nxt tally ids" using stage_pairs [OF core _ p] "1.prems"(1) by simp
    ultimately show ?thesis
      using "1.IH" [OF True p [symmetric] refl refl] merge_layers.simps [of k ns es layer] p True by simp
  next
    case False
    then obtain l where "layer = [l]" using "1.prems"(2) by (cases layer) auto
    then show ?thesis using "1.prems"(1) merge_layers.simps [of k ns es layer] by auto
  qed
qed

theorem separation_accepted:
  assumes core: "default_registry E = Inr reg" and ne: "palette \<noteq> []" and ok: "dict_ok palette"
    and pl: "get_payload ses payload_id = Some p" "pl_type p = raster_png"
  shows "\<exists>v g n t. build_graph payload_id palette salt = Some v \<and> parse_graph v = Inr g \<and> validate_graph g reg ses = [] \<and>
    g_outputs g = [\<lparr>o_node = n, o_port = ''svg'', o_group = None\<rparr>] \<and> length (g_nodes g) = 4 * length palette \<and>
    builds (g_edges g) n t \<and> tree_ids t = map (\<lambda>(i, fill). color_id i) palette"
proof -
  let ?bs = "[\<lparr>b_payload = payload_id, b_node = ''post'', b_port = ''image''\<rparr>]"
  let ?layer = "map (\<lambda>(i, fill). (color_id i, ''svg'')) palette"
  note off = core_offers(1) [OF core]
  have pn: "nd_id post_node = ''post''" "nd_module post_node = ''image.posterize''" by (simp_all add: post_node_def)
  have w0: "wired reg ?bs [post_node] []" using wired_single [of reg post_node] off pn by metis
  have g0: "gives reg [post_node] ''post'' ''image'' raster_png"
    using offers_gives [of reg post_node _ _ "''image''" raster_png "[post_node]"] off pn by simp
  have "nd_id ` set [post_node] \<inter> set (color_ids palette) = {}" by (auto simp: color_ids_def pn)
  moreover obtain ns es where a: "add_colors salt palette [post_node] [] = (ns, es)" by force
  ultimately have c: "wired reg ?bs ns es" "map nd_id ns = ''post'' # color_ids palette" "gives reg ns ''post'' ''image'' raster_png"
      "\<forall>(i, fill) \<in> set palette. gives reg ns (color_id i) ''svg'' vector_svg"
    using add_colors_wired [OF core w0 g0 ok _ a] g0 by (simp_all add: pn)
  have cl: "length (color_ids palette) = 3 * length palette" by (induction palette) (auto simp: color_ids_def)
  have "length ns = length (map nd_id ns)" by simp
  then have len: "length ns + length ?layer = Suc (4 * length palette)" unfolding c(2) using cl by simp
  have "list_all2 (\<lambda>l t. builds es (fst l) t) ?layer (map (\<lambda>(i, fill). Only (color_id i)) palette)"
    by (simp add: list_all2_conv_all_nth case_prod_beta)
  moreover have "concat (map tree_ids (map (\<lambda>(i, fill). Only (color_id i)) palette)) = map (\<lambda>(i, fill). color_id i) palette"
    by (induction palette) auto
  moreover have "\<forall>j \<ge> 0. merge_id j \<notin> nd_id ` set ns"
  proof -
    have "nd_id ` set ns = set (''post'' # color_ids palette)" using c(2) by (metis list.set_map)
    then show ?thesis by (auto simp: color_ids_def)
  qed
  ultimately have "stage reg ?bs 0 ns es ?layer (Suc (4 * length palette)) (map (\<lambda>(i, fill). color_id i) palette)"
    using c(1,4) len unfolding stage_def by (intro conjI exI) auto
  moreover have "?layer \<noteq> []" using ne by simp
  ultimately obtain k' ns' es' l where m: "merge_layers 0 ns es ?layer = (ns', es', [l])"
      "stage reg ?bs k' ns' es' [l] (Suc (4 * length palette)) (map (\<lambda>(i, fill). color_id i) palette)"
    using stage_layers [OF core] by blast
  let ?g = "\<lparr>g_nodes = ns', g_edges = es', g_bindings = ?bs, g_outputs = [\<lparr>o_node = fst l, o_port = ''svg'', o_group = None\<rparr>], g_groups = []\<rparr>"
  obtain v where v: "build_graph payload_id palette salt = Some v" "parse_graph v = Inr ?g"
    by (simp add: build_graph_def a m(1) parse_graph_def parse_list_def array_field_def enumerate_map_inverse
        parse_items_to_json) (simp add: parse_item_defs)
  have st: "wired reg ?bs ns' es'" "snd l = ''svg''" "gives reg ns' (fst l) ''svg'' vector_svg" "length ns' = 4 * length palette"
    using m(2) by (simp_all add: stage_def)
  obtain t where t: "builds es' (fst l) t" "tree_ids t = map (\<lambda>(i, fill). color_id i) palette"
    using m(2) by (auto simp: stage_def list_all2_Cons1)
  have "ns' \<noteq> []" using st(4) ne by auto
  then have "validate_graph ?g reg ses = []" using st(1,3) pl by (intro wired_valid) auto
  with v t st(4) show ?thesis by (intro exI conjI) auto
qed


section \<open>The graphs of the baseline\<close>

definition lv_id :: "int \<Rightarrow> string" where
  "lv_id i = ''lv'' @ show_int i"

definition chain_node :: "int \<Rightarrow> nat \<Rightarrow> node" where
  "chain_node salt i = \<lparr>nd_id = lv_id (int i), nd_module = ''image.levels'',
     nd_params = [(''black'', JInt (salt + int i)), (''white'', JInt 255)]\<rparr>"

definition chain_edge :: "nat \<Rightarrow> edge" where
  "chain_edge i = \<lparr>from_node = lv_id (int i), from_port = ''image'', to_node = lv_id (int i + 1), to_port = ''image''\<rparr>"

definition chain_graph :: "string \<Rightarrow> nat \<Rightarrow> int \<Rightarrow> json" where
  "chain_graph payload_id n salt = JObj
     [(''nodes'', JArr (map node_to_json (map (chain_node salt) [0..<n]))),
      (''edges'', JArr (map edge_to_json (map chain_edge [0..<n - 1]))),
      (''bindings'', JArr [JObj [(''payload'', JStr payload_id), (''node'', JStr ''lv0''), (''port'', JStr ''image'')]]),
      (''outputs'', JArr [JObj [(''node'', JStr (lv_id (int n - 1))), (''port'', JStr ''image'')]])]"

definition trace_graph :: "string \<Rightarrow> string \<Rightarrow> json" where
  "trace_graph payload_id node_id = JObj
     [(''nodes'', JArr [JObj [(''id'', JStr node_id), (''module'', JStr ''potrace.trace''),
        (''params'', JObj [(''blacklevel'', JFloat ''0.5'')])]]),
      (''bindings'', JArr [JObj [(''payload'', JStr payload_id), (''node'', JStr node_id), (''port'', JStr ''image'')]]),
      (''outputs'', JArr [JObj [(''node'', JStr node_id), (''port'', JStr ''svg'')]])]"

definition downsample_node :: node where
  "downsample_node = \<lparr>nd_id = ''ds'', nd_module = ''image.downsample'', nd_params = [(''max_dimension'', JInt 512)]\<rparr>"

definition salted_trace :: "int \<Rightarrow> node" where
  "salted_trace salt = \<lparr>nd_id = ''t'', nd_module = ''potrace.trace'',
     nd_params = [(''blacklevel'', JFloat ''0.5''), (''turdsize'', JInt salt)]\<rparr>"

definition draft_edge :: edge where
  "draft_edge = \<lparr>from_node = ''ds'', from_port = ''image'', to_node = ''t'', to_port = ''image''\<rparr>"

definition draft_chain :: "string \<Rightarrow> int \<Rightarrow> json" where
  "draft_chain payload_id salt = JObj
     [(''nodes'', JArr [node_to_json downsample_node, node_to_json (salted_trace salt)]),
      (''edges'', JArr [edge_to_json draft_edge]),
      (''bindings'', JArr [JObj [(''payload'', JStr payload_id), (''node'', JStr ''ds''), (''port'', JStr ''image'')]]),
      (''outputs'', JArr [JObj [(''node'', JStr ''t''), (''port'', JStr ''svg'')]])]"

lemma lv_id_eq [simp]: "lv_id i = lv_id j \<longleftrightarrow> i = j"
  by (simp add: lv_id_def) (metis read_show_int)

lemma chain_wired:
  assumes core: "default_registry E = Inr reg"
  shows "wired reg [\<lparr>b_payload = payload_id, b_node = lv_id 0, b_port = ''image''\<rparr>]
      (map (chain_node salt) [0..<Suc n]) (map chain_edge [0..<n])"
proof (induction n)
  case 0
  have "nd_id (chain_node salt 0) = lv_id 0" "nd_module (chain_node salt 0) = ''image.levels''" by (simp_all add: chain_node_def)
  then show ?case using wired_single [of reg "chain_node salt 0"] core_offers(2) [OF core] by (simp add: upt_conv_Cons)
next
  case (Suc n)
  let ?ns = "map (chain_node salt) [0..<Suc n]" and ?n = "chain_node salt (Suc n)"
  have f: "nd_id ?n = lv_id (int n + 1)" "nd_module ?n = ''image.levels''" "nd_id (chain_node salt n) = lv_id (int n)"
      "nd_module (chain_node salt n) = ''image.levels''"
    by (simp_all add: chain_node_def add.commute)
  have "gives reg ?ns (nd_id (chain_node salt n)) ''image'' raster_png"
    by (rule offers_gives) (use core_offers(2) [OF core] f(4) in auto)
  then have g: "gives reg ?ns (lv_id (int n)) ''image'' raster_png" by (simp only: f(3))
  have "wired reg [\<lparr>b_payload = payload_id, b_node = lv_id 0, b_port = ''image''\<rparr>] (?ns @ [?n]) (map chain_edge [0..<n] @ [chain_edge n])"
  proof (rule wired_extend [OF Suc.IH, where ins = "[(''image'', raster_png)]" and outs = "[(''image'', raster_png)]"])
    show "nd_id ?n \<notin> nd_id ` set ?ns" unfolding f(1) by (auto simp: chain_node_def)
    show "list_all2 (\<lambda>(port, ty) e. to_node e = nd_id ?n \<and> to_port e = port \<and> gives reg ?ns (from_node e) (from_port e) ty)
        [(''image'', raster_png)] [chain_edge n]"
      using g by (simp add: chain_edge_def f(1) del: upt_Suc)
  qed (use core_offers(2) [OF core] f(2) in simp_all)
  then show ?case by simp
qed

lemmas parse_fields = parse_graph_def parse_list_def array_field_def enumerate_map_inverse parse_items_to_json

theorem chain_accepted:
  assumes core: "default_registry E = Inr reg" and pl: "get_payload ses payload_id = Some p" "pl_type p = raster_png"
  shows "\<exists>g. parse_graph (chain_graph payload_id (Suc n) salt) = Inr g \<and> validate_graph g reg ses = []"
proof -
  note off = core_offers [OF core]
  let ?bs = "[\<lparr>b_payload = payload_id, b_node = lv_id 0, b_port = ''image''\<rparr>]"
  let ?ns = "map (chain_node salt) [0..<Suc n]" and ?es = "map chain_edge [0..<n]"
  have "nd_id (chain_node salt n) = lv_id (int n)" by (simp add: chain_node_def)
  moreover have "gives reg ?ns (nd_id (chain_node salt n)) ''image'' raster_png"
    by (rule offers_gives) (use off(2) in \<open>auto simp: chain_node_def\<close>)
  ultimately have "gives reg ?ns (lv_id (int n)) ''image'' raster_png" by metis
  then have "validate_graph \<lparr>g_nodes = ?ns, g_edges = ?es, g_bindings = ?bs,
      g_outputs = [\<lparr>o_node = lv_id (int n), o_port = ''image'', o_group = None\<rparr>], g_groups = []\<rparr> reg ses = []"
    using pl by (intro wired_valid [OF chain_wired [OF core]]) auto
  moreover have "parse_graph (chain_graph payload_id (Suc n) salt) = Inr \<lparr>g_nodes = ?ns, g_edges = ?es, g_bindings = ?bs,
      g_outputs = [\<lparr>o_node = lv_id (int n), o_port = ''image'', o_group = None\<rparr>], g_groups = []\<rparr>"
    by (simp add: chain_graph_def parse_fields del: upt_Suc map_map) (simp add: parse_item_defs lv_id_def show_int_def)
  ultimately show ?thesis by blast
qed

theorem trace_accepted:
  assumes core: "default_registry E = Inr reg" and pl: "get_payload ses payload_id = Some p" "pl_type p = raster_png"
  shows "\<exists>g. parse_graph (trace_graph payload_id node_id) = Inr g \<and> validate_graph g reg ses = []"
proof -
  note off = core_offers [OF core]
  let ?n = "\<lparr>nd_id = node_id, nd_module = ''potrace.trace'', nd_params = [(''blacklevel'', JFloat ''0.5'')]\<rparr>"
  have "gives reg [?n] (nd_id ?n) ''svg'' vector_svg" by (rule offers_gives) (use off(5) in auto)
  then have "validate_graph \<lparr>g_nodes = [?n], g_edges = [], g_bindings = [\<lparr>b_payload = payload_id, b_node = node_id, b_port = ''image''\<rparr>],
      g_outputs = [\<lparr>o_node = node_id, o_port = ''svg'', o_group = None\<rparr>], g_groups = []\<rparr> reg ses = []"
    using pl wired_single [of reg ?n "''image''" _ payload_id] off(5) by (intro wired_valid) auto
  then show ?thesis by (simp add: trace_graph_def parse_fields) (simp add: parse_item_defs)
qed

theorem draft_accepted:
  assumes core: "default_registry E = Inr reg" and pl: "get_payload ses payload_id = Some p" "pl_type p = raster_png"
  shows "\<exists>g. parse_graph (draft_chain payload_id salt) = Inr g \<and> validate_graph g reg ses = []"
proof -
  note off = core_offers [OF core]
  let ?bs = "[\<lparr>b_payload = payload_id, b_node = ''ds'', b_port = ''image''\<rparr>]"
  let ?ns = "[downsample_node] @ [salted_trace salt]"
  have f: "nd_id downsample_node = ''ds''" "nd_module downsample_node = ''image.downsample''" "nd_id (salted_trace salt) = ''t''"
      "nd_module (salted_trace salt) = ''potrace.trace''"
    by (simp_all add: downsample_node_def salted_trace_def)
  have 1: "wired reg ?bs [downsample_node] []"
    using wired_single [of reg downsample_node "''image''" _ payload_id] off(3) f by simp
  have "gives reg [downsample_node] (nd_id downsample_node) ''image'' raster_png"
    by (rule offers_gives) (use off(3) f in auto)
  then have 2: "wired reg ?bs ?ns ([] @ [draft_edge])"
    by (intro wired_extend [OF 1, where ins = "[(''image'', raster_png)]" and outs = "[(''svg'', vector_svg)]"])
      (use off(5) f in \<open>simp_all add: draft_edge_def\<close>)
  have "gives reg ?ns (nd_id (salted_trace salt)) ''svg'' vector_svg" by (rule offers_gives) (use off(5) f in auto)
  then have "validate_graph \<lparr>g_nodes = ?ns, g_edges = [] @ [draft_edge], g_bindings = ?bs,
      g_outputs = [\<lparr>o_node = ''t'', o_port = ''svg'', o_group = None\<rparr>], g_groups = []\<rparr> reg ses = []"
    using pl f by (intro wired_valid [OF 2]) auto
  then show ?thesis by (simp add: draft_chain_def parse_fields) (simp add: parse_item_defs)
qed

end
