(* ===== verification/ParamOrder.thy ===== *)
theory ParamOrder
  imports CoreModules
begin

text \<open>
  The core modules and the cache: what a successful run returns depends on the canonical form of
  the params (the one the recipe key hashes), not on the order of their keys, so executions over
  the default registry may share a cache as soon as their hashed texts do not collide.
\<close>

section \<open>Params with the same canonical form\<close>

definition same_params :: "params \<Rightarrow> params \<Rightarrow> bool" where
  "same_params ps qs \<longleftrightarrow> jsort (JObj ps) = jsort (JObj qs)"

lemma map_of_filter: "map_of kvs k = (case filter (\<lambda>x. fst x = k) kvs of [] \<Rightarrow> None | x # xs \<Rightarrow> Some (snd x))"
  by (induction kvs) auto

lemma map_of_sort_key: "map_of (sort_key fst kvs) k = map_of kvs k" for kvs :: "(string \<times> json) list"
  unfolding map_of_filter sort_key_stable ..

lemma same_params_get:
  assumes "same_params ps qs" shows "map_option jsort (dict_get ps k) = map_option jsort (dict_get qs k)"
proof -
  have m: "map_of (map (\<lambda>(k, v). (k, jsort v)) kvs) k = map_option jsort (map_of kvs k)" for kvs
    by (induction kvs) auto
  have "sort_key fst (map (\<lambda>(k, v). (k, jsort v)) ps) = sort_key fst (map (\<lambda>(k, v). (k, jsort v)) qs)"
    using assms by (simp add: same_params_def)
  then show ?thesis using map_of_sort_key m by metis
qed

definition atomic :: "json \<Rightarrow> bool" where
  "atomic v \<longleftrightarrow> (case v of JArr xs \<Rightarrow> False | JObj kvs \<Rightarrow> False | _ \<Rightarrow> True)"

lemma jsort_atomic: "atomic v \<Longrightarrow> jsort v = jsort w \<Longrightarrow> w = v"
  by (cases v; cases w) (simp_all add: atomic_def)

lemma jsort_strings: "jsort (JArr (map JStr ss)) = jsort w \<Longrightarrow> w = JArr (map JStr ss)"
proof (cases w)
  case (JArr ws)
  have "w' = JStr s" if "jsort w' = JStr s" for w' s using that by (cases w') simp_all
  then have "map jsort ws = map JStr ss \<Longrightarrow> ws = map JStr ss"
    by (induction ss arbitrary: ws) (auto simp: Cons_eq_map_conv)
  moreover assume "jsort (JArr (map JStr ss)) = jsort w"
  ultimately show ?thesis using JArr by (simp add: comp_def)
qed simp_all

lemma same_params_None: "same_params ps qs \<Longrightarrow> dict_get ps k = None \<longleftrightarrow> dict_get qs k = None"
  using same_params_get [of ps qs k] by (cases "dict_get ps k"; cases "dict_get qs k") simp_all

lemma same_params_atomic:
  "same_params ps qs \<Longrightarrow> dict_get ps k = Some v \<Longrightarrow> atomic v \<Longrightarrow> dict_get qs k = Some v"
  using same_params_get [of ps qs k] jsort_atomic [of v] by (cases "dict_get qs k") auto

lemma py_int_atomic: "py_int F v = Inr i \<Longrightarrow> atomic v"
  by (cases v) (simp_all add: py_int_def atomic_def)

lemma py_float_atomic: "py_float F v = Inr x \<Longrightarrow> atomic v"
  by (cases v) (simp_all add: py_float_def atomic_def)

lemma conv_raise_Inr [simp]: "conv_raise e r = Inr x \<longleftrightarrow> r = Inr x"
  by (simp add: conv_raise_def split: sum.splits conv_error.splits)

text \<open>A computation that repeats what a successful one returned, through the monad's operations.\<close>

definition follows :: "'e + 'a \<Rightarrow> 'e + 'a \<Rightarrow> bool" where
  "follows r s \<longleftrightarrow> (\<forall>x. r = Inr x \<longrightarrow> s = Inr x)"

named_theorems follow \<open>rules for computations that repeat a successful one\<close>

lemma follows_refl [follow]: "follows r r"
  by (simp add: follows_def)

lemma follows_ebind [follow]:
  "follows m m' \<Longrightarrow> (\<And>x. follows (f x) (f' x)) \<Longrightarrow> follows (ebind m f) (ebind m' f')"
  unfolding follows_def ebind_Inr by blast

lemma follows_if [follow]: "follows r r' \<Longrightarrow> follows s s' \<Longrightarrow> follows (if c then r else s) (if c then r' else s')"
  by simp

lemma follows_int [follow]: "same_params ps qs \<Longrightarrow> follows (int_param F ps name d) (int_param F qs name d)"
proof (cases "dict_get ps name")
  case (Some v)
  assume s: "same_params ps qs"
  then have "atomic v \<Longrightarrow> dict_get qs name = Some v" using same_params_atomic Some by blast
  then show ?thesis using Some py_int_atomic [of F v] by (auto simp: follows_def int_param_def)
next
  case None
  assume "same_params ps qs"
  then have "dict_get qs name = None" using same_params_None [of ps qs name] None by simp
  then show ?thesis using None by (simp add: follows_def int_param_def)
qed

lemma follows_float [follow]: "same_params ps qs \<Longrightarrow> follows (float_param F ps name d) (float_param F qs name d)"
proof (cases "dict_get ps name")
  case (Some v)
  assume s: "same_params ps qs"
  then have "atomic v \<Longrightarrow> dict_get qs name = Some v" using same_params_atomic Some by blast
  then show ?thesis using Some py_float_atomic [of F v] by (auto simp: follows_def float_param_def)
next
  case None
  assume "same_params ps qs"
  then have "dict_get qs name = None" using same_params_None [of ps qs name] None by simp
  then show ?thesis using None by (simp add: follows_def float_param_def)
qed

section \<open>Runs that do not see the order\<close>

definition order_free :: "run \<Rightarrow> bool" where
  "order_free f \<longleftrightarrow> (\<forall>ins ps qs draft. same_params ps qs \<longrightarrow> follows (f ins ps draft) (f ins qs draft))"

text \<open>\<open>str\<close> of a list or of a dict begins with a bracket, so that it is no colour.\<close>

definition plain_str :: "flt \<Rightarrow> bool" where
  "plain_str F \<longleftrightarrow> (\<forall>v. \<not> atomic v \<longrightarrow> \<not> fill_ok (fl_str F v))"

lemma order_free_crop: "order_free (crop_run P F)"
  unfolding order_free_def crop_run_def case_prod_beta by (intro allI impI follow)

lemma order_free_rotate: "order_free (rotate_run P F)"
  unfolding order_free_def rotate_run_def by (intro allI impI follow)

lemma order_free_levels: "order_free (levels_run P F)"
  unfolding order_free_def levels_run_def by (intro allI impI follow)

lemma order_free_threshold: "order_free (threshold_run P F)"
  unfolding order_free_def threshold_run_def by (intro allI impI follow)

lemma order_free_invert: "order_free (invert_run P)"
  unfolding order_free_def invert_run_def by (intro allI impI follow)

lemma order_free_downsample: "order_free (downsample_run P F)"
  unfolding order_free_def downsample_run_def Let_def by (intro allI impI follow)

lemma order_freeI:
  "(\<And>ins ps qs draft rs. same_params ps qs \<Longrightarrow> f ins ps draft = Inr rs \<Longrightarrow> f ins qs draft = Inr rs) \<Longrightarrow> order_free f"
  unfolding order_free_def follows_def by blast

lemma order_free_colorize: assumes "plain_str F" shows "order_free (svg_colorize_run X F)"
proof (rule order_freeI)
  fix ins ps qs draft rs
  assume s: "same_params ps qs" and r: "svg_colorize_run X F ins ps draft = Inr rs"
  have "dict_get qs ''fill'' = dict_get ps ''fill''"
  proof (cases "dict_get ps ''fill''")
    case (Some v)
    have "atomic v"
      using r assms Some by (cases v) (auto simp: svg_colorize_run_def Let_def plain_str_def atomic_def split: if_splits)
    then show ?thesis using same_params_atomic [OF s Some] Some by simp
  qed (use same_params_None [OF s, of "''fill''"] in simp)
  then show "svg_colorize_run X F ins qs draft = Inr rs" using r by (simp add: svg_colorize_run_def)
qed

lemma order_free_merge: "order_free (svg_merge_run X)"
  unfolding order_free_def svg_merge_run_def by (intro allI impI follow)

lemma grow_mask_atomic: "grow_mask P F v img = Inr rs \<Longrightarrow> atomic v"
  by (cases v) (simp_all add: grow_mask_def Let_def atomic_def)

lemma order_free_colormask: "order_free (colormask_run P F)"
proof (rule order_freeI)
  fix ins ps qs draft rs
  assume s: "same_params ps qs" and r: "colormask_run P F ins ps draft = Inr rs"
  have "dict_get qs ''grow'' = dict_get ps ''grow''"
  proof (cases "dict_get ps ''grow''")
    case (Some v)
    have "atomic v" using r Some by (auto simp: colormask_run_def ebind_Inr split: if_splits dest!: grow_mask_atomic)
    then show ?thesis using same_params_atomic [OF s Some] Some by simp
  qed (use same_params_None [OF s, of "''grow''"] in simp)
  then have "follows (colormask_run P F ins ps draft) (colormask_run P F ins qs draft)"
    unfolding colormask_run_def by (simp only:) (intro follow s)
  then show "colormask_run P F ins qs draft = Inr rs" using r by (simp add: follows_def)
qed

lemma order_free_posterize: "order_free (posterize_run P F lab)"
proof (rule order_freeI)
  fix ins ps qs draft rs
  assume s: "same_params ps qs" and r: "posterize_run P F lab ins ps draft = Inr rs"
  have "dict_get qs ''palette'' = dict_get ps ''palette''"
  proof (cases "dict_get ps ''palette''")
    case (Some v)
    then obtain pal where "validate_palette F v = Inr pal"
      using r by (auto simp: posterize_run_def ebind_Inr split: if_splits)
    then obtain ss where "v = JArr (map JStr ss)" unfolding validate_palette_iff by blast
    then show ?thesis using same_params_get [OF s, of "''palette''"] Some jsort_strings [of ss] by (cases "dict_get qs ''palette''") auto
  qed (use same_params_None [OF s, of "''palette''"] in simp)
  moreover have "dict_get qs ''colors'' = None \<longleftrightarrow> dict_get ps ''colors'' = None" using same_params_None [OF s] by blast
  ultimately have "follows (posterize_run P F lab ins ps draft) (posterize_run P F lab ins qs draft)"
    unfolding posterize_run_def by (cases "dict_get ps ''palette''") (simp_all only: option.case, (intro follow s)+)
  then show "posterize_run P F lab ins qs draft = Inr rs" using r by (simp add: follows_def)
qed

lemma potrace_param_same:
  assumes "same_params ps qs" and "atomic (potrace_param ps name d)" and "atomic d"
  shows "potrace_param qs name d = potrace_param ps name d"
  using same_params_None [OF assms(1), of name] same_params_atomic [OF assms(1), of name] assms(2)
  by (auto simp: potrace_param_def split: option.splits)

lemma order_free_potrace: "order_free (potrace_run V P F xt)"
proof (rule order_freeI)
  fix ins ps qs draft rs
  assume s: "same_params ps qs" and r: "potrace_run V P F xt ins ps draft = Inr rs"
  let ?bl = "\<lambda>ps. potrace_param ps ''blacklevel'' (JFloat ''0.5'')" and ?ts = "\<lambda>ps. potrace_param ps ''turdsize'' (JInt 2)"
  have d: "atomic (JFloat ''0.5'')" "atomic (JInt 2)" by (simp_all add: atomic_def)
  have "atomic (?ts ps)" using r by (auto simp: potrace_run_def ebind_Inr Let_def split: option.splits dest!: py_int_atomic)
  then have t: "?ts qs = ?ts ps" by (rule potrace_param_same [OF s _ d(2)])
  have "dict_get ps ''blacklevel'' \<noteq> None \<Longrightarrow> atomic (?bl ps)"
    using r by (auto simp: potrace_run_def ebind_Inr Let_def split: option.splits dest!: py_float_atomic)
  then have "atomic (?bl ps)" using d(1) by (cases "dict_get ps ''blacklevel''") (simp_all add: potrace_param_def)
  then have b: "?bl qs = ?bl ps" by (rule potrace_param_same [OF s _ d(1)])
  have "potrace_run V P F xt ins qs draft = potrace_run V P F xt ins ps draft"
    unfolding potrace_run_def t b same_params_None [OF s, symmetric] ..
  then show "potrace_run V P F xt ins qs draft = Inr rs" using r by simp
qed

lemma core_modules_order_free:
  assumes "plain_str (ce_flt C)" and "md \<in> set (core_modules C)"
  shows "order_free (mod_run md)" and "length (m_outputs (mod_manifest md)) = 1"
proof -
  have runs: "\<forall>md \<in> set (core_modules C). order_free (mod_run md)"
    by (simp add: core_modules_def Let_def potrace_module_def crop_module_def rotate_module_def levels_module_def
        threshold_module_def invert_module_def downsample_module_def posterize_module_def colormask_module_def
        svg_colorize_module_def svg_merge_module_def order_free_crop order_free_rotate order_free_levels order_free_threshold
        order_free_invert order_free_downsample order_free_colorize [OF assms(1)] order_free_merge order_free_colormask
        order_free_posterize order_free_potrace)
  have outs: "\<forall>md \<in> set (core_modules C). length (m_outputs (mod_manifest md)) = 1"
    by (simp add: core_modules_def Let_def potrace_module_def crop_module_def rotate_module_def levels_module_def
        threshold_module_def invert_module_def downsample_module_def posterize_module_def colormask_module_def
        svg_colorize_module_def svg_merge_module_def single_image_manifest_def colormask_manifest_def
        svg_colorize_manifest_def svg_merge_manifest_def potrace_manifest_def)
  from runs outs assms(2) show "order_free (mod_run md)" "length (m_outputs (mod_manifest md)) = 1" by blast+
qed

section \<open>Executions over the default registry share their cache\<close>

lemma core_uses:
  assumes reg: "default_registry C = Inr reg" and envs: "\<forall>env \<in> Es. e_reg env = reg" and u: "uses Es nd md"
  shows "md \<in> set (core_modules C)" and "m_name (mod_manifest md) = nd_module nd"
    and "dict_get reg (nd_module nd) = Some md" and "\<exists>env \<in> Es. nd \<in> set (g_nodes (e_graph env))"
proof -
  obtain env n where n: "env \<in> Es" "node_lookup env n = Inr (nd, md)" using u by (auto simp: uses_def)
  then have l: "dict_get (nodes_by_id (e_graph env)) n = Some nd" "dict_get reg (nd_module nd) = Some md"
    using envs by (auto simp: node_lookup_def registry_get_def split: option.splits)
  show "dict_get reg (nd_module nd) = Some md" by (rule l(2))
  have "(nd_module nd, md) \<in> set reg" by (rule map_of_SomeD [OF l(2)])
  then show "md \<in> set (core_modules C)" "m_name (mod_manifest md) = nd_module nd"
    using reg unfolding default_registry_eq by auto
  show "\<exists>env \<in> Es. nd \<in> set (g_nodes (e_graph env))"
    using n(1) l(1) unfolding nodes_by_id_def by (auto dest: dict_of_get_in)
qed

theorem core_executions_compatible:
  assumes reg: "default_registry C = Inr reg" and str: "plain_str (ce_flt C)"
    and envs: "\<forall>env \<in> Es. e_reg env = reg \<and> plain_params fc (e_graph env)" and cf: "collision_free Es"
  shows "compatible fc Es"
proof -
  have e: "\<forall>env \<in> Es. e_reg env = reg" using envs by blast
  note uses = core_uses [OF reg e]
  have "wf_json fc (JObj (nd_params nd))" if "uses Es nd md" for nd md
    using uses(4) [OF that] envs by (auto simp: plain_params_def)
  moreover have "q = q'" if "uses Es nd md" "reads_port Es md q" "reads_port Es md q'" for nd md q q'
    using reads_single [OF core_modules_order_free(2) [OF str uses(1) [OF that(1)]] that(2,3)] .
  moreover have "mod_run md i ps' d = Inr r"
    if "uses Es nd md" "jsort (JObj ps) = jsort (JObj ps')" "mod_run md i ps d = Inr r" for nd md i ps ps' d r
    using core_modules_order_free(1) [OF str uses(1) [OF that(1)]] that(2,3)
    unfolding order_free_def same_params_def follows_def by blast
  moreover have "md = md'" if "uses Es nd md" "uses Es nd' md'" "m_name (mod_manifest md) = m_name (mod_manifest md')" for nd md nd' md'
    using uses(2,3) [OF that(1)] uses(2,3) [OF that(2)] that(3) by simp
  ultimately show ?thesis using cf unfolding compatible_def well_behaved_def by blast
qed

end
