(* ===== verification/Separation.thy ===== *)
theory Separation
  imports Bench ExecRun ParamOrder
begin

text \<open>
  What the separation graph computes: the sequential evaluation of the graph that the parallel
  benchmark submits returns one document, the stack of the coloured layers in the order of the
  palette. The layers are given by the runs of the core modules alone.
\<close>

section \<open>One layer\<close>

definition read_port :: "string \<Rightarrow> py_exn + results \<Rightarrow> py_exn + bytes" where
  "read_port p r = ebind r (\<lambda>rs. case dict_get rs p of None \<Rightarrow> Inl (PyError ''KeyError'') | Some x \<Rightarrow> Inr (r_data x))"

definition poster :: "'img core_env \<Rightarrow> bool \<Rightarrow> bytes \<Rightarrow> py_exn + bytes" where
  "poster C draft data = read_port ''image''
     (posterize_run (ce_pil C) (ce_flt C) (ce_lab C) [(''image'', data)] [(''colors'', JInt 16)] draft)"

text \<open>The mask of one index of the posterized image, its trace, and the trace in its colour.\<close>

definition layer_svg :: "'img core_env \<Rightarrow> int \<Rightarrow> bool \<Rightarrow> bytes \<Rightarrow> int \<times> string \<Rightarrow> py_exn + bytes" where
  "layer_svg C salt draft post colour = (case colour of (index, fill) \<Rightarrow>
     ebind (read_port ''mask'' (colormask_run (ce_pil C) (ce_flt C) [(''image'', post)] [(''index'', JInt index)] draft)) (\<lambda>mask.
     ebind (read_port ''svg'' (potrace_run (ce_potrace C) (ce_pil C) (ce_flt C) (ce_text C) [(''image'', mask)]
       [(''blacklevel'', JFloat ''0.5''), (''turdsize'', JInt salt)] draft)) (\<lambda>svg.
     read_port ''svg'' (svg_colorize_run (ce_svg C) (ce_flt C) [(''svg'', svg)] [(''fill'', JStr fill)] draft))))"

section \<open>The value of a node\<close>

definition core_run :: "'img core_env \<Rightarrow> exec_env \<Rightarrow> bool" where
  "core_run C env \<longleftrightarrow> default_registry C = Inr (e_reg env) \<and> env_ok env"

lemma distinct_counts: "(\<And>x. count_list xs x \<le> 1) \<Longrightarrow> distinct xs"
proof (induction xs)
  case (Cons a xs)
  have "count_list xs a = 0" using Cons.prems [of a] by simp
  moreover have "count_list xs x \<le> 1" for x using Cons.prems [of x] by (simp split: if_splits)
  ultimately show ?case using Cons.IH by (simp add: count_list_0_iff)
qed simp

lemma env_ok_feeds:
  assumes "env_ok env" shows "distinct (feed_keys (e_graph env))"
proof (rule distinct_counts)
  fix x
  let ?g = "e_graph env" and ?reg = "e_reg env"
  have wiring: "valid_wiring ?reg (e_ses env) ?g" using assms by (simp add: env_ok_def valid_graph_def)
  have once: "count_list (feed_keys ?g) (n, p) = 1" if inp: "node_has_input ?reg ?g n p ty" for n p ty
  proof -
    obtain nd md q where nd: "nd \<in> set (g_nodes ?g)" "nd_id nd = n" "registry_get ?reg (nd_module nd) = Some md"
        "q \<in> set (m_inputs (mod_manifest md))" "port_name q = p"
      using inp unfolding node_has_input_def input_port_def find_Some_iff by (metis nth_mem)
    then show ?thesis using wiring unfolding valid_wiring_def by blast
  qed
  have "count_list (feed_keys ?g) x = 1" if xin: "x \<in> set (feed_keys ?g)"
  proof -
    consider e where "e \<in> set (g_edges ?g)" "x = (to_node e, to_port e)" | b where "b \<in> set (g_bindings ?g)" "x = (b_node b, b_port b)"
      using xin by (auto simp: feed_keys_def)
    then obtain n p ty where "x = (n, p)" "node_has_input ?reg ?g n p ty"
    proof cases
      case (1 e)
      have "\<exists>ty. node_has_input ?reg ?g (to_node e) (to_port e) ty" using wiring 1(1) unfolding valid_wiring_def by blast
      then show ?thesis using that 1(2) by blast
    next
      case (2 b)
      have "\<exists>ty. node_has_input ?reg ?g (b_node b) (b_port b) ty" using wiring 2(1) unfolding valid_wiring_def by blast
      then show ?thesis using that 2(2) by blast
    qed
    then show ?thesis using once by simp
  qed
  then show "count_list (feed_keys ?g) x \<le> 1" by (cases "x \<in> set (feed_keys ?g)") simp_all
qed

definition has_data :: "exec_env \<Rightarrow> string \<Rightarrow> string \<Rightarrow> string \<Rightarrow> bytes \<Rightarrow> bool" where
  "has_data env n p t d \<longleftrightarrow> (\<exists>k res. val env n k res \<and> dict_get res p = Some \<lparr>r_type = t, r_data = d\<rparr>)"

definition input_is :: "exec_env \<Rightarrow> string \<Rightarrow> string \<Rightarrow> bytes \<Rightarrow> bool" where
  "input_is env n port d \<longleftrightarrow>
     (\<exists>e \<in> set (g_edges (e_graph env)). to_node e = n \<and> to_port e = port \<and> (\<exists>t. has_data env (from_node e) (from_port e) t d)) \<or>
     (\<exists>b \<in> set (g_bindings (e_graph env)). b_node b = n \<and> b_port b = port \<and>
        (\<exists>pl. get_payload (e_ses env) (b_payload b) = Some pl \<and> pl_data pl = d))"

lemma input_fed:
  assumes "distinct (feed_keys (e_graph env))" and "input_is env n (port_name p) d"
  shows "\<exists>kd. fed_with env n p kd \<and> snd kd = d"
proof -
  let ?g = "e_graph env" and ?ek = "\<lambda>e. (to_node e, to_port e)" and ?bk = "\<lambda>b. (b_node b, b_port b)"
  have dist: "distinct (map ?ek (g_edges ?g))" "distinct (map ?bk (g_bindings ?g))"
      "set (map ?ek (g_edges ?g)) \<inter> set (map ?bk (g_bindings ?g)) = {}"
    using assms(1) by (auto simp: feed_keys_def)
  consider (edge) e t where "e \<in> set (g_edges ?g)" "?ek e = (n, port_name p)" "has_data env (from_node e) (from_port e) t d"
    | (bound) b pl where "b \<in> set (g_bindings ?g)" "?bk b = (n, port_name p)" "get_payload (e_ses env) (b_payload b) = Some pl"
        "pl_data pl = d"
    using assms(2) unfolding input_is_def by blast
  then show ?thesis
  proof cases
    case edge
    have "(n, port_name p) \<in> set (map ?ek (g_edges ?g))" 
      unfolding edge(2) [symmetric] set_map by (rule imageI [OF edge(1)])
    then have "(n, port_name p) \<notin> ?bk ` set (g_bindings ?g)" using dist(3) unfolding set_map by blast
    then have "\<nexists>v. dict_get (binding_into ?g) (n, port_name p) = Some v" unfolding binding_into_def dict_of_dom .
    then have "dict_get (binding_into ?g) (n, port_name p) = None" by simp
    moreover have "dict_get (edge_into ?g) (n, port_name p) = Some (from_node e, from_port e)"
      using dict_of_get_elem [OF dist(1) edge(1), of "\<lambda>e. (from_node e, from_port e)"] edge(2) by (simp add: edge_into_def)
    ultimately have "wired_to env n p (from_node e) (from_port e)" by (simp add: wired_to_def)
    then show ?thesis using edge(3) unfolding has_data_def fed_with_def by force
  next
    case bound
    have "dict_get (binding_into ?g) (n, port_name p) = Some (b_payload b)"
      using dict_of_get_elem [OF dist(2) bound(1), of b_payload] bound(2) by (simp add: binding_into_def)
    then show ?thesis using bound(3,4) unfolding fed_with_def bound_to_def by force
  qed
qed

lemma inputs_of_snd: "map snd kds = map snd kds' \<Longrightarrow> inputs_of ps kds = inputs_of ps kds'"
proof -
  have m: "map (\<lambda>(p, kd). (port_name p, snd kd)) (zip ps kds) = zip (map port_name ps) (map snd kds)" for kds :: "(string \<times> bytes) list"
    by (simp add: zip_map_map case_prod_beta)
  have f: "foldl (\<lambda>d (p, kd). dict_set (port_name p) (snd kd) d) a xs =
      foldl (\<lambda>d (k, v). dict_set k v d) a (map (\<lambda>(p, kd). (port_name p, snd kd)) xs)" for a and xs :: "(port_spec \<times> string \<times> bytes) list"
    by (induction xs arbitrary: a) auto
  assume "map snd kds = map snd kds'"
  then have "map (\<lambda>(p, kd). (port_name p, snd kd)) (zip ps kds) = map (\<lambda>(p, kd). (port_name p, snd kd)) (zip ps kds')"
    unfolding m by simp
  then show ?thesis unfolding inputs_of_def dict_of_def using f [of "[]"] by (simp add: case_prod_beta')
qed

lemma node_val:
  assumes run: "core_run C env" and nd: "nd \<in> set (g_nodes (e_graph env))" and md: "registry_get (e_reg env) (nd_module nd) = Some md"
    and ins: "list_all2 (\<lambda>p d. input_is env (nd_id nd) (port_name p) d) (m_inputs (mod_manifest md)) ds"
    and res: "mod_run md (inputs_of (m_inputs (mod_manifest md)) (map (Pair []) ds)) (nd_params nd) (e_draft env) = Inr res"
  shows "\<exists>k. val env (nd_id nd) k res"
proof -
  have d: "distinct (feed_keys (e_graph env))" "env_ok env" using run env_ok_feeds by (simp_all add: core_run_def)
  obtain kds where k: "list_all2 (fed_with env (nd_id nd)) (m_inputs (mod_manifest md)) kds" "map snd kds = ds"
  proof -
    have "\<exists>kds. list_all2 (fed_with env (nd_id nd)) ps kds \<and> map snd kds = ds"
      if "list_all2 (\<lambda>p d. input_is env (nd_id nd) (port_name p) d) ps ds" for ps ds
      using that
    proof (induction rule: list_all2_induct)
      case (Cons p ps e ds)
      then obtain kds where "list_all2 (fed_with env (nd_id nd)) ps kds" "map snd kds = ds" by blast
      moreover obtain kd where "fed_with env (nd_id nd) p kd" "snd kd = e" using input_fed [OF d(1) Cons.hyps(1)] by blast
      ultimately show ?case by (intro exI [of _ "kd # kds"]) simp
    qed simp
    with ins that show ?thesis by blast
  qed
  have "dict_get (nodes_by_id (e_graph env)) (nd_id nd) = Some nd"
    using nd d(2) by (simp add: nodes_by_id_get env_ok_def valid_graph_def valid_nodes_def)
  then have "node_lookup env (nd_id nd) = Inr (nd, md)" using md by (simp add: node_lookup_def)
  moreover have r: "mod_run md (inputs_of (m_inputs (mod_manifest md)) kds) (nd_params nd) (e_draft env) = Inr res"
    using res inputs_of_snd [of kds "map (Pair []) ds"] k(2) by (simp add: comp_def)
  moreover have "contract_error (mod_manifest md) res = None"
  proof -
    have "(nd_module nd, md) \<in> set (e_reg env)" using md map_of_SomeD by (simp add: registry_get_def)
    moreover have "e_reg env = map (\<lambda>md. (m_name (mod_manifest md), md)) (core_modules C)"
      using run by (simp add: core_run_def default_registry_eq)
    ultimately have c: "md \<in> set (core_modules C)" by auto
    show ?thesis by (rule conforming_module.never_rejected [OF core_modules_conform [OF c] r])
  qed
  ultimately show ?thesis using k(1) unfolding val_iff hashes_def by blast
qed


section \<open>The values of the separation's nodes\<close>

lemma core_get:
  assumes "core_run C env"
  shows "registry_get (e_reg env) ''image.posterize'' = Some (posterize_module (ce_pil C) (ce_flt C) (ce_lab C))"
    and "registry_get (e_reg env) ''image.colormask'' = Some (colormask_module (ce_pil C) (ce_flt C))"
    and "registry_get (e_reg env) ''potrace.trace'' = Some (potrace_module (ce_potrace C) (ce_pil C) (ce_flt C) (ce_text C))"
    and "registry_get (e_reg env) ''svg.colorize'' = Some (svg_colorize_module (ce_svg C) (ce_flt C))"
    and "registry_get (e_reg env) ''svg.merge'' = Some (svg_merge_module (ce_svg C))"
proof -
  have reg: "e_reg env = map (\<lambda>md. (m_name (mod_manifest md), md)) (core_modules C)"
    using assms by (simp add: core_run_def default_registry_eq)
  note defs = core_modules_def Let_def potrace_module_def potrace_manifest_def crop_module_def rotate_module_def
    levels_module_def threshold_module_def invert_module_def downsample_module_def posterize_module_def
    colormask_module_def colormask_manifest_def svg_colorize_module_def svg_colorize_manifest_def
    svg_merge_module_def svg_merge_manifest_def single_image_manifest_def
  show "registry_get (e_reg env) ''image.posterize'' = Some (posterize_module (ce_pil C) (ce_flt C) (ce_lab C))"
    "registry_get (e_reg env) ''image.colormask'' = Some (colormask_module (ce_pil C) (ce_flt C))"
    "registry_get (e_reg env) ''potrace.trace'' = Some (potrace_module (ce_potrace C) (ce_pil C) (ce_flt C) (ce_text C))"
    "registry_get (e_reg env) ''svg.colorize'' = Some (svg_colorize_module (ce_svg C) (ce_flt C))"
    "registry_get (e_reg env) ''svg.merge'' = Some (svg_merge_module (ce_svg C))"
    unfolding reg registry_get_def by (simp_all add: defs)
qed

text \<open>A node with one input, and one with two.\<close>

lemma node_data:
  assumes run: "core_run C env" and nd: "nd \<in> set (g_nodes (e_graph env))" and md: "registry_get (e_reg env) (nd_module nd) = Some md"
    and ins: "map port_name (m_inputs (mod_manifest md)) = map fst inputs" "dict_ok inputs"
      "\<forall>(p, d) \<in> set inputs. input_is env (nd_id nd) p d"
    and res: "mod_run md inputs (nd_params nd) (e_draft env) = Inr res"
  shows "has_val env (nd_id nd)" and "dict_get res p = Some \<lparr>r_type = t, r_data = d\<rparr> \<Longrightarrow> has_data env (nd_id nd) p t d"
proof -
  have l: "length (m_inputs (mod_manifest md)) = length inputs" using ins(1) by (metis length_map)
  have a: "list_all2 (\<lambda>p d. input_is env (nd_id nd) (port_name p) d) (m_inputs (mod_manifest md)) (map snd inputs)"
  proof (rule list_all2_all_nthI)
    fix i assume i: "i < length (m_inputs (mod_manifest md))"
    have "port_name (m_inputs (mod_manifest md) ! i) = fst (inputs ! i)" using ins(1) i l by (metis nth_map)
    then show "input_is env (nd_id nd) (port_name (m_inputs (mod_manifest md) ! i)) (map snd inputs ! i)"
      using ins(3) i l by (auto simp: case_prod_beta)
  qed (simp add: l)
  have "inputs_of (m_inputs (mod_manifest md)) (map (Pair []) (map snd inputs)) = inputs"
  proof -
    have fresh: "foldl (\<lambda>d x. dict_set (fst x) (snd x) d) a xs = a @ xs" if "distinct (map fst (a @ xs))" for a xs :: "(string, bytes) dict"
      using that
    proof (induction xs arbitrary: a)
      case (Cons x xs)
      have "dict_get a (fst x) = None" using Cons.prems by (auto simp: map_of_eq_None_iff)
      then show ?case using Cons by (simp add: dict_set_fresh)
    qed simp
    have "foldl (\<lambda>d x. dict_set (port_name (fst x)) (snd (snd x)) d) a (zip ps (map (Pair ([] :: string)) (map snd xs))) =
        foldl (\<lambda>d x. dict_set (fst x) (snd x) d) a xs" if "map port_name ps = map fst xs"
      for a xs and ps :: "port_spec list"
      using that
    proof (induction xs arbitrary: a ps)
      case (Cons x xs)
      then show ?case by (cases ps) simp_all
    qed simp
    from this [OF ins(1)] show ?thesis
      using fresh [of "[]" inputs] ins(2) by (simp add: inputs_of_def dict_of_def case_prod_beta dict_ok_def)
  qed
  then obtain k where "val env (nd_id nd) k res" using node_val [OF run nd md a] res by metis
  then show "has_val env (nd_id nd)" "dict_get res p = Some \<lparr>r_type = t, r_data = d\<rparr> \<Longrightarrow> has_data env (nd_id nd) p t d"
    unfolding has_val_def has_data_def by blast+
qed

lemma read_port_Inr: "read_port p r = Inr d \<longleftrightarrow> (\<exists>rs x. r = Inr rs \<and> dict_get rs p = Some x \<and> r_data x = d)"
  by (auto simp: read_port_def ebind_Inr split: option.splits)

text \<open>A node with one input and one output port.\<close>

lemma step_data:
  assumes run: "core_run C env" and nd: "nd \<in> set (g_nodes (e_graph env))" and md: "registry_get (e_reg env) (nd_module nd) = Some md"
    and ports: "map port_name (m_inputs (mod_manifest md)) = [p]" and ins: "input_is env (nd_id nd) p d"
    and res: "read_port q (mod_run md [(p, d)] (nd_params nd) (e_draft env)) = Inr d'"
    and shape: "\<And>rs. mod_run md [(p, d)] (nd_params nd) (e_draft env) = Inr rs \<Longrightarrow> \<exists>d. rs = [(q, \<lparr>r_type = t, r_data = d\<rparr>)]"
  shows "has_val env (nd_id nd) \<and> has_data env (nd_id nd) q t d'"
proof -
  obtain rs x where rs: "mod_run md [(p, d)] (nd_params nd) (e_draft env) = Inr rs" "dict_get rs q = Some x" "r_data x = d'"
    using res by (auto simp: read_port_Inr)
  then have "dict_get rs q = Some \<lparr>r_type = t, r_data = d'\<rparr>" using shape by fastforce
  moreover have "map port_name (m_inputs (mod_manifest md)) = map fst [(p, d)]" "dict_ok [(p, d)]"
    "\<forall>(p, d) \<in> set [(p, d)]. input_is env (nd_id nd) p d"
    using ports ins by (simp_all add: dict_ok_def)
  note nv = node_data [OF run nd md this rs(1)]
  ultimately show ?thesis using nv by blast
qed

lemma edge_input: "e \<in> set (g_edges (e_graph env)) \<Longrightarrow> has_data env (from_node e) (from_port e) t d \<Longrightarrow>
    input_is env (to_node e) (to_port e) d"
  unfolding input_is_def by blast

lemma post_data:
  assumes run: "core_run C env" and nd: "post_node \<in> set (g_nodes (e_graph env))"
    and ins: "input_is env ''post'' ''image'' data" and p: "poster C (e_draft env) data = Inr post"
  shows "has_val env ''post'' \<and> has_data env ''post'' ''image'' raster_png post"
proof -
  have f: "nd_id post_node = ''post''" "nd_module post_node = ''image.posterize''" "nd_params post_node = [(''colors'', JInt 16)]"
    by (simp_all add: post_node_def)
  have "has_val env (nd_id post_node) \<and> has_data env (nd_id post_node) ''image'' raster_png post"
    by (rule step_data [OF run nd core_get(1) [OF run, folded f(2)]])
      (use p ins posterize_results in \<open>simp_all add: f posterize_module_def single_image_manifest_def poster_def\<close>)
  then show ?thesis by (simp add: f)
qed

lemma svg_colorize_results:
  "svg_colorize_run X F ins ps draft = Inr rs \<Longrightarrow> \<exists>d. rs = [(''svg'', \<lparr>r_type = vector_svg, r_data = d\<rparr>)]"
  by (auto simp: svg_colorize_run_def ebind_Inr Let_def svg_result_def split: if_splits)

lemma color_data:
  assumes run: "core_run C env" and nd: "set (color_nodes salt i fill) \<subseteq> set (g_nodes (e_graph env))"
    and es: "set (color_edges i) \<subseteq> set (g_edges (e_graph env))"
    and post: "has_data env ''post'' ''image'' raster_png post" and l: "layer_svg C salt (e_draft env) post (i, fill) = Inr b"
  shows "(\<forall>n \<in> set (color_nodes salt i fill). has_val env (nd_id n)) \<and> has_data env (color_id i) ''svg'' vector_svg b"
proof -
  let ?P = "ce_pil C" and ?F = "ce_flt C" and ?X = "ce_svg C" and ?d = "e_draft env"
  obtain m t c where cn: "color_nodes salt i fill = [m, t, c]" by (simp add: color_nodes_def)
  then have n: "nd_id m = mask_id i" "nd_id t = trace_id i" "nd_id c = color_id i"
      "nd_module m = ''image.colormask''" "nd_module t = ''potrace.trace''" "nd_module c = ''svg.colorize''"
      "nd_params m = [(''index'', JInt i)]" "nd_params t = [(''blacklevel'', JFloat ''0.5''), (''turdsize'', JInt salt)]"
      "nd_params c = [(''fill'', JStr fill)]"
    by (auto simp: color_nodes_def)
  obtain e f h where ce: "color_edges i = [e, f, h]" by (simp add: color_edges_def)
  then have e: "from_node e = ''post''" "from_port e = ''image''" "to_node e = mask_id i"
      "to_port e = ''image''" "from_node f = mask_id i" "from_port f = ''mask''" "to_node f = trace_id i" "to_port f = ''image''"
      "from_node h = trace_id i" "from_port h = ''svg''" "to_node h = color_id i" "to_port h = ''svg''"
    by (auto simp: color_edges_def)
  have mem: "m \<in> set (g_nodes (e_graph env))" "t \<in> set (g_nodes (e_graph env))" "c \<in> set (g_nodes (e_graph env))"
      "e \<in> set (g_edges (e_graph env))" "f \<in> set (g_edges (e_graph env))" "h \<in> set (g_edges (e_graph env))"
    using nd es cn ce by simp_all
  obtain mask svg where r: "read_port ''mask'' (colormask_run ?P ?F [(''image'', post)] [(''index'', JInt i)] ?d) = Inr mask"
      "read_port ''svg'' (potrace_run (ce_potrace C) ?P ?F (ce_text C) [(''image'', mask)]
         [(''blacklevel'', JFloat ''0.5''), (''turdsize'', JInt salt)] ?d) = Inr svg"
      "read_port ''svg'' (svg_colorize_run ?X ?F [(''svg'', svg)] [(''fill'', JStr fill)] ?d) = Inr b"
    using l by (auto simp: layer_svg_def ebind_Inr)
  have "input_is env (nd_id m) ''image'' post" using edge_input [OF mem(4), of raster_png post] post by (simp add: e n)
  then have 1: "has_val env (nd_id m) \<and> has_data env (nd_id m) ''mask'' raster_png mask"
    by (intro step_data [OF run mem(1) core_get(2) [OF run, folded n(4)]])
      (use r(1) colormask_results in \<open>simp_all add: n colormask_module_def colormask_manifest_def\<close>)
  then have "input_is env (nd_id t) ''image'' mask" using edge_input [OF mem(5), of raster_png mask] by (simp add: e n)
  then have 2: "has_val env (nd_id t) \<and> has_data env (nd_id t) ''svg'' vector_svg svg"
    by (intro step_data [OF run mem(2) core_get(3) [OF run, folded n(5)]])
      (use r(2) potrace_results in \<open>simp_all add: n potrace_module_def potrace_manifest_def vector_svg_def\<close>)
  then have "input_is env (nd_id c) ''svg'' svg" using edge_input [OF mem(6), of vector_svg svg] by (simp add: e n)
  then have 3: "has_val env (nd_id c) \<and> has_data env (nd_id c) ''svg'' vector_svg b"
    by (intro step_data [OF run mem(3) core_get(4) [OF run, folded n(6)]])
      (use r(3) svg_colorize_results in \<open>simp_all add: n svg_colorize_module_def svg_colorize_manifest_def\<close>)
  show ?thesis using 1 2 3 by (simp add: cn n)
qed

lemma merge_data:
  assumes run: "core_run C env" and nd: "merge_node k \<in> set (g_nodes (e_graph env))"
    and es: "set (merge_edges k u v) \<subseteq> set (g_edges (e_graph env))"
    and u: "has_data env (fst u) (snd u) t b" "sv_parse (ce_svg C) b = Inr x"
    and v: "has_data env (fst v) (snd v) t' c" "sv_parse (ce_svg C) c = Inr y"
  shows "has_val env (merge_id k) \<and> has_data env (merge_id k) ''svg'' vector_svg (sv_print (ce_svg C) (merge_svg x y))"
proof -
  let ?X = "ce_svg C"
  have f: "nd_id (merge_node k) = merge_id k" "nd_module (merge_node k) = ''svg.merge''" by (simp_all add: merge_node_def)
  obtain e h where me: "merge_edges k u v = [e, h]" by (simp add: merge_edges_def)
  then have e: "from_node e = fst u" "from_port e = snd u" "to_node e = merge_id k" "to_port e = ''under''"
      "from_node h = fst v" "from_port h = snd v" "to_node h = merge_id k" "to_port h = ''over''"
    by (auto simp: merge_edges_def)
  have mem: "e \<in> set (g_edges (e_graph env))" "h \<in> set (g_edges (e_graph env))" using es me by simp_all
  have ins: "\<forall>(p, d) \<in> set [(''under'', b), (''over'', c)]. input_is env (nd_id (merge_node k)) p d"
    using edge_input [OF mem(1), of t b] edge_input [OF mem(2), of t' c] u(1) v(1) by (simp add: e f)
  have m: "registry_get (e_reg env) (nd_module (merge_node k)) = Some (svg_merge_module ?X)"
    using core_get(5) [OF run] f(2) by simp
  have p: "map port_name (m_inputs (mod_manifest (svg_merge_module ?X))) = map fst [(''under'', b), (''over'', c)]"
    "dict_ok [(''under'', b), (''over'', c)]"
    by (simp_all add: svg_merge_module_def svg_merge_manifest_def dict_ok_def)
  have r: "mod_run (svg_merge_module ?X) [(''under'', b), (''over'', c)] (nd_params (merge_node k)) (e_draft env) =
      Inr (svg_result ?X (merge_svg x y))"
    using u(2) v(2) by (simp add: svg_merge_module_def svg_merge_run_def input_of_def parse_svg_def)
  have "dict_get (svg_result ?X (merge_svg x y)) ''svg'' = Some \<lparr>r_type = vector_svg, r_data = sv_print ?X (merge_svg x y)\<rparr>"
    by (simp add: svg_result_def)
  from node_data(2) [OF run nd m p ins r this] node_data(1) [OF run nd m p ins r] show ?thesis by (simp add: f)
qed


section \<open>The stack of layers\<close>

definition stacked :: "exec_env \<Rightarrow> svg_io \<Rightarrow> (string \<times> string) list \<Rightarrow> elem list \<Rightarrow> bool" where
  "stacked env X layer es \<longleftrightarrow> (\<exists>fss. list_all2 (\<lambda>l fs. snd l = ''svg'' \<and> fs \<noteq> [] \<and>
     (\<exists>b. has_data env (fst l) ''svg'' vector_svg b \<and> sv_parse X b = Inr (merge_all fs))) layer fss \<and> concat fss = es)"

definition valued :: "exec_env \<Rightarrow> node list \<Rightarrow> bool" where
  "valued env ns \<longleftrightarrow> (\<forall>n \<in> set ns. has_val env (nd_id n))"

lemma merge_pairs_grows:
  "merge_pairs k ns es nxt layer = (k', ns', es', layer') \<Longrightarrow> set ns \<subseteq> set ns' \<and> set es \<subseteq> set es'"
  by (induction k ns es nxt layer rule: merge_pairs.induct) fastforce+

lemma merge_layers_grows:
  "merge_layers k ns es layer = (ns', es', layer') \<Longrightarrow> set ns \<subseteq> set ns' \<and> set es \<subseteq> set es' \<and> length layer' \<le> 1"
proof (induction k ns es layer rule: merge_layers.induct)
  case (1 k ns es layer)
  show ?case
  proof (cases "1 < length layer")
    case True
    obtain k1 ns1 es1 nxt where p: "merge_pairs k ns es [] layer = (k1, ns1, es1, nxt)" by (metis prod_cases4)
    then have "merge_layers k1 ns1 es1 nxt = (ns', es', layer')"
      using "1.prems" True merge_layers.simps [of k ns es layer] by simp
    with "1.IH" [OF True p [symmetric] refl refl] merge_pairs_grows [OF p] show ?thesis by blast
  next
    case False
    then show ?thesis using "1.prems" merge_layers.simps [of k ns es layer] by auto
  qed
qed

lemma stacked_merge:
  assumes run: "core_run C env" and rb: "reads_back (ce_svg C) es"
    and nd: "merge_node k \<in> set (g_nodes (e_graph env))" and me: "set (merge_edges k u v) \<subseteq> set (g_edges (e_graph env))"
    and st: "stacked env (ce_svg C) (nxt @ u # v # rest) es"
  shows "has_val env (merge_id k) \<and> stacked env (ce_svg C) ((nxt @ [(merge_id k, ''svg'')]) @ rest) es"
proof -
  let ?X = "ce_svg C"
  define R where "R l fs \<longleftrightarrow> snd l = ''svg'' \<and> fs \<noteq> [] \<and>
    (\<exists>b. has_data env (fst l) ''svg'' vector_svg b \<and> sv_parse ?X b = Inr (merge_all fs))" for l :: "string \<times> string" and fs
  have stacked: "stacked env ?X ls es \<longleftrightarrow> (\<exists>fss. list_all2 R ls fss \<and> concat fss = es)" for ls
    unfolding stacked_def R_def ..
  obtain fss where fss: "list_all2 R (nxt @ u # v # rest) fss" "concat fss = es" using st unfolding stacked by blast
  then obtain as x y bs where b: "fss = as @ x # y # bs" "list_all2 R nxt as" "R u x" "R v y" "list_all2 R rest bs"
    by (auto simp: list_all2_append1 list_all2_Cons1)
  obtain bu bv where d: "has_data env (fst u) (snd u) vector_svg bu" "sv_parse ?X bu = Inr (merge_all x)"
      "has_data env (fst v) (snd v) vector_svg bv" "sv_parse ?X bv = Inr (merge_all y)"
    using b(3,4) by (auto simp: R_def)
  have ne: "x \<noteq> []" "y \<noteq> []" using b(3,4) unfolding R_def by blast+
  have "sublist (x @ y) es" using fss(2) b(1) by (auto simp: sublist_def)
  then have "sv_parse ?X (sv_print ?X (merge_all (x @ y))) = Inr (merge_all (x @ y))"
    using rb ne unfolding reads_back_def by simp
  then have "sv_parse ?X (sv_print ?X (merge_svg (merge_all x) (merge_all y))) = Inr (merge_all (x @ y))"
    unfolding merge_all_append [OF ne] .
  moreover note m = merge_data [OF run nd me d]
  ultimately have "R (merge_id k, ''svg'') (x @ y)" using ne by (auto simp: R_def)
  then have "list_all2 R ((nxt @ [(merge_id k, ''svg'')]) @ rest) (as @ (x @ y) # bs)"
    using b(2,5) by (simp add: list_all2_appendI)
  then have "stacked env ?X ((nxt @ [(merge_id k, ''svg'')]) @ rest) es"
    using fss(2) b(1) unfolding stacked by (intro exI conjI) (assumption, simp)
  then show ?thesis using m by blast
qed

lemma stacked_pairs:
  assumes run: "core_run C env" and rb: "reads_back (ce_svg C) es"
  shows "merge_pairs k ns es0 nxt layer = (k', ns', es', layer') \<Longrightarrow> set ns' \<subseteq> set (g_nodes (e_graph env)) \<Longrightarrow>
    set es' \<subseteq> set (g_edges (e_graph env)) \<Longrightarrow> valued env ns \<Longrightarrow> stacked env (ce_svg C) (nxt @ layer) es \<Longrightarrow>
    valued env ns' \<and> stacked env (ce_svg C) layer' es"
proof (induction k ns es0 nxt layer rule: merge_pairs.induct)
  case (1 k ns es0 nxt u v rest)
  have p: "merge_pairs (Suc k) (ns @ [merge_node k]) (es0 @ merge_edges k u v) (nxt @ [(merge_id k, ''svg'')]) rest =
      (k', ns', es', layer')"
    using "1.prems"(1) by simp
  have "merge_node k \<in> set (g_nodes (e_graph env))" "set (merge_edges k u v) \<subseteq> set (g_edges (e_graph env))"
    using merge_pairs_grows [OF p] "1.prems"(2,3) by auto
  note s = stacked_merge [OF run rb this "1.prems"(5)]
  have "nd_id (merge_node k) = merge_id k" by (simp add: merge_node_def)
  then have "valued env (ns @ [merge_node k])" using s "1.prems"(4) by (simp add: valued_def)
  with "1.IH" [OF p "1.prems"(2,3)] s show ?case by blast
qed simp_all

lemma stacked_layers:
  assumes run: "core_run C env" and rb: "reads_back (ce_svg C) es"
  shows "merge_layers k ns es0 layer = (ns', es', layer') \<Longrightarrow> set ns' \<subseteq> set (g_nodes (e_graph env)) \<Longrightarrow>
    set es' \<subseteq> set (g_edges (e_graph env)) \<Longrightarrow> valued env ns \<Longrightarrow> stacked env (ce_svg C) layer es \<Longrightarrow>
    valued env ns' \<and> stacked env (ce_svg C) layer' es"
proof (induction k ns es0 layer rule: merge_layers.induct)
  case (1 k ns es0 layer)
  show ?case
  proof (cases "1 < length layer")
    case True
    obtain k1 ns1 es1 nxt where p: "merge_pairs k ns es0 [] layer = (k1, ns1, es1, nxt)" by (metis prod_cases4)
    then have m: "merge_layers k1 ns1 es1 nxt = (ns', es', layer')"
      using "1.prems"(1) True merge_layers.simps [of k ns es0 layer] by simp
    have "set ns1 \<subseteq> set (g_nodes (e_graph env))" "set es1 \<subseteq> set (g_edges (e_graph env))"
      using merge_layers_grows [OF m] "1.prems"(2,3) by auto
    from stacked_pairs [OF run rb p this] "1.prems"(4,5) have "valued env ns1" "stacked env (ce_svg C) nxt es" by simp_all
    then show ?thesis using "1.IH" [OF True p [symmetric] refl refl m "1.prems"(2,3)] by blast
  next
    case False
    then show ?thesis using "1.prems" merge_layers.simps [of k ns es0 layer] by auto
  qed
qed

section \<open>The result of a separation\<close>

lemma add_colors_eq:
  "add_colors salt palette ns es = (ns @ concat (map (\<lambda>(i, fill). color_nodes salt i fill) palette),
     es @ concat (map (\<lambda>(i, fill). color_edges i) palette))"
  by (induction salt palette ns es rule: add_colors.induct) simp_all

lemma build_graph_parse:
  assumes "build_graph payload_id palette salt = Some v" and "parse_graph v = Inr g"
  shows "\<exists>ns es l ls. add_colors salt palette [post_node] [] = (ns, es) \<and>
    merge_layers 0 ns es (map (\<lambda>(i, fill). (color_id i, ''svg'')) palette) = (g_nodes g, g_edges g, l # ls) \<and>
    g_bindings g = [\<lparr>b_payload = payload_id, b_node = ''post'', b_port = ''image''\<rparr>] \<and>
    g_outputs g = [\<lparr>o_node = fst l, o_port = ''svg'', o_group = None\<rparr>]"
proof -
  obtain ns es where a: "add_colors salt palette [post_node] [] = (ns, es)" by force
  obtain ns' es' layer where m: "merge_layers 0 ns es (map (\<lambda>(i, fill). (color_id i, ''svg'')) palette) = (ns', es', layer)"
    by (metis prod_cases3)
  obtain l ls where l: "layer = l # ls" using assms(1) by (cases layer) (simp_all add: build_graph_def a m)
  have en: "enumerate_map parse_node 0 (map node_to_json ns') = Inr ns'" "enumerate_map parse_edge 0 (map edge_to_json es') = Inr es'"
    by (simp_all add: enumerate_map_inverse parse_items_to_json)
  have "g = \<lparr>g_nodes = ns', g_edges = es', g_bindings = [\<lparr>b_payload = payload_id, b_node = ''post'', b_port = ''image''\<rparr>],
      g_outputs = [\<lparr>o_node = fst l, o_port = ''svg'', o_group = None\<rparr>], g_groups = []\<rparr>"
    using assms by (simp add: build_graph_def a m l) (auto simp: parse_graph_def parse_list_def array_field_def en parse_item_defs)
  then show ?thesis using a m l by (intro exI [of _ ns] exI [of _ es] exI [of _ l] exI [of _ ls]) simp
qed

lemma merge_pairs_params:
  "merge_pairs k ns es nxt layer = (k', ns', es', layer') \<Longrightarrow> \<forall>n \<in> set ns. P (nd_params n) \<Longrightarrow> P [] \<Longrightarrow> \<forall>n \<in> set ns'. P (nd_params n)"
  by (induction k ns es nxt layer rule: merge_pairs.induct) (auto simp: merge_node_def)

lemma merge_layers_params:
  "merge_layers k ns es layer = (ns', es', layer') \<Longrightarrow> \<forall>n \<in> set ns. P (nd_params n) \<Longrightarrow> P [] \<Longrightarrow> \<forall>n \<in> set ns'. P (nd_params n)"
proof (induction k ns es layer rule: merge_layers.induct)
  case (1 k ns es layer)
  show ?case
  proof (cases "1 < length layer")
    case True
    obtain k1 ns1 es1 nxt where p: "merge_pairs k ns es [] layer = (k1, ns1, es1, nxt)" by (metis prod_cases4)
    then have m: "merge_layers k1 ns1 es1 nxt = (ns', es', layer')"
      using "1.prems"(1) True merge_layers.simps [of k ns es layer] by simp
    show ?thesis
      by (rule "1.IH" [OF True p [symmetric] refl refl m merge_pairs_params [OF p "1.prems"(2,3)] "1.prems"(3)])
  next
    case False
    then show ?thesis using "1.prems" merge_layers.simps [of k ns es layer] by auto
  qed
qed

lemma half: "float_text ''0.5''"
  by code_simp

lemma separation_plain:
  assumes "build_graph payload_id palette salt = Some v" and "parse_graph v = Inr g" and "fc ''0.5'' = ''0.5''"
  shows "plain_params fc g"
proof -
  obtain ns es layer where a: "add_colors salt palette [post_node] [] = (ns, es)"
      "merge_layers 0 ns es (map (\<lambda>(i, fill). (color_id i, ''svg'')) palette) = (g_nodes g, g_edges g, layer)"
    using build_graph_parse [OF assms(1,2)] by blast
  have "\<forall>n \<in> set ns. wf_json fc (JObj (nd_params n))"
    using a(1) assms(3) by (auto simp: add_colors_eq post_node_def color_nodes_def half)
  from merge_layers_params [where P = "\<lambda>ps. wf_json fc (JObj ps)", OF a(2) this] show ?thesis by (simp add: plain_params_def)
qed

theorem separation_stacks:
  assumes reg: "default_registry C = Inr (e_reg env)" and ok: "dict_ok palette" "palette \<noteq> []"
    and build: "build_graph payload_id palette salt = Some v" "parse_graph v = Inr (e_graph env)"
    and pl: "get_payload (e_ses env) payload_id = Some p" "pl_type p = raster_png"
    and post: "poster C (e_draft env) (pl_data p) = Inr post"
    and layers: "map (layer_svg C salt (e_draft env) post) palette = map Inr bs"
    and docs: "map (sv_parse (ce_svg C)) bs = map Inr es" "reads_back (ce_svg C) es"
  shows "\<exists>n b. sequential_outputs env = Inr [\<lparr>eo_node = n, eo_port = ''svg'', eo_type = vector_svg, eo_data = b\<rparr>] \<and>
    sv_parse (ce_svg C) b = Inr (merge_all es)"
proof -
  let ?g = "e_graph env" and ?X = "ce_svg C"
  have "validate_graph ?g (e_reg env) (e_ses env) = []"
    using separation_accepted [OF reg ok(2,1) pl, of salt] build by auto
  then have run: "core_run C env" and env: "env_ok env" using reg by (simp_all add: core_run_def env_ok_def validate_graph_Nil)
  obtain ns es0 l ls where g: "add_colors salt palette [post_node] [] = (ns, es0)"
      "merge_layers 0 ns es0 (map (\<lambda>(i, fill). (color_id i, ''svg'')) palette) = (g_nodes ?g, g_edges ?g, l # ls)"
      "g_bindings ?g = [\<lparr>b_payload = payload_id, b_node = ''post'', b_port = ''image''\<rparr>]"
      "g_outputs ?g = [\<lparr>o_node = fst l, o_port = ''svg'', o_group = None\<rparr>]"
    using build_graph_parse [OF build] by blast
  note gr = merge_layers_grows [OF g(2)]
  have ns: "ns = post_node # concat (map (\<lambda>(i, fill). color_nodes salt i fill) palette)"
    and es0: "es0 = concat (map (\<lambda>(i, fill). color_edges i) palette)"
    using g(1) by (simp_all add: add_colors_eq)
  have "input_is env ''post'' ''image'' (pl_data p)" using pl(1) by (simp add: input_is_def g(3))
  moreover have "post_node \<in> set (g_nodes ?g)" using gr ns by auto
  ultimately have pd: "has_val env ''post''" "has_data env ''post'' ''image'' raster_png post" using post_data [OF run _ _ post] by blast+
  have len: "length bs = length palette" "length es = length bs" using layers docs(1) by (metis length_map)+
  have cd: "(\<forall>n \<in> set (color_nodes salt i fill). has_val env (nd_id n)) \<and> has_data env (color_id i) ''svg'' vector_svg (bs ! j)"
    if j: "j < length palette" "palette ! j = (i, fill)" for i fill j
  proof (rule color_data [OF run _ _ pd(2)])
    have "(i, fill) \<in> set palette" using j nth_mem by metis
    then show "set (color_nodes salt i fill) \<subseteq> set (g_nodes ?g)" "set (color_edges i) \<subseteq> set (g_edges ?g)"
      using gr unfolding ns es0 by fastforce+
    show "layer_svg C salt (e_draft env) post (i, fill) = Inr (bs ! j)" using layers j len by (metis nth_map)
  qed
  have "valued env ns"
    unfolding valued_def ns using cd pd(1) by (fastforce simp: post_node_def in_set_conv_nth)
  moreover have "stacked env ?X (map (\<lambda>(i, fill). (color_id i, ''svg'')) palette) es"
    unfolding stacked_def
  proof (intro exI conjI)
    show "concat (map (\<lambda>e. [e]) es) = es" by simp
    show "list_all2 (\<lambda>l fs. snd l = ''svg'' \<and> fs \<noteq> [] \<and> (\<exists>b. has_data env (fst l) ''svg'' vector_svg b \<and> sv_parse ?X b = Inr (merge_all fs)))
        (map (\<lambda>(i, fill). (color_id i, ''svg'')) palette) (map (\<lambda>e. [e]) es)"
    proof (rule list_all2_all_nthI)
      fix j assume "j < length (map (\<lambda>(i, fill). (color_id i, ''svg'')) palette)"
      then have j: "j < length palette" by simp
      obtain i fill where c: "palette ! j = (i, fill)" by fastforce
      have "sv_parse ?X (bs ! j) = Inr (es ! j)" using docs(1) j len by (metis nth_map)
      then show "snd (map (\<lambda>(i, fill). (color_id i, ''svg'')) palette ! j) = ''svg'' \<and> map (\<lambda>e. [e]) es ! j \<noteq> [] \<and>
          (\<exists>b. has_data env (fst (map (\<lambda>(i, fill). (color_id i, ''svg'')) palette ! j)) ''svg'' vector_svg b \<and>
            sv_parse ?X b = Inr (merge_all (map (\<lambda>e. [e]) es ! j)))"
        using cd [OF j c] j c len by auto
    qed (simp add: len)
  qed
  ultimately have st: "valued env (g_nodes ?g)" "stacked env ?X (l # ls) es"
    using stacked_layers [OF run docs(2) g(2) subset_refl subset_refl] by blast+
  have "ls = []" using gr by simp
  then obtain b where b: "has_data env (fst l) ''svg'' vector_svg b" "sv_parse ?X b = Inr (merge_all es)"
    using st(2) by (auto simp: stacked_def list_all2_Cons1)
  have "node_output env (fst l) ''svg'' \<lparr>eo_node = fst l, eo_port = ''svg'', eo_type = vector_svg, eo_data = b\<rparr>"
    using b(1) unfolding node_output_def has_data_def output_of_def by fastforce
  moreover have "\<forall>n \<in> node_ids ?g. has_val env n" using st(1) by (auto simp: valued_def node_ids_def)
  ultimately have "sequential_outputs env = Inr [\<lparr>eo_node = fst l, eo_port = ''svg'', eo_type = vector_svg, eo_data = b\<rparr>]"
    unfolding sequential_outputs_spec [OF env] by (simp add: g(4))
  with b(2) show ?thesis by blast
qed

end
