(* ===== verification/CoreExamples.thy ===== *)
theory CoreExamples
  imports CoreModules
begin

text \<open>
  A concrete environment of the core modules for the witnesses: floats rounded down to 60 binary
  places with a coarse \<open>pow\<close>, images that are their own bytes, and two SVG layers with the document that merges them.
\<close>

definition demo_flt :: flt where
  "demo_flt = \<lparr>fl_round = (\<lambda>q. Fin (of_int \<lfloor>q * 2 ^ 60\<rfloor> / 2 ^ 60)),
     fl_pow = (\<lambda>x y. if x = Fin 0 \<or> x = Fin 1 then x else Fin (1 / 2)), fl_lit = (\<lambda>t. NaN), fl_parse = (\<lambda>s. None), fl_text = (\<lambda>x. []),
     fl_repr = (\<lambda>v. []), fl_str = (\<lambda>v. [])\<rparr>"

lemma demo_double_laws: "double_laws demo_flt"
proof -
  have mono: "p \<le> q \<Longrightarrow> (of_int \<lfloor>p * 2 ^ 60\<rfloor> :: rat) / 2 ^ 60 \<le> of_int \<lfloor>q * 2 ^ 60\<rfloor> / 2 ^ 60" for p q :: rat
    by (intro divide_right_mono) (simp_all only: of_int_le_iff floor_mono mult_right_mono zero_le_power zero_le_numeral)
  have exact: "(of_int \<lfloor>of_int n * 2 ^ 60 :: rat\<rfloor> :: rat) / 2 ^ 60 = of_int n" for n
  proof -
    have "of_int n * (2 :: rat) ^ 60 = of_int (n * 2 ^ 60)" by simp
    then show ?thesis by (simp only: floor_of_int) simp
  qed
  have near: "\<bar>of_int \<lfloor>q * 2 ^ 60\<rfloor> / 2 ^ 60 - q\<bar> \<le> q / 2 ^ 53" if "1 \<le> q" for q :: rat
  proof -
    have "of_int \<lfloor>q * 2 ^ 60\<rfloor> \<le> q * 2 ^ 60" "q * 2 ^ 60 - 1 \<le> of_int \<lfloor>q * 2 ^ 60\<rfloor>" by linarith+
    then show ?thesis using that by (simp add: abs_le_iff field_simps)
  qed
  define f :: "rat \<Rightarrow> rat" where "f = (\<lambda>q. of_int \<lfloor>q * 2 ^ 60\<rfloor> / 2 ^ 60)"
  have "p \<le> q \<Longrightarrow> f p \<le> f q" "f (of_int n) = of_int n" "1 \<le> q \<Longrightarrow> \<bar>f q - q\<bar> \<le> q / 2 ^ 53" "f (1 / 2 ^ 53) = 1 / 2 ^ 53" for p q n
    unfolding f_def by (rule mono, assumption, rule exact, rule near, assumption, simp)
  moreover have "fl_round demo_flt q = Fin (f q)" for q by (simp only: demo_flt_def flt.simps f_def)
  moreover have "fl_pow demo_flt (Fin 0) y = Fin 0" "fl_pow demo_flt (Fin 1) y = Fin 1" for y
    by (simp_all add: demo_flt_def)
  ultimately show ?thesis unfolding double_laws_def by simp
qed

lemma demo_levels_ok: "levels_ok demo_flt 10 200 1"
  using demo_double_laws by (simp add: levels_ok_def)

definition demo_pil :: "bytes pil" where
  "demo_pil = \<lparr>pl_open = Inr, pl_size = (\<lambda>b. (1, 1)), pl_mode = (\<lambda>b. ''L''), pl_bands = (\<lambda>b. [''L'']),
     pl_transparency = (\<lambda>b. False), pl_white = (\<lambda>s. []), pl_convert = (\<lambda>m. Inr), pl_over = (\<lambda>a. Inr),
     pl_crop = (\<lambda>x. Inr), pl_rotate = (\<lambda>a. Inr), pl_point = (\<lambda>t. Inr), pl_lut = (\<lambda>t. Inr), pl_invert = Inr,
     pl_contain = (\<lambda>s. Inr), pl_quantize = (\<lambda>n. Inr), pl_min_filter = (\<lambda>n. Inr), pl_pixels = (\<lambda>b. Inr []),
     pl_indexed = (\<lambda>s ix pal. ix), pl_save = (\<lambda>f. Inr)\<rparr>"

definition demo_layer :: "string \<Rightarrow> elem" where
  "demo_layer n = Elem ''svg'' [] None None [Elem (svg_tag ''metadata'') [] None None [], Elem n [] None None []]"

definition demo_svg :: svg_io where
  "demo_svg = \<lparr>sv_parse = (\<lambda>b. if b = [1] then Inr (demo_layer ''a'') else if b = [2] then Inr (demo_layer ''b'')
       else if b = [3] then Inr (merge_all [demo_layer ''a'', demo_layer ''b'']) else Inl ''no element found''),
     sv_print = (\<lambda>e. if e = demo_layer ''a'' then [1] else if e = demo_layer ''b'' then [2] else [3])\<rparr>"

lemma demo_reads_back: "reads_back demo_svg [demo_layer ''a'', demo_layer ''b'']"
proof -
  have "fs \<in> {[demo_layer ''a''], [demo_layer ''b''], [demo_layer ''a'', demo_layer ''b'']}"
    if "fs \<noteq> []" "sublist fs [demo_layer ''a'', demo_layer ''b'']" for fs
    using that by (auto simp: sublist_Cons_right prefix_Cons)
  then show ?thesis
    unfolding reads_back_def by (fastforce simp: demo_svg_def merge_all_def layers_def demo_layer_def)
qed

definition demo_core :: "bytes core_env" where
  "demo_core = \<lparr>ce_pil = demo_pil, ce_flt = demo_flt, ce_lab = (\<lambda>(r, g, b) (r', g', b'). of_int \<bar>r - r'\<bar>), ce_svg = demo_svg,
     ce_potrace = \<lparr>pe_variable = None, pe_is_file = (\<lambda>p. False), pe_which = None, pe_process = (\<lambda>c b. TimedOut)\<rparr>,
     ce_text = (\<lambda>f v. [])\<rparr>"

end
