(* ===== verification/SeparationExamples.thy ===== *)
theory SeparationExamples
  imports Separation ParamOrder CoreExamples ExecExamples
begin

text \<open>
  A concrete separation for the witnesses: a two-colour palette over a session with one PNG. The
  image of a mask is one byte, the tracer turns it into the document of one path, and the SVG
  library reads and prints the five documents that occur.
\<close>

definition sep_trace :: "string \<Rightarrow> (string, string) dict \<Rightarrow> elem" where
  "sep_trace d fill = Elem (svg_tag ''svg'') [] None None
     [Elem (svg_tag ''metadata'') [] None None [], Elem (svg_tag ''path'') ((''d'', d) # fill) None None []]"

definition sep_first :: elem where
  "sep_first = sep_trace ''M0'' [(''fill'', ''#ff0000'')]"

definition sep_second :: elem where
  "sep_second = sep_trace ''M1'' [(''fill'', ''#00ff00'')]"

definition sep_svg :: svg_io where
  "sep_svg = \<lparr>sv_parse = (\<lambda>b. if b = [0] then Inr (sep_trace ''M0'' []) else if b = [1] then Inr (sep_trace ''M1'' [])
       else if b = [2] then Inr sep_first else if b = [3] then Inr sep_second
       else if b = [4] then Inr (merge_all [sep_first, sep_second]) else Inl ''no element found''),
     sv_print = (\<lambda>e. if e = sep_first then [2] else if e = sep_second then [3] else [4])\<rparr>"

definition sep_core :: "bytes core_env" where
  "sep_core = \<lparr>ce_pil = demo_pil\<lparr>pl_mode := (\<lambda>b. ''P''), pl_lut := (\<lambda>t b. Inr [if t ! 0 = 0 then 0 else 1])\<rparr>,
     ce_flt = demo_flt\<lparr>fl_lit := (\<lambda>t. Fin (1 / 2))\<rparr>, ce_lab = ce_lab demo_core, ce_svg = sep_svg,
     ce_potrace = \<lparr>pe_variable = None, pe_is_file = (\<lambda>p. False), pe_which = Some ''/usr/bin/potrace'',
       pe_process = (\<lambda>c b. Exited 0 b [])\<rparr>,
     ce_text = (\<lambda>f v. [])\<rparr>"

definition sep_palette :: "(int, string) dict" where
  "sep_palette = [(0, ''#ff0000''), (1, ''#00ff00'')]"

definition sep_session :: session where
  "sep_session = \<lparr>ses_id = ''s'', ses_payloads = [(''p'', \<lparr>pl_id = ''p'', pl_type = raster_png, pl_data = [7]\<rparr>)]\<rparr>"

definition sep_graph :: graph where
  "sep_graph = projr (parse_graph (the (build_graph ''p'' sep_palette 2)))"

definition sep_env :: exec_env where
  "sep_env = \<lparr>e_graph = sep_graph, e_reg = projr (default_registry sep_core), e_ses = sep_session,
     e_draft = False, e_workers = 2, e_hash = plain_digest\<rparr>"

lemma sep_fields [simp]: "e_graph sep_env = sep_graph" "e_ses sep_env = sep_session" "e_draft sep_env = False" "e_hash sep_env = plain_digest"
  "default_registry sep_core = Inr (e_reg sep_env)" "dict_ok sep_palette" "sep_palette \<noteq> []"
  "get_payload sep_session ''p'' = Some \<lparr>pl_id = ''p'', pl_type = raster_png, pl_data = [7]\<rparr>"
  by (simp_all add: sep_env_def sep_session_def get_payload_def sep_palette_def dict_ok_def default_registry_eq)

lemma sep_built: "\<exists>v. build_graph ''p'' sep_palette 2 = Some v \<and> parse_graph v = Inr sep_graph"
proof -
  obtain v g where "build_graph ''p'' sep_palette 2 = Some v" "parse_graph v = Inr g"
    using separation_accepted [OF sep_fields(5,7,6,8), of 2] by auto
  then show ?thesis by (simp add: sep_graph_def)
qed

lemma sep_post: "poster sep_core False [7] = Inr [7]"
  by (simp add: poster_def read_port_def posterize_run_def flat_image_def input_of_def decode_png_def flatten_def raises_def
      ebind_def sep_core_def demo_pil_def int_param_def conv_raise_def py_int_def image_result_def encode_png_def)

lemma sep_mask:
  "index \<in> {0, 1} \<Longrightarrow> read_port ''mask'' (colormask_run (ce_pil sep_core) (ce_flt sep_core) [(''image'', [7])]
     [(''index'', JInt index)] False) = Inr [if index = 0 then 0 else 1]"
  by (auto simp: read_port_def colormask_run_def int_param_def conv_raise_def py_int_def input_of_def decode_png_def ebind_def
      sep_core_def demo_pil_def mask_lut_def raises_def grow_mask_def encode_png_def)

lemma sep_traced:
  "read_port ''svg'' (potrace_run (ce_potrace sep_core) (ce_pil sep_core) (ce_flt sep_core) (ce_text sep_core)
     [(''image'', m)] [(''blacklevel'', JFloat ''0.5''), (''turdsize'', JInt 2)] False) = Inr m"
  by (simp add: read_port_def potrace_run_def find_potrace_def path_potrace_def potrace_param_def conv_raise_def py_float_def
      py_int_def py_le_def py_lt_def input_of_def png_to_pgm_def flatten_def ebind_def sep_core_def demo_pil_def raises_def traced_def Let_def)

lemma sep_coloured:
  "read_port ''svg'' (svg_colorize_run (ce_svg sep_core) (ce_flt sep_core) [(''svg'', [0])] [(''fill'', JStr ''#ff0000'')] False) = Inr [2]"
  "read_port ''svg'' (svg_colorize_run (ce_svg sep_core) (ce_flt sep_core) [(''svg'', [1])] [(''fill'', JStr ''#00ff00'')] False) = Inr [3]"
  by (simp_all add: read_port_def svg_colorize_run_def fill_ok_def hex_value_def input_of_def parse_svg_def ebind_def sep_core_def
      sep_svg_def svg_result_def colorize_def set_fill_def sep_trace_def sep_first_def sep_second_def svg_tag_def)

lemma sep_layers: "map (layer_svg sep_core 2 False [7]) sep_palette = map Inr [[2], [3]]"
  by (simp add: layer_svg_def sep_palette_def sep_mask sep_traced sep_coloured)

lemma sep_docs: "map (sv_parse (ce_svg sep_core)) [[2], [3]] = map Inr [sep_first, sep_second]"
  by (simp add: sep_core_def sep_svg_def)

lemma sep_reads_back: "reads_back (ce_svg sep_core) [sep_first, sep_second]"
proof -
  have "fs \<in> {[sep_first], [sep_second], [sep_first, sep_second]}"
    if "fs \<noteq> []" "sublist fs [sep_first, sep_second]" for fs
    using that by (auto simp: sublist_Cons_right prefix_Cons)
  then show ?thesis
    unfolding reads_back_def
    by (fastforce simp: sep_core_def sep_svg_def merge_all_def layers_def sep_first_def sep_second_def sep_trace_def)
qed

section \<open>Its jobs may share a cache\<close>

lemma sep_params: "plain_params (\<lambda>t. t) sep_graph"
proof -
  obtain v where "build_graph ''p'' sep_palette 2 = Some v" "parse_graph v = Inr sep_graph" using sep_built by blast
  from separation_plain [OF this, of "\<lambda>t. t"] show ?thesis by simp
qed

lemma sep_collision_free: "collision_free {sep_env}"
proof -
  have "inj_on (e_hash sep_env) A" for A by (simp add: inj_on_def plain_digest_eq)
  moreover have "get_payload sep_session pid = Some pl \<Longrightarrow> pl_data pl = [7]" for pid pl
    by (auto simp: sep_session_def get_payload_def split: if_splits)
  then have "leaf_bytes sep_env \<subseteq> {[7]}" unfolding leaf_bytes_def bound_to_def sep_fields(2) by blast
  ultimately show ?thesis using demo_recipe [of sep_env] unfolding collision_free_def by blast
qed

end
