(* ===== verification/BenchClient.thy ===== *)
theory BenchClient
  imports Bench JobDocs
begin

text \<open>
  What the benchmark clients do around their graphs (\<^verbatim>\<open>scripts/bench_parallel.py\<close> and
  \<^verbatim>\<open>scripts/bench_baseline.py\<close>): the drawings they upload, as the calls they make on Pillow's canvas,
  the palette that the client of the parallel benchmark finds in a posterized image, and the loop
  that polls a job.
\<close>

section \<open>The drawings\<close>

datatype paint = Rgb int int int | Named string

datatype draw_op = DrawEllipse (op_paint: paint) (op_box: "int \<times> int \<times> int \<times> int")
  | DrawRectangle (op_paint: paint) (op_box: "int \<times> int \<times> int \<times> int")

record 'i canvas =
  cv_new :: "string \<Rightarrow> int \<times> int \<Rightarrow> string \<Rightarrow> string + 'i"
  cv_draw :: "draw_op \<Rightarrow> 'i \<Rightarrow> string + 'i"
  cv_save :: "string \<Rightarrow> 'i \<Rightarrow> string + bytes"

fun draw_all :: "'i canvas \<Rightarrow> draw_op list \<Rightarrow> 'i \<Rightarrow> string + 'i" where
  "draw_all C [] img = Inr img"
| "draw_all C (d # ds) img = ebind (cv_draw C d img) (draw_all C ds)"

definition drawing :: "'i canvas \<Rightarrow> int \<times> int \<Rightarrow> draw_op list \<Rightarrow> string + bytes" where
  "drawing C extent ops = ebind (cv_new C ''RGB'' extent ''white'') (\<lambda>img. ebind (draw_all C ops img) (cv_save C ''PNG''))"

definition cell_paint :: "nat \<Rightarrow> paint" where
  "cell_paint i = (let values = [10, 90, 170, 250] in
     Rgb (values ! (i div 4)) (values ! (i mod 4)) (if i mod 2 \<noteq> 0 then 128 else 40))"

definition cell_ops :: "nat \<Rightarrow> draw_op list" where
  "cell_ops i = (let cell = 1600 div 4; x0 = int (i mod 4) * cell; y0 = int (i div 4) * cell in
     [DrawEllipse (cell_paint i) (x0 + 8, y0 + 8, x0 + cell - 8, y0 + cell - 8),
      DrawRectangle (cell_paint i) (x0 + cell div 3, y0 + cell div 3, x0 + cell div 2, y0 + cell div 2)])"

definition multicolor_design :: "'i canvas \<Rightarrow> string + bytes" where
  "multicolor_design C = drawing C (1600, 1600) (concat (map cell_ops [0..<16]))"

definition stripe_op :: "int \<Rightarrow> int \<Rightarrow> nat \<Rightarrow> draw_op" where
  "stripe_op step height i = DrawRectangle (Named ''black'') (int i * step, 0, int i * step + step div 2, height div 3)"

definition design_ops :: "int \<Rightarrow> int \<Rightarrow> draw_op list" where
  "design_ops width height = (let step = max 20 (width div 20) in
     map (stripe_op step height) (filter even [0..<nat ((width + step - 1) div step)]) @
     [DrawEllipse (Named ''black'') (width div 4, height div 3, 3 * width div 4, height - 10),
      DrawEllipse (Named ''white'') (width div 4 + step, height div 3 + step, 3 * width div 4 - step, height - 10 - step)])"

definition make_design :: "'i canvas \<Rightarrow> int \<Rightarrow> int \<Rightarrow> string + bytes" where
  "make_design C width height = drawing C (width, height) (design_ops width height)"

text \<open>Pillow refuses a box whose corners are in the wrong order.\<close>

definition box_in :: "int \<times> int \<times> int \<times> int \<Rightarrow> draw_op \<Rightarrow> bool" where
  "box_in area d = (case (area, op_box d) of ((l, t, r, b), (x0, y0, x1, y1)) \<Rightarrow>
     l \<le> x0 \<and> x0 \<le> x1 \<and> x1 \<le> r \<and> t \<le> y0 \<and> y0 \<le> y1 \<and> y1 \<le> b)"

text \<open>The sixteen colours are distinct, and the shapes of each stay in its own cell.\<close>

lemma multicolor_regions:
  "distinct (map cell_paint [0..<16])"
  "list_all (\<lambda>i. list_all (\<lambda>d. op_paint d = cell_paint i \<and>
     box_in (int (i mod 4) * 400, int (i div 4) * 400, int (i mod 4) * 400 + 399, int (i div 4) * 400 + 399) d) (cell_ops i)) [0..<16]"
  by code_simp+

lemma design_boxes:
  "list_all (box_in (0, 0, 400, 300)) (design_ops 400 300)"
  "list_all (box_in (0, 0, 3000, 2250)) (design_ops 3000 2250)"
  by code_simp+

section \<open>The palette of a posterized image\<close>

text \<open>\<open>"\{:02x\}"\<close>.\<close>

fun hex_digits :: "nat \<Rightarrow> string" where
  "hex_digits n = (if n < 16 then [hex_char n] else hex_digits (n div 16) @ [hex_char (n mod 16)])"

declare hex_digits.simps [simp del]

definition hex2 :: "nat \<Rightarrow> string" where
  "hex2 n = (let s = hex_digits n in replicate (2 - length s) CHR ''0'' @ s)"

text \<open>A colour that the palette is too short for raises an \<open>IndexError\<close>.\<close>

definition palette_fill :: "nat list \<Rightarrow> nat \<Rightarrow> string option" where
  "palette_fill raw i = (case take 3 (drop (i * 3) raw) of
     [r, g, b] \<Rightarrow> Some (CHR ''#'' # hex2 r @ hex2 g @ hex2 b) | _ \<Rightarrow> None)"

fun palette_items :: "nat list \<Rightarrow> nat list \<Rightarrow> (int \<times> string) list option" where
  "palette_items raw [] = Some []"
| "palette_items raw (i # is) = (case (palette_fill raw i, palette_items raw is) of
     (Some f, Some items) \<Rightarrow> Some ((int i, f) # items) | _ \<Rightarrow> None)"

text \<open>\<open>colors\<close> is what \<open>getcolors\<close> gives, pairs of a count and an index.\<close>

definition found_palette :: "nat list \<Rightarrow> (nat \<times> nat) list \<Rightarrow> (int, string) dict option" where
  "found_palette raw colors = map_option (dict_of fst snd) (palette_items raw (take 16 (sort (map snd colors))))"

lemma hex_char_0: "hex_char 0 = CHR ''0''"
  by code_simp

lemma hex_digits_byte: "n < 256 \<Longrightarrow> hex2 n = [hex_char (n div 16), hex_char (n mod 16)]"
  by (auto simp: hex2_def hex_digits.simps [of n] hex_digits.simps [of "n div 16"] hex_char_0)

lemma hex_value_char: "n < 16 \<Longrightarrow> hex_value (hex_char n) = Some (int n)"
  by (auto simp: hex_value_def hex_char_def Let_def)

lemma hex2_pair:
  assumes "n < 256" shows "hex2 n = [hex_char (n div 16), hex_char (n mod 16)]"
    and "hex_pair (hex_char (n div 16)) (hex_char (n mod 16)) = int n"
    and "hex_value (hex_char (n div 16)) = Some (int (n div 16))" and "hex_value (hex_char (n mod 16)) = Some (int (n mod 16))"
proof -
  have d: "n div 16 < 16" "n mod 16 < 16" using assms by auto
  show "hex2 n = [hex_char (n div 16), hex_char (n mod 16)]" by (rule hex_digits_byte [OF assms])
  have "int (n div 16) * 16 + int (n mod 16) = int n" by presburger
  then show "hex_pair (hex_char (n div 16)) (hex_char (n mod 16)) = int n"
    by (simp add: hex_pair_def hex_value_char [OF d(1)] hex_value_char [OF d(2)])
  show "hex_value (hex_char (n div 16)) = Some (int (n div 16))" "hex_value (hex_char (n mod 16)) = Some (int (n mod 16))"
    by (rule hex_value_char [OF d(1)], rule hex_value_char [OF d(2)])
qed

text \<open>What the client prints as a fill is a colour that \<open>svg.colorize\<close> accepts, and it is the entry's own.\<close>

lemma palette_fill_colour:
  assumes "palette_fill raw i = Some f" and "\<forall>n \<in> set raw. n < 256"
  shows "fill_ok f" and "hex_color f = Some (int (raw ! (i * 3)), int (raw ! (i * 3 + 1)), int (raw ! (i * 3 + 2)))"
proof -
  obtain r g b where t: "take 3 (drop (i * 3) raw) = [r, g, b]" and f: "f = CHR ''#'' # hex2 r @ hex2 g @ hex2 b"
    using assms(1) by (auto simp: palette_fill_def split: list.splits)
  have "set [r, g, b] \<subseteq> set raw" unfolding t [symmetric] by (meson order_trans set_drop_subset set_take_subset)
  then have n: "r < 256" "g < 256" "b < 256" using assms(2) by auto
  note h = hex2_pair [OF n(1)] hex2_pair [OF n(2)] hex2_pair [OF n(3)]
  have len: "i * 3 + 3 \<le> length raw" using arg_cong [OF t, of length] by simp
  have nth: "raw ! (i * 3 + k) = [r, g, b] ! k" if "k < 3" for k
    unfolding t [symmetric] using that len by simp
  show "fill_ok f" unfolding f by (simp add: fill_ok_def h)
  show "hex_color f = Some (int (raw ! (i * 3)), int (raw ! (i * 3 + 1)), int (raw ! (i * 3 + 2)))"
    using nth [of 0] nth [of 1] nth [of 2] unfolding f by (simp add: hex_color_def h)
qed

lemma palette_items_in: "palette_items raw is = Some items \<Longrightarrow> (k, f) \<in> set items \<Longrightarrow> \<exists>i \<in> set is. k = int i \<and> palette_fill raw i = Some f"
  by (induction raw "is" arbitrary: items rule: palette_items.induct) (auto split: option.splits)

lemma palette_items_length: "palette_items raw is = Some items \<Longrightarrow> length items = length is"
  by (induction raw "is" arbitrary: items rule: palette_items.induct) (auto split: option.splits)

theorem found_palette_ok:
  assumes "found_palette raw colors = Some palette" and "\<forall>n \<in> set raw. n < 256"
  shows "dict_ok palette" and "colors \<noteq> [] \<Longrightarrow> palette \<noteq> []" and "length palette \<le> 16"
    and "(k, f) \<in> set palette \<Longrightarrow> fill_ok f \<and> (\<exists>c i. (c, i) \<in> set colors \<and> k = int i \<and>
      hex_color f = Some (int (raw ! (i * 3)), int (raw ! (i * 3 + 1)), int (raw ! (i * 3 + 2))))"
proof -
  let ?is = "take 16 (sort (map snd colors))"
  obtain items where i: "palette_items raw ?is = Some items" "palette = dict_of fst snd items"
    using assms(1) by (auto simp: found_palette_def)
  show "dict_ok palette" unfolding i(2) by simp
  have len: "length items = min (length colors) 16" using palette_items_length [OF i(1)] by simp
  have keys: "set (dict_keys palette) = fst ` set items"
    using dict_of_dom [of fst snd items] unfolding i(2) set_map dom_map_of_conv_image_fst [symmetric] dom_def by auto
  show "palette \<noteq> []" if "colors \<noteq> []"
  proof -
    have "items \<noteq> []" using len that by (cases colors; cases items) simp_all
    then show ?thesis using keys by auto
  qed
  have "length palette = card (fst ` set items)"
    using \<open>dict_ok palette\<close> unfolding keys [symmetric] dict_ok_def by (metis distinct_card length_map)
  also have "\<dots> \<le> length items" by (metis card_length list.set_map length_map)
  finally show "length palette \<le> 16" using len by simp
  show "fill_ok f \<and> (\<exists>c i. (c, i) \<in> set colors \<and> k = int i \<and>
      hex_color f = Some (int (raw ! (i * 3)), int (raw ! (i * 3 + 1)), int (raw ! (i * 3 + 2))))" if kf: "(k, f) \<in> set palette"
  proof -
    have "dict_get palette k = Some f" using kf \<open>dict_ok palette\<close> by (simp add: dict_ok_def)
    then have "(k, f) \<in> set items" unfolding i(2) by (auto dest: dict_of_get_in)
    then obtain i where u: "i \<in> set ?is" "k = int i" "palette_fill raw i = Some f" using palette_items_in [OF i(1)] by blast
    have "i \<in> snd ` set colors" using u(1) by (auto dest: in_set_takeD)
    then show ?thesis using palette_fill_colour [OF u(3) assms(2)] u(2) by force
  qed
qed

section \<open>The graph that posterizes only\<close>

definition post_graph :: "string \<Rightarrow> json" where
  "post_graph payload_id = JObj
     [(''nodes'', JArr [node_to_json post_node]),
      (''bindings'', JArr [JObj [(''payload'', JStr payload_id), (''node'', JStr ''post''), (''port'', JStr ''image'')]]),
      (''outputs'', JArr [JObj [(''node'', JStr ''post''), (''port'', JStr ''image'')]])]"

theorem post_accepted:
  assumes core: "default_registry E = Inr reg" and pl: "get_payload ses payload_id = Some p" "pl_type p = raster_png"
  shows "\<exists>g. parse_graph (post_graph payload_id) = Inr g \<and> validate_graph g reg ses = []"
proof -
  note off = core_offers [OF core]
  have n: "nd_id post_node = ''post''" "nd_module post_node = ''image.posterize''" by (simp_all add: post_node_def)
  have "gives reg [post_node] (nd_id post_node) ''image'' raster_png" by (rule offers_gives) (use off(1) n in auto)
  then have "validate_graph \<lparr>g_nodes = [post_node], g_edges = [], g_bindings = [\<lparr>b_payload = payload_id, b_node = ''post'', b_port = ''image''\<rparr>],
      g_outputs = [\<lparr>o_node = ''post'', o_port = ''image'', o_group = None\<rparr>], g_groups = []\<rparr> reg ses = []"
    using pl wired_single [of reg post_node "''image''" _ payload_id] off(1) n by (intro wired_valid) auto
  then show ?thesis by (simp add: post_graph_def parse_fields) (simp add: parse_item_defs)
qed

section \<open>Polling a job\<close>

datatype poll_end = StillPolling | PollDone nat | PollRaised string

text \<open>\<open>timed_job\<close>: the documents that the server answers, one per poll, until one is terminal.\<close>

fun poll_job :: "nat \<Rightarrow> json list \<Rightarrow> poll_end" where
  "poll_job n [] = StillPolling"
| "poll_job n (v # vs) =
     (case (case v of JObj d \<Rightarrow> dict_get d ''status'' | _ \<Rightarrow> None) of
        None \<Rightarrow> PollRaised ''KeyError''
      | Some st \<Rightarrow>
          (if st \<in> {JStr ''completed'', JStr ''failed'', JStr ''cancelled''}
           then (if st = JStr ''completed'' then PollDone n else PollRaised ''AssertionError'')
           else poll_job (Suc n) vs))"

text \<open>The documents of a job are polled until the first terminal status, and the client goes on
  exactly when that is completed.\<close>

theorem poll_job_docs:
  "poll_job n (map job_to_json js) = (case dropWhile (\<lambda>j. j_status j \<notin> terminal) js of
     [] \<Rightarrow> StillPolling
   | j # rest \<Rightarrow> (if j_status j = Completed then PollDone (n + length (takeWhile (\<lambda>j. j_status j \<notin> terminal) js))
       else PollRaised ''AssertionError''))"
proof (induction js arbitrary: n)
  case (Cons j js)
  have "(case job_to_json j of JObj d \<Rightarrow> dict_get d ''status'' | _ \<Rightarrow> None) = Some (JStr (status_text (j_status j)))"
    by (simp add: job_to_json_def)
  moreover have "status_text (j_status j) \<in> {''completed'', ''failed'', ''cancelled''} \<longleftrightarrow> j_status j \<in> terminal"
      "status_text (j_status j) = ''completed'' \<longleftrightarrow> j_status j = Completed"
    by (cases "j_status j"; simp add: status_text_def terminal_def)+
  moreover have "Completed \<in> terminal" by (simp add: terminal_def)
  ultimately show ?case
    using Cons [of "Suc n"]
    by (cases "j_status j \<in> terminal"; cases "dropWhile (\<lambda>j. j_status j \<notin> terminal) js")
      (simp_all del: dropWhile_eq_Nil_conv)
qed simp

text \<open>The loop that waits for the posterized image ends on a completed job only.\<close>

fun await_completed :: "nat \<Rightarrow> json list \<Rightarrow> poll_end" where
  "await_completed n [] = StillPolling"
| "await_completed n (v # vs) =
     (case (case v of JObj d \<Rightarrow> dict_get d ''status'' | _ \<Rightarrow> None) of
        None \<Rightarrow> PollRaised ''KeyError''
      | Some st \<Rightarrow> (if st = JStr ''completed'' then PollDone n else await_completed (Suc n) vs))"

text \<open>A job that failed or was cancelled keeps its status, so the client polls it for ever, where
  \<open>timed_job\<close> raises.\<close>

theorem await_completed_stuck:
  assumes "\<forall>j \<in> set js. j_status j \<in> {Failed, Cancelled}"
  shows "await_completed n (map job_to_json js) = StillPolling"
    and "js \<noteq> [] \<Longrightarrow> poll_job n (map job_to_json js) = PollRaised ''AssertionError''"
proof -
  show "await_completed n (map job_to_json js) = StillPolling"
    using assms
  proof (induction js arbitrary: n)
    case (Cons j js)
    have "(case job_to_json j of JObj d \<Rightarrow> dict_get d ''status'' | _ \<Rightarrow> None) = Some (JStr (status_text (j_status j)))"
      by (simp add: job_to_json_def)
    moreover have "status_text (j_status j) \<noteq> ''completed''" using Cons.prems by (auto simp: status_text_def)
    ultimately show ?case using Cons by simp
  qed simp
  show "poll_job n (map job_to_json js) = PollRaised ''AssertionError''" if "js \<noteq> []"
    using that assms unfolding poll_job_docs by (cases js) (auto simp: terminal_def)
qed

section \<open>The separation of the palette that was found\<close>

theorem found_separation_accepted:
  assumes "default_registry E = Inr reg" and "get_payload ses payload_id = Some p" and "pl_type p = raster_png"
    and "found_palette raw colors = Some palette" and "\<forall>n \<in> set raw. n < 256" and "colors \<noteq> []"
  shows "\<exists>v g. build_graph payload_id palette salt = Some v \<and> parse_graph v = Inr g \<and> validate_graph g reg ses = [] \<and>
    length (g_nodes g) \<le> 64 \<and> (\<forall>(k, f) \<in> set palette. fill_ok f)"
proof -
  note ok = found_palette_ok [OF assms(4,5)]
  from separation_accepted [OF assms(1) ok(2) [OF assms(6)] ok(1) assms(2,3), of salt]
  obtain v g where "build_graph payload_id palette salt = Some v" "parse_graph v = Inr g" "validate_graph g reg ses = []"
      "length (g_nodes g) = 4 * length palette" by blast
  then show ?thesis using ok(3,4) by (intro exI conjI) auto
qed

end
