(* ===== verification/Launch.thy ===== *)
theory Launch
  imports Server
begin

text \<open>
  The start of the server: \<open>main\<close> of \<^verbatim>\<open>cli.py\<close>, and \<open>start_server\<close> of \<^verbatim>\<open>scripts/bench_baseline.py\<close>, which
  starts it as a process and finds its address in what it prints. \<open>bind\<close> is the operating system's
  answer to binding a socket of a family to a host and a port: an error or the port that was bound.
\<close>

section \<open>\<open>main\<close>\<close>

datatype start_outcome = ExitCode nat | StartRaised string | Serving server nat

text \<open>\<open>f"\{exc\}"\<close> of the error of \<open>validate\<close>, with the \<open>repr\<close> of the host.\<close>

definition config_error_text :: "(string \<Rightarrow> string) \<Rightarrow> config_error \<Rightarrow> string" where
  "config_error_text py_repr e = (case e of NotLoopback host \<Rightarrow>
     ''refusing to bind non-loopback interface '' @ py_repr host @ '' without an '' @
     ''explicitly configured token (--token or FORMSHIFT_TOKEN)'')"

definition socket_family :: "string \<Rightarrow> string" where
  "socket_family host = (if CHR '':'' \<in> set host then ''AF_INET6'' else ''AF_INET'')"

definition listening_line :: "string \<Rightarrow> nat \<Rightarrow> string" where
  "listening_line host port = ''formshift-server listening on http://'' @ host @ '':'' @ show_nat port"

definition token_line :: "string \<Rightarrow> string" where
  "token_line token = ''token: '' @ token"

text \<open>What goes to standard output and standard error, line by line, and how the start ends.
  \<open>ext_text\<close> is the text of an error of \<open>create_app\<close>.\<close>

definition cli_main ::
  "(string \<Rightarrow> string) \<Rightarrow> (ext_error \<Rightarrow> string) \<Rightarrow> server_env \<Rightarrow> registry \<Rightarrow> (string, ext_dir) dict \<Rightarrow>
     (string \<Rightarrow> string \<Rightarrow> int \<Rightarrow> string + nat) \<Rightarrow> string \<Rightarrow> cli_args \<Rightarrow> string option \<Rightarrow>
     string list \<times> string list \<times> start_outcome" where
  "cli_main py_repr ext_text env reg disk bind generated args env_token =
     (case build_config generated args env_token of
        Inl e \<Rightarrow> ([], [''error: '' @ config_error_text py_repr e], ExitCode 2)
      | Inr config \<Rightarrow> (case create_app env config reg disk of
          Inl e \<Rightarrow> ([], [], StartRaised (ext_text e))
        | Inr sv \<Rightarrow> (case bind (socket_family (c_host config)) (c_host config) (c_port config) of
            Inl e \<Rightarrow> ([], [], StartRaised e)
          | Inr actual_port \<Rightarrow>
              ([listening_line (c_host config) actual_port, token_line (c_token config)], [], Serving sv actual_port))))"

section \<open>\<open>start_server\<close>\<close>

definition contains :: "string \<Rightarrow> string \<Rightarrow> bool" where
  "contains part s \<longleftrightarrow> list_ex (\<lambda>i. take (length part) (drop i s) = part) [0..<Suc (length s)]"

text \<open>\<open>s.rsplit(" ", 1)[-1]\<close>: what follows the last space, the whole text without one.\<close>

definition after_last_space :: "string \<Rightarrow> string" where
  "after_last_space s = rev (takeWhile (\<lambda>c. c \<noteq> CHR '' '') (rev s))"

text \<open>The lines that are read until the deadline; an empty address makes \<open>start_server\<close> raise.\<close>

fun scan_startup :: "string list \<Rightarrow> string \<Rightarrow> string" where
  "scan_startup [] base_url = base_url"
| "scan_startup (line # ls) base_url =
     (let url = (if contains ''listening on'' line then after_last_space (py_strip line) else base_url) in
      if contains ''Application startup complete'' line then url else scan_startup ls url)"

definition start_server :: "string list \<Rightarrow> string option" where
  "start_server ls = (case scan_startup ls [] of [] \<Rightarrow> None | url \<Rightarrow> Some url)"

definition bench_token :: string where
  "bench_token = ''bench-token''"

text \<open>The arguments \<open>--port 0 --token bench-token\<close>, with the workers of \<open>extra_args\<close>.\<close>

definition bench_args :: "int option \<Rightarrow> cli_args" where
  "bench_args workers = default_args\<lparr>a_port := 0, a_token := Some bench_token, a_workers := workers\<rparr>"

text \<open>The headers of the client's requests: the host of the address and the bearer token.\<close>

definition bench_request :: "string \<Rightarrow> string \<Rightarrow> request" where
  "bench_request base_url path = \<lparr>rq_host = strip_prefix ''http://'' base_url, rq_origin = None, rq_path = path,
     rq_auth = Some (''Bearer '' @ bench_token)\<rparr>"

section \<open>The client finds the server\<close>

lemma contains_append: "contains part (s @ part @ t)"
proof -
  have "take (length part) (drop (length s) (s @ part @ t)) = part" by simp
  then show ?thesis unfolding contains_def list_ex_iff by (metis add.commute atLeastLessThan_iff le0 le_imp_less_Suc length_append nat_le_linear set_upt trans_le_add2 le_add1)
qed

lemma after_last_space_eq: "CHR '' '' \<notin> set t \<Longrightarrow> after_last_space (s @ CHR '' '' # t) = t"
  unfolding after_last_space_def by (induction t rule: rev_induct) (auto simp: takeWhile_append)

text \<open>A line of the output ends with a newline, which \<open>strip\<close> drops.\<close>

definition printed :: "string list \<Rightarrow> string list" where
  "printed = map (\<lambda>l. l @ [CHR 0x0A])"

lemma no_trailing: "\<not> py_space (last s) \<Longrightarrow> s \<noteq> [] \<Longrightarrow> dropWhile py_space (rev s) = rev s"
  by (cases s rule: rev_cases) auto

lemma strip_line:
  assumes "\<not> py_space (hd s)" and "\<not> py_space (last s)" and "s \<noteq> []"
  shows "py_strip (s @ [CHR 0x0A]) = s"
proof -
  obtain a t where s: "s = a # t" using assms(3) by (cases s) auto
  have "dropWhile py_space (s @ [CHR 0x0A]) = s @ [CHR 0x0A]" using assms(1) by (simp add: s)
  moreover have "py_space (CHR 0x0A)" by (simp add: py_space_def)
  moreover have "dropWhile py_space (rev s) = rev s"
    by (rule no_trailing [OF assms(2,3)])
  ultimately show ?thesis by (simp add: py_strip_def)
qed

lemma digit_plain: "is_digit c \<Longrightarrow> \<not> py_space c \<and> c \<noteq> CHR '' '' \<and> c \<noteq> CHR '':''"
  by (auto simp: is_digit_def py_space_def)

lemma show_nat_plain: "c \<in> set (show_nat n) \<Longrightarrow> \<not> py_space c \<and> c \<noteq> CHR '' '' \<and> c \<noteq> CHR '':''"
  using show_nat_digits digit_plain by blast

lemma listening_found:
  assumes "CHR '' '' \<notin> set host"
  shows "contains ''listening on'' (listening_line host port @ [CHR 0x0A])"
    and "after_last_space (py_strip (listening_line host port @ [CHR 0x0A])) = ''http://'' @ host @ '':'' @ show_nat port"
proof -
  have "listening_line host port @ [CHR 0x0A] =
      ''formshift-server '' @ ''listening on'' @ ('' http://'' @ host @ '':'' @ show_nat port @ [CHR 0x0A])"
    by (simp add: listening_line_def)
  then show "contains ''listening on'' (listening_line host port @ [CHR 0x0A])" by (simp only: contains_append)
  have "last (listening_line host port) \<in> set (show_nat port)" by (simp add: listening_line_def)
  then have "\<not> py_space (last (listening_line host port))" using show_nat_plain by blast
  moreover have "\<not> py_space (hd (listening_line host port))" by (simp add: listening_line_def py_space_def)
  moreover have "listening_line host port \<noteq> []" by (simp add: listening_line_def)
  ultimately have "py_strip (listening_line host port @ [CHR 0x0A]) = listening_line host port" by (intro strip_line)
  moreover have "listening_line host port = ''formshift-server listening on'' @ CHR '' '' # (''http://'' @ host @ '':'' @ show_nat port)"
    by (simp add: listening_line_def)
  moreover have "CHR '' '' \<notin> set (''http://'' @ host @ '':'' @ show_nat port)" using assms show_nat_plain by fastforce
  ultimately show "after_last_space (py_strip (listening_line host port @ [CHR 0x0A])) = ''http://'' @ host @ '':'' @ show_nat port"
    using after_last_space_eq by metis
qed

lemma scan_startup_keeps:
  "list_all (\<lambda>l. \<not> contains ''listening on'' l) ls \<Longrightarrow> scan_startup ls url = url"
  by (induction ls) simp_all

lemma build_config_bench:
  "build_config generated (bench_args workers) env_token = Inr c \<Longrightarrow> c_host c = ''127.0.0.1'' \<and> c_port c = 0 \<and>
     c_token c = bench_token \<and> c_allowed c = default_allowed_hosts \<and> c_workers c = workers"
  by (auto simp: build_config_def bench_args_def default_args_def py_or_def bench_token_def Let_def split: option.splits)

lemma create_app_config: "create_app env config reg disk = Inr sv \<Longrightarrow> sv_config sv = config"
  by (auto simp: create_app_def Let_def split: if_splits sum.splits prod.splits)

lemma cli_main_serves:
  assumes "cli_main pr et env reg disk bind generated args env_token = (out, err, Serving sv port)"
  shows "\<exists>c. build_config generated args env_token = Inr c \<and> create_app env c reg disk = Inr sv \<and>
    bind (socket_family (c_host c)) (c_host c) (c_port c) = Inr port \<and>
    out = [listening_line (c_host c) port, token_line (c_token c)] \<and> err = []"
  using assms by (auto simp: cli_main_def split: sum.splits)

lemma bench_admitted:
  assumes "c_token c = bench_token" and "c_allowed c = default_allowed_hosts"
  shows "guard c (bench_request (''http://127.0.0.1:'' @ show_nat port) path) = Admitted"
proof -
  let ?h = "''127.0.0.1:'' @ show_nat port"
  have hd: "hd ?h = CHR ''1''" by simp
  have "last ?h \<in> set (show_nat port)" by simp
  then have l: "\<not> py_space (last ?h)" using show_nat_plain by blast
  have st: "py_strip ?h = ?h"
  proof -
    have "dropWhile py_space (rev ?h) = rev ?h" by (rule no_trailing) (use l in auto)
    moreover have "dropWhile py_space ?h = ?h" by (simp add: py_space_def)
    ultimately show ?thesis by (simp add: py_strip_def)
  qed
  have "before_last CHR '':'' (''127.0.0.1'' @ CHR '':'' # show_nat port) = ''127.0.0.1''"
    using show_nat_plain by (intro before_last_append) blast
  then have "hostname_of ?h = ''127.0.0.1''" unfolding hostname_of_def Let_def st by simp
  moreover have "strip_prefix ''http://'' (''http://127.0.0.1:'' @ show_nat port) = Some ?h" by (simp add: strip_prefix_def)
  moreover have low: "py_lower ''Bearer'' = ''bearer''" by code_simp
  moreover have "check_token c (bench_request u path) = Admitted" for u
    using assms(1) low by (simp add: check_token_def bench_request_def header_or_empty_def bench_token_def before_def after_def
        compare_digest_def ascii_def py_strip_def py_space_def)
  moreover have "rq_host (bench_request u path) = strip_prefix ''http://'' u" "rq_origin (bench_request u path) = None" for u
    by (simp_all add: bench_request_def)
  ultimately show ?thesis
    using assms(2) unfolding guard_def header_or_empty_def default_allowed_hosts_def by simp
qed

theorem launch_found:
  assumes run: "cli_main pr et env reg disk bind generated (bench_args workers) env_token = (out, err, Serving sv port)"
    and logs: "list_all (\<lambda>l. \<not> contains ''listening on'' l) logs"
  shows "\<exists>url. start_server (printed out @ logs) = Some url \<and> url = ''http://127.0.0.1:'' @ show_nat port \<and>
    (\<forall>path. guard (sv_config sv) (bench_request url path) = Admitted)"
proof -
  obtain c where c: "build_config generated (bench_args workers) env_token = Inr c" "create_app env c reg disk = Inr sv"
      "out = [listening_line (c_host c) port, token_line (c_token c)]"
    using cli_main_serves [OF run] by blast
  note b = build_config_bench [OF c(1)]
  have nsp: "CHR '' '' \<notin> set ''127.0.0.1''" by simp
  have tok: "\<not> contains ''listening on'' (token_line bench_token @ [CHR 0x0A])" by code_simp
  have "scan_startup (printed out @ logs) [] = ''http://127.0.0.1:'' @ show_nat port"
    using listening_found [OF nsp, of port] tok scan_startup_keeps [OF logs] b c(3)
    by (simp add: printed_def Let_def)
  then show ?thesis using bench_admitted [of "sv_config sv"] create_app_config [OF c(2)] b by (simp add: start_server_def)
qed

section \<open>The workers of a job\<close>

text \<open>\<open>workers\<close> of the configuration, or \<open>default_workers()\<close>: the number of processors that the operating
  system reports, 4 without one.\<close>

definition default_workers :: "nat option \<Rightarrow> int" where
  "default_workers cpu_count = (case cpu_count of None \<Rightarrow> 4 | Some n \<Rightarrow> if n = 0 then 4 else int n)"

definition max_workers :: "nat option \<Rightarrow> int option \<Rightarrow> int" where
  "max_workers cpu_count workers = (case workers of Some w \<Rightarrow> w | None \<Rightarrow> default_workers cpu_count)"

text \<open>The server that the benchmark starts with \<open>--workers 1\<close> runs one node at a time, and without the
  option every reported processor gets a node.\<close>

lemma bench_pool:
  assumes "build_config generated (bench_args workers) env_token = Inr c"
    and "e_workers env = max_workers cpu_count (c_workers c)"
  shows "workers = Some 1 \<Longrightarrow> pool_size env = 1"
    and "workers = None \<Longrightarrow> cpu_count = Some (Suc n) \<Longrightarrow> pool_size env = Suc n"
  using assms build_config_bench [OF assms(1)]
  by (simp_all add: pool_size_def max_workers_def default_workers_def)

end
