(* ===== verification/Runner.thy ===== *)
theory Runner
  imports Worker EventLog
begin

text \<open>
  The rest of \<^verbatim>\<open>extension_runner.py\<close>: the file descriptors of the runner's process and the channel
  that \<open>serve\<close> claims for its replies, so that nothing an extension prints gets among them; and the
  module search path. A descriptor names a channel; \<open>io_sent\<close> and \<open>io_log\<close> are what was written to
  the pipe of the replies and to the standard error of the process.
\<close>

datatype channel = InPipe | ReplyPipe | ErrorLog

record proc_io =
  io_fds :: "(nat, channel) dict"
  io_limit :: nat
  io_stdout :: nat
  io_stderr :: nat
  io_sent :: string
  io_log :: string

text \<open>How the worker starts a runner: descriptors 0, 1 and 2, and \<open>sys.stdout\<close> and \<open>sys.stderr\<close> on the last two.\<close>

definition runner_io :: "nat \<Rightarrow> proc_io" where
  "runner_io limit = \<lparr>io_fds = [(0, InPipe), (1, ReplyPipe), (2, ErrorLog)], io_limit = limit, io_stdout = 1, io_stderr = 2,
     io_sent = [], io_log = []\<rparr>"

text \<open>\<open>os.dup\<close> gives the least free descriptor below the limit of the process, \<open>os.dup2\<close> redirects one;
  \<open>None\<close> is an \<open>OSError\<close>.\<close>

definition os_dup :: "nat \<Rightarrow> proc_io \<Rightarrow> (nat \<times> proc_io) option" where
  "os_dup fd io = (case dict_get (io_fds io) fd of
     None \<Rightarrow> None
   | Some ch \<Rightarrow> (case filter (\<lambda>n. dict_get (io_fds io) n = None) [0..<io_limit io] of
       [] \<Rightarrow> None | n # ns \<Rightarrow> Some (n, io\<lparr>io_fds := dict_set n ch (io_fds io)\<rparr>)))"

definition os_dup2 :: "nat \<Rightarrow> nat \<Rightarrow> proc_io \<Rightarrow> proc_io option" where
  "os_dup2 fd fd2 io = (case dict_get (io_fds io) fd of
     None \<Rightarrow> None | Some ch \<Rightarrow> Some (io\<lparr>io_fds := dict_set fd2 ch (io_fds io)\<rparr>))"

definition claim_channel :: "proc_io \<Rightarrow> (nat \<times> proc_io) option" where
  "claim_channel io = (case os_dup (io_stdout io) io of
     None \<Rightarrow> None
   | Some (protocol, io1) \<Rightarrow> (case os_dup2 (io_stderr io1) (io_stdout io1) io1 of
       None \<Rightarrow> None | Some io2 \<Rightarrow> Some (protocol, io2\<lparr>io_stdout := io_stderr io2\<rparr>)))"

definition write_fd :: "nat \<Rightarrow> string \<Rightarrow> proc_io \<Rightarrow> proc_io" where
  "write_fd fd s io = (case dict_get (io_fds io) fd of
     Some ReplyPipe \<Rightarrow> io\<lparr>io_sent := io_sent io @ s\<rparr>
   | Some ErrorLog \<Rightarrow> io\<lparr>io_log := io_log io @ s\<rparr>
   | _ \<Rightarrow> io)"

text \<open>What the code of an extension writes while it serves a request: through \<open>sys.stdout\<close>, or to a
  descriptor as a native library does.\<close>

datatype ext_write = Print string | Native nat string

fun extension_writes :: "ext_write list \<Rightarrow> proc_io \<Rightarrow> proc_io" where
  "extension_writes [] io = io"
| "extension_writes (Print s # ws) io = extension_writes ws (write_fd (io_stdout io) s io)"
| "extension_writes (Native fd s # ws) io = extension_writes ws (write_fd fd s io)"

text \<open>The loop of \<open>serve\<close> over the claimed channel; \<open>emits\<close> is what the extension writes for a line.\<close>

fun serve_lines ::
  "(string \<Rightarrow> string option) \<Rightarrow> (string \<Rightarrow> ext_write list) \<Rightarrow> nat \<Rightarrow> string list \<Rightarrow> proc_io \<Rightarrow> proc_io" where
  "serve_lines reply emits protocol [] io = io"
| "serve_lines reply emits protocol (l # ls) io = (case reply l of
     None \<Rightarrow> serve_lines reply emits protocol ls io
   | Some r \<Rightarrow> serve_lines reply emits protocol ls (write_fd protocol r (extension_writes (emits l) io)))"

definition serve_process ::
  "(string \<Rightarrow> string option) \<Rightarrow> (string \<Rightarrow> ext_write list) \<Rightarrow> string list \<Rightarrow> proc_io \<Rightarrow> proc_io option" where
  "serve_process reply emits ls io =
     (case claim_channel io of None \<Rightarrow> None | Some (protocol, io') \<Rightarrow> Some (serve_lines reply emits protocol ls io'))"

text \<open>The directory of the extension's code is put in front of \<open>sys.path\<close> once.\<close>

definition add_path :: "string \<Rightarrow> string list \<Rightarrow> string list" where
  "add_path src path = (if src \<notin> set path then src # path else path)"

lemma add_path_twice: "add_path src (add_path src path) = add_path src path"
  by (simp add: add_path_def)

section \<open>The claimed channel\<close>

definition writes_text :: "ext_write list \<Rightarrow> string" where
  "writes_text ws = concat (map (\<lambda>w. case w of Print s \<Rightarrow> s | Native fd s \<Rightarrow> s) ws)"

text \<open>After the claim only the protocol's descriptor leads to the pipe of the replies.\<close>

definition claimed :: "nat \<Rightarrow> proc_io \<Rightarrow> bool" where
  "claimed p io \<longleftrightarrow> (\<forall>fd. dict_get (io_fds io) fd = Some ReplyPipe \<longleftrightarrow> fd = p) \<and>
     dict_get (io_fds io) (io_stdout io) = Some ErrorLog \<and> dict_get (io_fds io) 1 = Some ErrorLog \<and>
     dict_get (io_fds io) 2 = Some ErrorLog"

definition plain_write :: "ext_write \<Rightarrow> bool" where
  "plain_write w \<longleftrightarrow> (case w of Print s \<Rightarrow> True | Native fd s \<Rightarrow> fd \<in> {1, 2})"

lemma write_fd_fields [simp]:
  "io_fds (write_fd fd s io) = io_fds io" "io_stdout (write_fd fd s io) = io_stdout io"
  by (simp_all add: write_fd_def split: option.splits channel.splits)

lemma claimed_write [simp]: "claimed p (write_fd fd s io) = claimed p io"
  by (simp add: claimed_def)

lemma write_reply: "claimed p io \<Longrightarrow> write_fd p s io = io\<lparr>io_sent := io_sent io @ s\<rparr>"
proof -
  assume "claimed p io"
  then have "dict_get (io_fds io) p = Some ReplyPipe" unfolding claimed_def by blast
  then show ?thesis by (simp add: write_fd_def)
qed

lemma claimed_writes:
  "claimed p io \<Longrightarrow> list_all plain_write ws \<Longrightarrow>
     extension_writes ws io = io\<lparr>io_log := io_log io @ writes_text ws\<rparr>"
proof (induction ws io rule: extension_writes.induct)
  case (2 s ws io)
  have "write_fd (io_stdout io) s io = io\<lparr>io_log := io_log io @ s\<rparr>"
    using "2.prems"(1) by (simp add: claimed_def write_fd_def)
  moreover have "claimed p (io\<lparr>io_log := io_log io @ s\<rparr>)" using "2.prems"(1) by (simp add: claimed_def)
  ultimately show ?case using "2.IH" "2.prems"(2) by (simp add: writes_text_def)
next
  case (3 fd s ws io)
  have "write_fd fd s io = io\<lparr>io_log := io_log io @ s\<rparr>"
    using "3.prems" by (auto simp: claimed_def write_fd_def plain_write_def)
  moreover have "claimed p (io\<lparr>io_log := io_log io @ s\<rparr>)" using "3.prems"(1) by (simp add: claimed_def)
  ultimately show ?case using "3.IH" "3.prems"(2) by (simp add: writes_text_def)
qed (simp add: writes_text_def)

lemma claimed_same: "io_fds io' = io_fds io \<Longrightarrow> io_stdout io' = io_stdout io \<Longrightarrow> claimed p io' = claimed p io"
  by (simp add: claimed_def)

fun replies_of :: "(string \<Rightarrow> string option) \<Rightarrow> string list \<Rightarrow> string list" where
  "replies_of reply [] = []"
| "replies_of reply (l # ls) = (case reply l of None \<Rightarrow> replies_of reply ls | Some r \<Rightarrow> r # replies_of reply ls)"

lemma serve_replies: "serve fc xt entries ls = replies_of (runner_reply fc xt entries) ls"
  by (induction ls) (simp_all split: option.splits)

lemma serve_lines_claimed:
  "claimed p io \<Longrightarrow> (\<And>l. list_all plain_write (emits l)) \<Longrightarrow>
    io_sent (serve_lines reply emits p ls io) = io_sent io @ concat (replies_of reply ls) \<and>
    io_log (serve_lines reply emits p ls io) = io_log io @ concat (map (\<lambda>l. writes_text (emits l)) (filter (\<lambda>l. reply l \<noteq> None) ls))"
proof (induction reply emits p ls io rule: serve_lines.induct)
  case (2 reply emits p l ls io)
  show ?case
  proof (cases "reply l")
    case None
    then show ?thesis using 2 by simp
  next
    case (Some r)
    define io1 where "io1 = io\<lparr>io_log := io_log io @ writes_text (emits l)\<rparr>"
    define io2 where "io2 = io1\<lparr>io_sent := io_sent io1 @ r\<rparr>"
    have c: "claimed p io1" "claimed p io2"
      using "2.prems"(1) claimed_same [of io1 io p] claimed_same [of io2 io p] by (simp_all add: io1_def io2_def)
    have "write_fd p r (extension_writes (emits l) io) = io2"
      using claimed_writes [OF "2.prems"(1)] "2.prems"(2) write_reply [OF c(1)] by (simp add: io1_def io2_def)
    moreover have "io_sent io2 = io_sent io @ r" "io_log io2 = io_log io @ writes_text (emits l)"
      by (simp_all add: io1_def io2_def)
    ultimately show ?thesis using "2.IH"(2) [OF Some] c(2) Some "2.prems"(2) by simp
  qed
qed simp

lemma claim_claims:
  assumes "3 < limit"
  shows "\<exists>p io. claim_channel (runner_io limit) = Some (p, io) \<and> claimed p io \<and> io_sent io = [] \<and> io_log io = []"
proof -
  have "[0..<limit] = [0..<3] @ 3 # [4..<limit]"
    using upt_add_eq_append [of 0 3 "limit - 3"] upt_conv_Cons [of 3 limit] assms by simp
  moreover have "filter (\<lambda>n. dict_get (io_fds (runner_io limit)) n = None) [0..<3] = []"
    by (simp add: runner_io_def numeral_3_eq_3)
  moreover have "dict_get (io_fds (runner_io limit)) 3 = None" by (simp add: runner_io_def)
  ultimately obtain ns where ns: "filter (\<lambda>n. dict_get (io_fds (runner_io limit)) n = None) [0..<limit] = 3 # ns" by simp
  have f: "io_limit (runner_io limit) = limit" "dict_get (io_fds (runner_io limit)) 1 = Some ReplyPipe"
      "io_stdout (runner_io limit) = 1" by (simp_all add: runner_io_def)
  have "os_dup 1 (runner_io limit) = Some (3, (runner_io limit)\<lparr>io_fds := dict_set 3 ReplyPipe (io_fds (runner_io limit))\<rparr>)"
    unfolding os_dup_def f ns by simp
  then have "\<exists>io. claim_channel (runner_io limit) = Some (3, io) \<and> io_fds io = [(0, InPipe), (1, ErrorLog), (2, ErrorLog), (3, ReplyPipe)] \<and>
      io_stdout io = 2 \<and> io_sent io = [] \<and> io_log io = []"
    unfolding claim_channel_def f by (simp add: runner_io_def os_dup2_def)
  then show ?thesis by (fastforce simp: claimed_def)
qed

section \<open>What the server reads\<close>

text \<open>\<open>readline\<close> of the other end of the pipe.\<close>

definition readline :: "string \<Rightarrow> string \<times> string" where
  "readline s = (case dropWhile (\<lambda>c. c \<noteq> newline) s of
     [] \<Rightarrow> (s, []) | c # rest \<Rightarrow> (takeWhile (\<lambda>c. c \<noteq> newline) s @ [c], rest))"

fun readlines :: "nat \<Rightarrow> string \<Rightarrow> string list" where
  "readlines 0 s = []"
| "readlines (Suc n) s = (case readline s of (l, rest) \<Rightarrow> l # readlines n rest)"

lemma readline_line: "newline \<notin> set l \<Longrightarrow> readline (l @ newline # rest) = (l @ [newline], rest)"
  unfolding readline_def by (induction l) (auto split: list.splits)

lemma readlines_lines:
  "\<forall>r \<in> set rs. \<exists>l. r = l @ [newline] \<and> newline \<notin> set l \<Longrightarrow> readlines (length rs) (concat rs) = rs"
proof (induction rs)
  case (Cons r rs)
  then obtain l where "r = l @ [newline]" "newline \<notin> set l" by auto
  then show ?case using Cons readline_line [of l "concat rs"] by simp
qed simp

text \<open>The keys of the dict that an entry returns are distinct.\<close>

definition dict_entries :: "(string \<Rightarrow> string \<Rightarrow> string \<Rightarrow> string + entry) \<Rightarrow> bool" where
  "dict_entries entries \<longleftrightarrow> (\<forall>src md attr f ins ps draft os. entries src md attr = Inr f \<longrightarrow> f ins ps draft = Inr os \<longrightarrow>
     distinct (map fst os))"

lemma reply_is_line:
  assumes "dict_entries entries" and "runner_reply fc xt entries line = Some r"
  shows "\<exists>l. r = l @ [newline] \<and> newline \<notin> set l"
proof -
  obtain v where r: "r = dumps '', '' '': '' v @ [newline]" and v: "v = (case (case loads fc line of
        None \<Rightarrow> Inl (xt (JStr line)) | Some req \<Rightarrow> runner_run xt entries req) of
      Inl e \<Rightarrow> JObj [(''ok'', JBool False), (''error'', JStr e)] | Inr r \<Rightarrow> r)"
    using assms(2) by (auto simp: runner_reply_def newline_def split: if_splits)
  have run: "wf_json fc u" if u: "runner_run xt entries req = Inr u" for req u
  proof -
    obtain src md attr f ins ps draft os js where "entries src md attr = Inr f" "f ins ps draft = Inr os"
        "encode_outputs os = Inr js" "u = JObj [(''ok'', JBool True), (''outputs'', JObj js)]"
      using u unfolding runner_run_def by (auto simp: ebind_Inr split: json.splits option.splits prod.splits)
    then show ?thesis using assms(1) encode_outputs_keys encode_outputs_wf unfolding dict_entries_def by fastforce
  qed
  have "wf_json fc v" unfolding v using run by (auto split: option.splits sum.splits)
  then have "list_all printable (dumps '', '' '': '' v)"
    by (rule printable_dumps [rotated 2]) (simp_all add: printable_def)
  then show ?thesis using r printable_newline by blast
qed

theorem replies_reach_server:
  assumes "3 < limit" and "dict_entries entries" and "\<And>l. list_all plain_write (emits l)"
  shows "\<exists>io. serve_process (runner_reply fc xt entries) emits ls (runner_io limit) = Some io \<and>
    readlines (length (serve fc xt entries ls)) (io_sent io) = serve fc xt entries ls \<and>
    io_sent io = concat (serve fc xt entries ls) \<and>
    io_log io = concat (map (\<lambda>l. writes_text (emits l)) (filter (\<lambda>l. runner_reply fc xt entries l \<noteq> None) ls))"
proof -
  let ?reply = "runner_reply fc xt entries"
  obtain p io where c: "claim_channel (runner_io limit) = Some (p, io)" "claimed p io" "io_sent io = []" "io_log io = []"
    using claim_claims [OF assms(1)] by blast
  note s = serve_lines_claimed [OF c(2) assms(3), where reply = ?reply and ls = ls]
  have "\<exists>l. ?reply l = Some r" if "r \<in> set (replies_of ?reply ls)" for r
    using that by (induction ls) (auto split: option.splits)
  then have "readlines (length (serve fc xt entries ls)) (concat (serve fc xt entries ls)) = serve fc xt entries ls"
    unfolding serve_replies using reply_is_line [OF assms(2)] by (intro readlines_lines) blast
  with s c show ?thesis by (simp add: serve_process_def serve_replies)
qed

end
