(* ===== verification/RemoveBg.thy ===== *)
theory RemoveBg
  imports ExtManifest Values
begin

text \<open>
  The background-removal extension (\<^verbatim>\<open>extensions/background-removal\<close>): its entry with the cache of
  model sessions that lives as long as the worker's process, and its manifest. The rembg library
  is the record \<open>rembg\<close>: what creating a session and removing a background give or raise, and
  \<open>str\<close> of a param that is not a string.
\<close>

record 's rembg =
  rl_new :: "string \<Rightarrow> string + 's"
  rl_remove :: "bytes \<Rightarrow> 's \<Rightarrow> string + out_value"
  rl_str :: "json \<Rightarrow> string"

text \<open>\<open>_sessions\<close>, and the calls of \<open>new_session\<close> so far, each with whether it returned.\<close>

record 's rembg_state =
  rb_sessions :: "(string, 's) dict"
  rb_loads :: "(string \<times> bool) list"

definition rembg_start :: "'s rembg_state" where
  "rembg_start = \<lparr>rb_sessions = [], rb_loads = []\<rparr>"

definition removebg_model :: "'s rembg \<Rightarrow> params \<Rightarrow> string" where
  "removebg_model L ps = (case dict_get ps ''model'' of
     None \<Rightarrow> ''u2netp'' | Some (JStr s) \<Rightarrow> s | Some v \<Rightarrow> rl_str L v)"

definition load_session :: "'s rembg \<Rightarrow> string \<Rightarrow> 's rembg_state \<Rightarrow> (string + 's) \<times> 's rembg_state" where
  "load_session L model st = (case dict_get (rb_sessions st) model of
     Some s \<Rightarrow> (Inr s, st)
   | None \<Rightarrow> (case rl_new L model of
       Inl e \<Rightarrow> (Inl e, st\<lparr>rb_loads := rb_loads st @ [(model, False)]\<rparr>)
     | Inr s \<Rightarrow> (Inr s, \<lparr>rb_sessions = dict_set model s (rb_sessions st), rb_loads = rb_loads st @ [(model, True)]\<rparr>)))"

definition missing_key :: "string \<Rightarrow> string" where
  "missing_key k = ''KeyError: '' @ [CHR 0x27] @ k @ [CHR 0x27]"

definition removebg_run ::
  "'s rembg \<Rightarrow> (string, bytes) dict \<Rightarrow> params \<Rightarrow> bool \<Rightarrow> 's rembg_state \<Rightarrow>
     (string + (string \<times> string \<times> out_value) list) \<times> 's rembg_state" where
  "removebg_run L ins ps draft st = (case load_session L (removebg_model L ps) st of
     (Inl e, st') \<Rightarrow> (Inl e, st')
   | (Inr s, st') \<Rightarrow> (case dict_get ins ''image'' of
       None \<Rightarrow> (Inl (missing_key ''image''), st')
     | Some data \<Rightarrow> (case rl_remove L data s of
         Inl e \<Rightarrow> (Inl e, st')
       | Inr (OutOther cls) \<Rightarrow> (Inl ''AssertionError: '', st')
       | Inr (OutBytes b) \<Rightarrow> (Inr [(''image'', ''raster/png'', OutBytes b)], st'))))"

text \<open>The requests that one worker process serves, in their order.\<close>

fun removebg_serve ::
  "'s rembg \<Rightarrow> ((string, bytes) dict \<times> params \<times> bool) list \<Rightarrow> 's rembg_state \<Rightarrow>
     (string + (string \<times> string \<times> out_value) list) list \<times> 's rembg_state" where
  "removebg_serve L [] st = ([], st)"
| "removebg_serve L ((ins, ps, draft) # reqs) st = (case removebg_run L ins ps draft st of (r, st') \<Rightarrow>
     case removebg_serve L reqs st' of (rs, st'') \<Rightarrow> (r # rs, st''))"

text \<open>The file \<^verbatim>\<open>extension.toml\<close> as the document that \<open>tomllib\<close> gives.\<close>

definition removebg_toml :: toml_table where
  "removebg_toml =
     [(''extension'', TTab [(''name'', TStr ''background-removal''), (''version'', TStr ''0.1.0''),
        (''description'', TStr ''Salient-object background removal (rembg/U^2-Net), isolated from core''),
        (''isolation'', TStr ''isolated''), (''requirements'', TArr [TStr ''rembg[cpu]==2.0.76''])]),
      (''modules'', TArr [TTab [(''name'', TStr ''image.removebg''),
        (''description'', TStr ''Remove the background behind the salient object; RGBA PNG out''),
        (''entry'', TStr ''removebg:run''),
        (''inputs'', TArr [TTab [(''name'', TStr ''image''), (''type'', TStr ''raster/png'')]]),
        (''outputs'', TArr [TTab [(''name'', TStr ''image''), (''type'', TStr ''raster/png'')]])]])]"

section \<open>One session per model\<close>

definition rembg_inv :: "'s rembg \<Rightarrow> 's rembg_state \<Rightarrow> bool" where
  "rembg_inv L st \<longleftrightarrow> (\<forall>m s. dict_get (rb_sessions st) m = Some s \<longrightarrow> rl_new L m = Inr s) \<and>
     distinct (map fst (filter snd (rb_loads st))) \<and>
     (\<forall>m. (m, True) \<in> set (rb_loads st) \<longrightarrow> dict_get (rb_sessions st) m \<noteq> None)"

lemma rembg_inv_start: "rembg_inv L rembg_start"
  by (simp add: rembg_inv_def rembg_start_def)

lemma load_session_inv:
  assumes "rembg_inv L st" shows "rembg_inv L (snd (load_session L m st))"
  using assms by (auto simp: load_session_def rembg_inv_def split: option.splits sum.splits)

lemma load_session_new: "rembg_inv L st \<Longrightarrow> fst (load_session L m st) = rl_new L m"
  by (auto simp: load_session_def rembg_inv_def split: option.splits sum.splits)

lemma removebg_state: "snd (removebg_run L ins ps draft st) = snd (load_session L (removebg_model L ps) st)"
  by (auto simp: removebg_run_def split: prod.splits sum.splits option.splits out_value.splits)

text \<open>What a run gives does not depend on the runs before it.\<close>

lemma removebg_stateless:
  assumes "rembg_inv L st" shows "fst (removebg_run L ins ps draft st) = fst (removebg_run L ins ps draft rembg_start)"
proof -
  have "fst (load_session L m st) = fst (load_session L m rembg_start)" for m
    using load_session_new [OF assms] load_session_new [OF rembg_inv_start, of L m] by simp
  moreover have "fst (removebg_run L ins ps draft st) = (case fst (load_session L (removebg_model L ps) st) of
      Inl e \<Rightarrow> Inl e | Inr s \<Rightarrow> (case dict_get ins ''image'' of None \<Rightarrow> Inl (missing_key ''image'')
        | Some data \<Rightarrow> (case rl_remove L data s of Inl e \<Rightarrow> Inl e | Inr (OutOther cls) \<Rightarrow> Inl ''AssertionError: ''
            | Inr (OutBytes b) \<Rightarrow> Inr [(''image'', ''raster/png'', OutBytes b)])))" for st
    by (auto simp: removebg_run_def split: prod.splits sum.splits option.splits out_value.splits)
  ultimately show ?thesis by simp
qed

theorem removebg_serves:
  assumes "rembg_inv L st"
  shows "fst (removebg_serve L reqs st) = map (\<lambda>(ins, ps, draft). fst (removebg_run L ins ps draft rembg_start)) reqs"
    and "rembg_inv L (snd (removebg_serve L reqs st))"
proof -
  have "fst (removebg_serve L reqs st) = map (\<lambda>(ins, ps, draft). fst (removebg_run L ins ps draft rembg_start)) reqs \<and>
      rembg_inv L (snd (removebg_serve L reqs st))"
    using assms
  proof (induction L reqs st rule: removebg_serve.induct)
    case (2 L ins ps draft reqs st)
    obtain r st' where r: "removebg_run L ins ps draft st = (r, st')" by fastforce
    have "rembg_inv L st'" using load_session_inv [OF "2.prems"] removebg_state [of L ins ps draft st] r by simp
    then show ?case using "2.IH" [OF r [symmetric]] r removebg_stateless [OF "2.prems", of ins ps draft]
      by (auto split: prod.splits)
  qed simp
  then show "fst (removebg_serve L reqs st) = map (\<lambda>(ins, ps, draft). fst (removebg_run L ins ps draft rembg_start)) reqs"
    "rembg_inv L (snd (removebg_serve L reqs st))" by blast+
qed

section \<open>Its manifest\<close>

lemma removebg_manifest:
  "\<exists>m s. parse_extension_manifest render (Toml removebg_toml) = Inr m \<and> xe_modules m = [s] \<and>
     m_name (xm_manifest s) = ''image.removebg'' \<and> xm_entry s = ''removebg:run'' \<and>
     m_inputs (xm_manifest s) = [\<lparr>port_name = ''image'', port_type = ''raster/png''\<rparr>] \<and>
     m_outputs (xm_manifest s) = [\<lparr>port_name = ''image'', port_type = ''raster/png''\<rparr>]"
proof -
  have "split_entry ''removebg:run'' = (''removebg'', ''run'')" by (simp add: split_entry_def)
  moreover have "drop_newline ''removebg:run'' = ''removebg:run''" "drop_newline ''background-removal'' = ''background-removal''"
    by (simp_all add: drop_newline_def newline_def)
  ultimately have n: "entry_matches ''removebg:run''" "name_matches ''background-removal''"
    by (simp_all add: entry_matches_def name_matches_def word_start_def is_lower_def less_eq_char_def)
  then show ?thesis
    by (simp add: parse_extension_manifest_def parse_document_def removebg_toml_def get_str_def toml_str_def Let_def
        requirement_list_def parse_ports_def toml_truthy_def ebind_def)
qed

lemma removebg_conforms:
  assumes "fst (removebg_run L ins ps draft st) = Inr os" and "entry_results os = Inr rs"
    and "m_outputs mf = [\<lparr>port_name = ''image'', port_type = ''raster/png''\<rparr>]"
  shows "conforms mf rs"
proof -
  obtain b where "os = [(''image'', ''raster/png'', OutBytes b)]"
    using assms(1) by (auto simp: removebg_run_def split: prod.splits sum.splits option.splits out_value.splits)
  then show ?thesis using assms(2,3) by (auto simp: entry_results_def conforms_def declared_types_def dict_of_def)
qed

end
