(* ===== verification/Spec2Isabelle.thy ===== *)
theory Spec2Isabelle
  imports ServerExamples SeparationExamples BenchClient Launch Runner RemoveBg
begin

text \<open>
  A verification library of the FormShift server (\<^verbatim>\<open>src/src/formshift_server\<close>): a local HTTP server
  that keeps sessions with immutable payloads, runs graphs of modules over them as jobs with a
  shared result cache, streams events, and installs extensions that run in processes of their own.
  The definitions are translated from the source, exceptions as values; the properties of this file
  are numbered and each is proved from the lemmas of the component theories.

  \<^bold>\<open>Theories and the code they model.\<close>

  \<^item> \<^verbatim>\<open>Prelude\<close>: Python dicts as association lists in insertion order, exceptions as sums, and the
    interface of a table as the locales \<open>keyed_store\<close> and \<open>keyed_store_del\<close>, which the registry, the
    payloads, the sessions and the cache interpret. \<^verbatim>\<open>Json\<close>: \<open>json.dumps\<close> and \<open>json.loads\<close>.
  \<^item> \<^verbatim>\<open>Registry\<close> (\<^verbatim>\<open>modules.py\<close>), \<^verbatim>\<open>Sessions\<close> (\<^verbatim>\<open>sessions.py\<close>), \<^verbatim>\<open>Graph\<close> over \<^verbatim>\<open>Toposort\<close> (\<^verbatim>\<open>graph.py\<close>; the
    second is \<open>graphlib.TopologicalSorter\<close>), \<^verbatim>\<open>Cache\<close> (\<^verbatim>\<open>cache.py\<close>).
  \<^item> \<^verbatim>\<open>Executor\<close> (\<^verbatim>\<open>executor.py\<close>): \<open>exec_start\<close> is the set-up of \<open>execute_graph\<close>; \<open>exec_step\<close> is one atomic
    move of the main thread (\<open>main_step\<close>), the pool (\<open>pool_step\<close>), one \<open>run_node\<close> task (\<open>task_step\<close>) or
    of other threads (a cache write, the cancel flag). \<^verbatim>\<open>ExecInv\<close>: scheduling invariants. \<^verbatim>\<open>Values\<close>: the
    value of a node, and why equal keys mean equal results. \<^verbatim>\<open>ExecData\<close>: what the tasks compute.
    \<^verbatim>\<open>ExecRun\<close>: the outputs are those of the sequential evaluation. \<^verbatim>\<open>ExecLive\<close>: progress and a measure.
    \<^verbatim>\<open>ExecCalls\<close>: what the callbacks see, the bound of the pool, cancellation.
  \<^item> \<^verbatim>\<open>EventLog\<close>, \<^verbatim>\<open>Jobs\<close> (\<^verbatim>\<open>jobs.py\<close> and the stream of \<^verbatim>\<open>app.py\<close>): \<open>job_step\<close> is one action of a session (a
    submission, a cancellation, a shutdown, a callback of a running job, its end, an upload).
    \<^verbatim>\<open>JobRuns\<close>, \<^verbatim>\<open>JobLife\<close>: invariants of every interleaving and the lifecycle automaton; \<^verbatim>\<open>JobGate\<close>: the
    pinned-order gate; \<^verbatim>\<open>JobResults\<close>: jobs over executions; \<^verbatim>\<open>JobDocs\<close>: documents, log and flags.
  \<^item> \<^verbatim>\<open>Access\<close> (\<^verbatim>\<open>config.py\<close>, \<open>_build_config\<close> of \<^verbatim>\<open>cli.py\<close>, the \<open>guard\<close> of \<^verbatim>\<open>app.py\<close>) and \<^verbatim>\<open>Server\<close>
    (\<open>create_app\<close>): a handler is cut into pieces where it awaits or where another thread sees its
    effect, and \<open>server_step\<close> is one piece. \<^verbatim>\<open>ServerRuns\<close>: each manager makes only the moves of
    \<^verbatim>\<open>jobs.py\<close>, on validated graphs. \<^verbatim>\<open>ServerFacts\<close>: what clients observe. \<^verbatim>\<open>Launch\<close>: \<open>main\<close> of \<^verbatim>\<open>cli.py\<close>
    (\<open>cli_main\<close>), a client that finds the server by what it prints, and the number of workers.
  \<^item> \<^verbatim>\<open>Worker\<close> (\<^verbatim>\<open>extension_runner.py\<close> and the worker of \<^verbatim>\<open>extensions.py\<close>), \<^verbatim>\<open>ExtManifest\<close>, \<^verbatim>\<open>Extensions\<close>
    (the rest of \<^verbatim>\<open>extensions.py\<close>): base64 and JSON frames, process life, the manifest, the
    installation transaction, registration with rollback, loading at start-up. The locale
    \<open>module_maker\<close> says what a module made from a manifest keeps; \<open>isolated_module\<close> interprets it.
    \<^verbatim>\<open>Runner\<close>: the runner's file descriptors, \<open>claim_channel\<close>, and what the server reads from the pipe.
    \<^verbatim>\<open>RemoveBg\<close>: the background-removal extension with its cache of model sessions.
  \<^item> \<^verbatim>\<open>PyNum\<close>, \<^verbatim>\<open>Raster\<close>, \<^verbatim>\<open>Color\<close>, \<^verbatim>\<open>Potrace\<close> (\<^verbatim>\<open>core/\<close>): the eleven core modules with their param readers,
    guards and messages. \<^verbatim>\<open>ColorFacts\<close>: palettes, masks and merges. \<^verbatim>\<open>CoreModules\<close>: \<open>default_registry\<close>,
    and the locale \<open>conforming_module\<close> of the executor's contract, interpreted on each module.
    \<^verbatim>\<open>ParamOrder\<close>: no core module looks at the order of its params (\<open>order_free\<close>), so jobs over the
    default registry may share the cache.
  \<^item> \<^verbatim>\<open>Wiring\<close>, \<^verbatim>\<open>Bench\<close> (\<^verbatim>\<open>scripts/\<close>): the graphs the benchmark clients submit, with the separation
    pipeline of the design document. \<^verbatim>\<open>Separation\<close>: what that pipeline computes, layer by layer.
    \<^verbatim>\<open>BenchClient\<close>: the drawings, the palette found in a posterized image, the polling loops.
  \<^item> \<^verbatim>\<open>ExecExamples\<close>, \<^verbatim>\<open>JobExamples\<close>, \<^verbatim>\<open>ServerExamples\<close>, \<^verbatim>\<open>CoreExamples\<close>,
    \<^verbatim>\<open>SeparationExamples\<close>: concrete runs for the witnesses.

  \<^bold>\<open>How the parts meet.\<close> A request passes the guard and reaches a piece of a handler, which changes
  the tables of the server or makes one action of a session's manager. The callbacks of an
  execution (\<open>x_calls\<close>) are the actions of its job (\<open>calls_in\<close>), so the theorem on executions carries
  over to the outputs a job announces. The environments of all the jobs that share a cache form a
  set \<open>E\<close>; other threads may write any value of a node of \<open>E\<close> at any time.

  \<^bold>\<open>Granularity.\<close> A step is atomic where the code holds a lock, makes one operation on a dict, or
  touches nothing shared. Cache lookups, the run of a module, the cancel test, the cache write, the
  recording of a result and each callback are steps of their own. A started task runs although the
  flag is set, as in the code; futures queued in a pool that is shut down still run.

  \<^bold>\<open>Bounds and fuel.\<close> No execution takes more than \<open>20 * nodes + 2 * outputs + 4\<close> moves of its own
  (\<open>exec_measure\<close>), so no fuel is needed there. The JSON reader has fuel, and \<open>2 * length s + 1\<close>
  always suffices (\<open>parse_value_stable\<close>). The other loops are structural or have a measure (\<open>kahn\<close>,
  \<open>merge_layers\<close>). Palette indices are \<open>8 word\<close>; a validated palette has at most 256 entries, so they
  never wrap. Python's own integers are unbounded, as \<open>int\<close> is.

  \<^bold>\<open>Parameters.\<close> BLAKE2b (with the absence of collisions on the recipes and payloads that occur, a
  hypothesis), the text of exceptions, ids from \<open>secrets\<close> (injective), the float reader of \<open>json\<close>,
  \<open>tomllib\<close>, the file system, venv and pip, worker processes, Pillow, the CIELAB distance, the XML
  parser and printer, potrace, and the rounding of doubles with \<open>pow\<close> (\<open>double_laws\<close>). Modules are a
  manifest and a function of inputs, params and draft flag, so they are deterministic; the
  executor's theorems hold for any such modules that give the same result for the same recipe, and
  for graphs whose edges read one output port per module (\<open>compatible\<close> of \<^verbatim>\<open>Values\<close>); the core modules
  satisfy both. Of rounding only what IEEE 754 says is assumed, and of \<open>pow\<close> only its values at 0 and 1.

  \<^bold>\<open>Text.\<close> Strings are lists of 8-bit characters. The text of a JSON document, and every string that
  comes from one, is held in UTF-8, and \<open>loads\<close> and \<open>dumps\<close> read and write every \<open>\u\<close> escape and
  surrogate pair; header values are Latin-1, as in ASGI. A request's body is the text it decodes to: a
  body that does not decode is answered like one that is no JSON. The limits of the interpreter on
  the nesting of JSON and on the length of its integers are outside the model.

  \<^bold>\<open>Not modelled.\<close> argparse and uvicorn behind \<open>cli_main\<close>; the routing, header and query decoding and
  the CORS middleware of FastAPI; the HTTP clients, clocks and reports of the benchmarks; what an
  extension does to descriptors other than writing to 1, 2 or \<open>sys.stdout\<close>. Real time appears only as
  the idle counter of the event stream; daemon threads and the end of the process are not
  represented.
\<close>

section \<open>The executor and its cache\<close>

text \<open>C1: an execution that returns gives exactly the outputs of the sequential evaluation
  without a cache, whatever the schedule, the number of workers, the entries other jobs share
  and the hits it had, when other threads write
  only values of the executions that share the cache, as each of them does, and these are
  compatible, that is when the recipes and payloads that occur have no hash
  collision and no payload spells a recipe, name and version determine the module, params are
  printable JSON whose key order no result depends on, and all edges that leave nodes of one module
  read the same one of its output ports.\<close>

theorem execution_equals_sequential:
  assumes "compatible fc E" and "env \<in> E" and "exec_start env c cancel = Inr s0" and "cache_ok E c"
    and "reach env (shared_by E) s0 s" and "x_pc s = Returned rep"
  shows "sequential_outputs env = Inr (rep_outputs rep)"
  by (rule returned_sequential [OF assms])

theorem execution_equals_sequential_witness:
  "\<exists>s rep. reach twin_env (shared_by {twin_env}) split_start s \<and> x_pc s = Returned rep \<and> rep_cached rep = [''b''] \<and>
    sequential_outputs twin_env = Inr (rep_outputs rep) \<and> rep_outputs rep = twin_outputs"
proof -
  obtain s rep where s: "reach twin_env (shared_by {twin_env}) split_start s" "x_pc s = Returned rep"
      "rep_outputs rep = twin_outputs" "rep_cached rep = [''b'']"
    using twin_reach by blast
  from execution_equals_sequential [OF twin_compatible singletonI twin_exec_start demo_cache_ok s(1,2)] s
  show ?thesis by blast
qed

text \<open>C2: from every reachable state in which \<open>execute_graph\<close> has neither returned nor raised,
  the pool, a task or the main thread can move: there is no deadlock.\<close>

theorem execution_never_stuck:
  assumes "exec_start env c cancel = Inr s0" and "reach env P s0 s" and "\<not> ended s"
  shows "\<exists>a s'. internal a \<and> exec_step env a s = Some s'"
  using sched_progress [OF reach_sched_inv [OF assms(1,2)] assms(3)] .

theorem execution_never_stuck_witness:
  "\<exists>a s'. internal a \<and> exec_step demo_env a demo_start = Some s'"
proof -
  have "\<not> ended demo_start" by (simp add: ended_def demo_start_def)
  from execution_never_stuck [OF demo_exec_start reach_init this] show ?thesis .
qed

text \<open>C3: every schedule ends: an execution makes at most \<open>20 * nodes + 2 * outputs + 4\<close> moves of
  its own, whatever the moves of other threads in between.\<close>

theorem execution_terminates:
  assumes "exec_start env c cancel = Inr s0" and "exec_run env as s0 = Some s"
  shows "length (filter internal as) \<le>
    20 * length (g_nodes (e_graph env)) + 2 * length (g_outputs (e_graph env)) + 4"
  by (rule exec_terminates [OF assms])

theorem execution_terminates_witness:
  "length (filter internal demo_acts) \<le> 20 * length (g_nodes demo_graph) + 2 * length (g_outputs demo_graph) + 4"
proof -
  obtain s where "exec_run demo_env demo_acts demo_start = Some s" using demo_run by blast
  from execution_terminates [OF demo_exec_start this] show ?thesis by (simp add: demo_fields)
qed

text \<open>C4: every entry of the shared cache is what the module of some node of some job computes
  from its inputs, filed under that node's recipe key, and conforms to the module's manifest, so
  that a result that violates the contract never gets there, when other threads write
  only values of the executions that share the cache, as each of them does, and these are
  compatible, that is when the recipes and payloads that occur have no hash
  collision and no payload spells a recipe, name and version determine the module, params are
  printable JSON whose key order no result depends on, and all edges that leave nodes of one module
  read the same one of its output ports.\<close>

theorem cache_holds_only_values:
  assumes "compatible fc E" and "env \<in> E" and "exec_start env c cancel = Inr s0" and "cache_ok E c"
    and "reach env (shared_by E) s0 s" and "cache_get (x_cache s) key = Some res"
  shows "\<exists>e \<in> E. \<exists>n nd md kds. hashes e n nd md kds \<and>
    key = task_key e nd (mod_manifest md) (map fst kds) \<and>
    mod_run md (inputs_of (m_inputs (mod_manifest md)) kds) (nd_params nd) (e_draft e) = Inr res \<and>
    conforms (mod_manifest md) res"
proof -
  have "cache_ok E (x_cache s)" using reach_data_inv [OF assms(1-5)] by (simp add: data_inv_def)
  then obtain e n where e: "e \<in> E" "val e n key res" using assms(6) unfolding cache_ok_def by blast
  show ?thesis using e(2) unfolding val_iff contract_error_None by (intro bexI [OF _ e(1)]) blast
qed

theorem cache_holds_only_values_witness:
  "\<exists>s res. reach demo_env (shared_by {demo_env}) demo_start s \<and> cache_get (x_cache s) key_a = Some res \<and>
     (\<exists>e \<in> {demo_env}. \<exists>n nd md kds. hashes e n nd md kds \<and>
        key_a = task_key e nd (mod_manifest md) (map fst kds) \<and>
        mod_run md (inputs_of (m_inputs (mod_manifest md)) kds) (nd_params nd) (e_draft e) = Inr res \<and>
        conforms (mod_manifest md) res)"
proof -
  obtain s res where s: "reach demo_env (shared_by {demo_env}) demo_start s" "cache_get (x_cache s) key_a = Some res"
    using demo_cached by blast
  from s cache_holds_only_values [OF demo_compatible singletonI demo_exec_start demo_cache_ok s]
  show ?thesis by blast
qed

text \<open>C5: a recipe key determines the results across all the jobs that share the cache, so that
  serving an entry under its key never serves the result of another computation, when the executions that
  share the cache are compatible, that is when the recipes and payloads that occur have no hash
  collision and no payload spells a recipe, name and version determine the module, params are
  printable JSON whose key order no result depends on, and all edges that leave nodes of one module
  read the same one of its output ports.\<close>

theorem key_determines_results:
  assumes "compatible fc E" and "e1 \<in> E" and "e2 \<in> E" and "val e1 n1 key res1" and "val e2 n2 key res2"
  shows "res2 = res1"
  using val_pinned [OF assms(1,2,4)] assms(3,5) by (auto simp: pinned_val_def)

theorem key_determines_results_witness:
  "val twin_env ''a'' (branch_key plain_digest) [(''out'', \<lparr>r_type = ''t'', r_data = [1, 0]\<rparr>)] \<and>
   {res. val twin_env ''b'' (branch_key plain_digest) res} = {[(''out'', \<lparr>r_type = ''t'', r_data = [1, 0]\<rparr>)]}"
proof -
  have v: "val twin_env ''a'' (branch_key plain_digest) [(''out'', \<lparr>r_type = ''t'', r_data = [1, 0]\<rparr>)]"
    "val twin_env ''b'' (branch_key plain_digest) [(''out'', \<lparr>r_type = ''t'', r_data = [1, 0]\<rparr>)]"
    by (rule twin_val, simp)+
  have "{res. val twin_env ''b'' (branch_key plain_digest) res} = {[(''out'', \<lparr>r_type = ''t'', r_data = [1, 0]\<rparr>)]}"
  proof (rule subset_antisym; rule subsetI)
    fix res assume "res \<in> {res. val twin_env ''b'' (branch_key plain_digest) res}"
    then have "val twin_env ''b'' (branch_key plain_digest) res" by (rule CollectD)
    from key_determines_results [OF twin_compatible singletonI singletonI v(1) this]
    show "res \<in> {[(''out'', \<lparr>r_type = ''t'', r_data = [1, 0]\<rparr>)]}" by (simp only: singleton_iff)
  next
    fix res :: results assume "res \<in> {[(''out'', \<lparr>r_type = ''t'', r_data = [1, 0]\<rparr>)]}"
    then show "res \<in> {res. val twin_env ''b'' (branch_key plain_digest) res}" using v(2) by (simp only: singleton_iff mem_Collect_eq)
  qed
  with v(1) show ?thesis by (rule conjI)
qed

text \<open>C6: a failed execution failed because its cancel flag was set, or because a module raised or
  broke its contract, and then the sequential evaluation has no result either; there is no
  other way to fail, no missing key and no failed assertion, when other threads write
  only values of the executions that share the cache, as each of them does, and these are
  compatible, that is when the recipes and payloads that occur have no hash
  collision and no payload spells a recipe, name and version determine the module, params are
  printable JSON whose key order no result depends on, and all edges that leave nodes of one module
  read the same one of its output ports.\<close>

theorem execution_fails_only_for_cause:
  assumes "compatible fc E" and "env \<in> E" and "exec_start env c cancel = Inr s0" and "cache_ok E c"
    and "reach env (shared_by E) s0 s" and "x_pc s = Raised e"
  shows "e = ExecutionCancelled \<and> x_cancel s \<or>
    (\<exists>n. fails_with env n e) \<and> (\<forall>os. sequential_outputs env \<noteq> Inr os)"
  by (rule raised_reason [OF assms])

theorem execution_fails_only_for_cause_witness:
  "\<exists>s. reach demo_env (shared_by {demo_env}) demo_start s \<and> x_pc s = Raised ExecutionCancelled \<and>
     (ExecutionCancelled = ExecutionCancelled \<and> x_cancel s \<or>
      (\<exists>n. fails_with demo_env n ExecutionCancelled) \<and> (\<forall>os. sequential_outputs demo_env \<noteq> Inr os))"
proof -
  obtain s where s: "reach demo_env (shared_by {demo_env}) demo_start s" "x_pc s = Raised ExecutionCancelled"
    using demo_cancelled by blast
  from s execution_fails_only_for_cause [OF demo_compatible singletonI demo_exec_start demo_cache_ok s]
  show ?thesis by blast
qed

text \<open>C7: when \<open>execute_graph\<close> returns, every node was either run or served from the cache and never
  both, was reported to \<open>on_node\<close> exactly once with the right flag, and its requested outputs,
  of which a module with several ports may have several, were handed to \<open>on_output\<close> once each, in
  the order of the graph's outputs, when other threads write
  only values of the executions that share the cache, as each of them does, and these are
  compatible, that is when the recipes and payloads that occur have no hash
  collision and no payload spells a recipe, name and version determine the module, params are
  printable JSON whose key order no result depends on, and all edges that leave nodes of one module
  read the same one of its output ports.\<close>

theorem every_node_reported_once:
  assumes "compatible fc E" and "env \<in> E" and "exec_start env c cancel = Inr s0" and "cache_ok E c"
    and "reach env (shared_by E) s0 s" and "x_pc s = Returned rep" and "n \<in> node_ids (e_graph env)"
  shows "(n \<in> set (rep_executed rep)) \<noteq> (n \<in> set (rep_cached rep)) \<and>
    node_calls n (x_calls s) = [NodeCall n (n \<in> set (rep_cached rep))] \<and>
    map out_ref (out_calls n (x_calls s)) = node_outputs (e_graph env) n"
  by (rule returned_report [OF assms])

theorem every_node_reported_once_witness:
  "\<exists>s rep. reach twin_env (shared_by {twin_env}) split_start s \<and> x_pc s = Returned rep \<and>
    map out_ref (out_calls ''u'' (x_calls s)) = [(''u'', ''y''), (''u'', ''x'')] \<and>
    ''b'' \<notin> set (rep_executed rep) \<and> node_calls ''b'' (x_calls s) = [NodeCall ''b'' True]"
proof -
  obtain s rep where s: "reach twin_env (shared_by {twin_env}) split_start s" "x_pc s = Returned rep"
      "rep_cached rep = [''b'']"
    using twin_reach by blast
  have n: "''u'' \<in> node_ids (e_graph twin_env)" "''b'' \<in> node_ids (e_graph twin_env)"
    by (simp_all add: node_ids_def twin_fields twin_graph_def split_graph_def)
  note once = every_node_reported_once [OF twin_compatible singletonI twin_exec_start demo_cache_ok s(1,2)]
  have "map out_ref (out_calls ''u'' (x_calls s)) = [(''u'', ''y''), (''u'', ''x'')]"
    using once [OF n(1)] by (simp add: twin_fields twin_wiring)
  with once [OF n(2)] s show ?thesis by (intro exI [of _ s] exI [of _ rep]) simp
qed

text \<open>C8: once the cancel flag is set, the execution changes the cache only under the keys of
  tasks that had already passed the test of the flag.\<close>

theorem cancelled_stores_nothing_new:
  assumes "exec_start env c cancel = Inr s0" and "reach env P s0 s" and "x_cancel s"
    and "list_all internal as" and "exec_run env as s = Some s'"
    and "cache_get (x_cache s') key \<noteq> cache_get (x_cache s) key"
  shows "\<exists>n res. dict_get (x_tasks s) n = Some (Storing key res)"
  using cancelled_run [OF assms(3-5) reach_sched_inv [OF assms(1,2)]
      valid_edges_closed [OF exec_start_valid [OF assms(1)]] assms(6)]
  by (auto simp: storing_def)

theorem cancelled_stores_nothing_new_witness:
  "\<exists>s n res. reach demo_env (shared_by {demo_env}) demo_start s \<and> x_cancel s \<and> dict_get (x_tasks s) n = Some (Storing key_a res)"
proof -
  obtain s s' where s: "reach demo_env (shared_by {demo_env}) demo_start s" "x_cancel s" "exec_run demo_env [Task ''a''] s = Some s'"
      "cache_get (x_cache s') key_a \<noteq> cache_get (x_cache s) key_a"
    using demo_storing by blast
  have "list_all internal [Task ''a'']" by simp
  from s cancelled_stores_nothing_new [OF demo_exec_start s(1,2) this s(3,4)] show ?thesis by blast
qed

text \<open>C9: the key of an input does not say which output port it is read from (ADR 0006 asks for the
  key of the port): for all modules, graphs and states, when two nodes run the same module with the
  same params and each of their inputs comes from one node upstream, through whichever of its
  ports, their keys are equal, and once the cache holds the result of the first the second is
  served it and not run, whatever bytes are on its own inputs.\<close>

theorem two_outputs_share_a_key:
  assumes "node_lookup env b = Inr (nd, md)" and "node_lookup env c = Inr (nd', md)" and "nd_params nd' = nd_params nd"
    and "fed_in_parallel env b c (m_inputs (mod_manifest md))"
    and "gather env (x_keys st) (x_results st) b (m_inputs (mod_manifest md)) [] [] = Inr (keys, ins)"
    and "gather env (x_keys st) (x_results st) c (m_inputs (mod_manifest md)) [] [] = Inr (keys', ins')"
    and "cache_get (x_cache st) (task_key env nd (mod_manifest md) keys) = Some res"
  shows "begin_task env c st = set_task c (Obtained (task_key env nd (mod_manifest md) keys) res True) st"
  by (rule ports_share_a_key [OF assms])

theorem two_outputs_share_a_key_witness:
  "\<exists>st. exec_run (split_env plain_digest) split_prefix split_start = Some st \<and>
    gather (split_env plain_digest) (x_keys st) (x_results st) ''b'' (m_inputs (mod_manifest copy_module)) [] [] =
      Inr ([split_key plain_digest], [(''in'', [2])]) \<and>
    begin_task (split_env plain_digest) ''b'' st =
      set_task ''b'' (Obtained (branch_key plain_digest) [(''out'', \<lparr>r_type = ''t'', r_data = [1, 0]\<rparr>)] True) st"
proof -
  obtain st where st: "exec_run (split_env plain_digest) split_prefix split_start = Some st"
      "cache_get (x_cache st) (branch_key plain_digest) = Some [(''out'', \<lparr>r_type = ''t'', r_data = [1, 0]\<rparr>)]"
      "gather (split_env plain_digest) (x_keys st) (x_results st) ''a'' (m_inputs (mod_manifest copy_module)) [] [] =
        Inr ([split_key plain_digest], [(''in'', [1])])"
      "gather (split_env plain_digest) (x_keys st) (x_results st) ''b'' (m_inputs (mod_manifest copy_module)) [] [] =
        Inr ([split_key plain_digest], [(''in'', [2])])"
    using split_run_stored [OF split_keys_differ] by blast
  have p: "nd_params node_b = nd_params node_a" by simp
  from two_outputs_share_a_key [OF split_lookup(2,3) p split_parallel st(3,4) st(2) [unfolded branch_key_def]] st(1,4)
  show ?thesis unfolding branch_key_def by blast
qed

text \<open>C10: the recipe's canonical text, which the key hashes, determines the module's name and
  version, the params up to the order of the keys, the input keys and the draft flag, when the
  params are JSON that \<open>json.dumps\<close> prints, with distinct keys in every object.\<close>

theorem recipe_text_injective:
  assumes "wf_json fc (JObj ps)" and "wf_json fc (JObj ps')"
    and "recipe_text name version ps keys draft = recipe_text name' version' ps' keys' draft'"
  shows "name = name' \<and> version = version' \<and> jsort (JObj ps) = jsort (JObj ps') \<and> keys = keys' \<and> draft = draft'"
  by (rule recipe_text_inj [OF assms])

theorem recipe_text_injective_witness:
  "recipe_text ''m'' ''1'' [(''p'', JInt 1)] [''k''] False \<noteq> recipe_text ''m'' ''1'' [(''p'', JStr ''1'')] [''k''] False \<and>
   recipe_text ''m'' ''1'' [(''p'', JInt 1)] [''k''] False \<noteq> recipe_text ''m'' ''1'' [(''p'', JInt 1)] [''k'', []] False \<and>
   recipe_text ''m'' ''11'' [] [] False \<noteq> recipe_text ''m1'' ''1'' [] [] False"
proof -
  have w: "wf_json (\<lambda>t. t) (JObj [(''p'', JInt 1)])" "wf_json (\<lambda>t. t) (JObj [(''p'', JStr ''1'')])"
    "wf_json (\<lambda>t. t) (JObj [])" by simp_all
  show ?thesis
  proof (intro conjI notI)
    assume "recipe_text ''m'' ''1'' [(''p'', JInt 1)] [''k''] False = recipe_text ''m'' ''1'' [(''p'', JStr ''1'')] [''k''] False"
    from recipe_text_injective [OF w(1,2) this] show False by simp
  next
    assume "recipe_text ''m'' ''1'' [(''p'', JInt 1)] [''k''] False = recipe_text ''m'' ''1'' [(''p'', JInt 1)] [''k'', []] False"
    from recipe_text_injective [OF w(1,1) this] show False by simp
  next
    assume "recipe_text ''m'' ''11'' [] [] False = recipe_text ''m1'' ''1'' [] [] False"
    from recipe_text_injective [OF w(3,3) this] show False by simp
  qed
qed

section \<open>Graphs\<close>

text \<open>C11: the validator returns no error exactly on the graphs that meet the contract of ADR 0005
  and ADR 0014: unique ids, known modules and ports, equal types, every input fed exactly once,
  declared groups and outputs, and no cycle.\<close>

theorem validate_graph_decides:
  "validate_graph g reg ses = [] \<longleftrightarrow> valid_graph reg ses g"
  by (rule validate_graph_Nil)

text \<open>C12: \<open>topological_order\<close> lists every node of the edges and of the graph once, each after the
  nodes it depends on; it gives \<open>None\<close> only on a cycle.\<close>

theorem topological_order_correct:
  "case topological_order g of
     None \<Rightarrow> \<not> acyclic (set (dep_edges g))
   | Some order \<Rightarrow> acyclic (set (dep_edges g)) \<and> distinct order \<and> edges_forward (dep_edges g) order \<and>
       set order = set (map nd_id (g_nodes g)) \<union> fst ` set (dep_edges g) \<union> snd ` set (dep_edges g)"
  using topological_order_None [of g] topological_order_Some [of g] by (auto split: option.splits)

text \<open>C13: parsing the wire format that a client writes for a graph gives back the graph.\<close>

theorem parse_graph_roundtrip: "parse_graph (graph_to_json g) = Inr g"
  by (rule parse_graph_to_json)

section \<open>Jobs and their events\<close>

text \<open>C14: in every interleaving of a session's jobs, the events of each job spell its lifecycle:
  pending, running, any number of node and output events, one terminal status and its closing
  event, and then nothing; the status of the job is the last one announced.\<close>

theorem job_lifecycle:
  assumes "fresh_tokens tok ses0" and "list_all submits_ok as"
    and "job_steps tok xt as (manager_init ses0) = Some m"
  shows "life_run jid (rev (jm_events m)) = Some (life_at (map_option j_status (job_get m jid)))"
  using session_runs [OF assms] unfolding life_inv_def life_in_def by blast

theorem job_lifecycle_witness:
  "\<exists>m. job_steps demo_tok no_text demo_job_acts (manager_init demo_session) = Some m \<and>
     life_run [] (rev (jm_events m)) = Some (Closed Completed)"
proof -
  obtain m j where m: "job_steps demo_tok no_text demo_job_acts (manager_init demo_session) = Some m"
      "job_get m [] = Some j" "j_status j = Completed"
    using demo_job_run by blast
  from job_lifecycle [OF demo_fresh demo_submits(1) m(1), of "[]"] m show ?thesis
    by (auto simp: life_at_def life_of_def)
qed

text \<open>C15: the outputs a job has announced are, for each pinned group, the longest prefix of its
  declared sequence that has arrived, and all the others in the order they arrived; each
  announced payload holds the type and the bytes that arrived (ADR 0014).\<close>

theorem outputs_announced_in_order:
  assumes "fresh_tokens tok ses0" and "list_all submits_ok as"
    and "job_steps tok xt as (manager_init ses0) = Some m"
    and "dict_get (jm_threads m) jid = Some th" and "th_phase th \<noteq> Created" and "job_get m jid = Some j"
  shows "\<exists>ann. list_all2 (delivers (th_graph th) (jm_session m)) (j_outputs j) ann \<and>
    filter (\<lambda>eo. \<not> gated (th_graph th) eo) ann = filter (\<lambda>eo. \<not> gated (th_graph th) eo) (arrived jid as) \<and>
    (\<forall>grp sq. sequence_of (th_graph th) grp = Some sq \<longrightarrow>
       map out_ref (filter (in_group (th_graph th) grp) ann) =
       takeWhile (\<lambda>k. k \<in> out_ref ` set (arrived jid as)) sq)"
  by (rule announcements_in_order [OF assms])

theorem outputs_announced_in_order_witness:
  "\<exists>m j ann. job_steps demo_tok no_text pin_acts (manager_init demo_session) = Some m \<and> job_get m [] = Some j \<and>
    map jo_node (j_outputs j) = [''c'', ''a'', ''b''] \<and>
    list_all2 (delivers pin_graph (jm_session m)) (j_outputs j) ann"
proof -
  obtain m th j where m: "job_steps demo_tok no_text pin_acts (manager_init demo_session) = Some m"
      "dict_get (jm_threads m) [] = Some th" "th_phase th = Live" "th_graph th = pin_graph"
      "job_get m [] = Some j" "map jo_node (j_outputs j) = [''c'', ''a'', ''b'']"
    using pin_run by (elim exE conjE)
  have "th_phase th \<noteq> Created" using m(3) by simp
  from outputs_announced_in_order [OF demo_fresh demo_submits(2) m(1,2) this m(5)]
  obtain ann where "list_all2 (delivers pin_graph (jm_session m)) (j_outputs j) ann" unfolding m(4) by (elim exE conjE)
  with m(1,5,6) show ?thesis by (intro exI conjI)
qed

text \<open>C16: a job whose execution returned has announced the outputs of the sequential evaluation,
  each exactly once, in payloads of its session with the same type and bytes, when other threads write
  only values of the executions that share the cache, as each of them does, and these are
  compatible, that is when the recipes and payloads that occur have no hash
  collision and no payload spells a recipe, name and version determine the module, params are
  printable JSON whose key order no result depends on, and all edges that leave nodes of one module
  read the same one of its output ports.\<close>

theorem job_results_are_sequential:
  assumes "fresh_tokens tok ses0" and "list_all submits_ok as"
    and "job_steps tok xt as (manager_init ses0) = Some m"
    and "dict_get (jm_threads m) jid = Some th" and "th_phase th \<noteq> Created" and "job_get m jid = Some j"
    and "calls_in jid as = x_calls s" and "e_graph env = th_graph th"
    and "compatible fc E" and "env \<in> E" and "exec_start env c cancel = Inr s0" and "cache_ok E c"
    and "reach env (shared_by E) s0 s" and "x_pc s = Returned rep"
  shows "\<exists>os ann. sequential_outputs env = Inr os \<and> mset ann = mset os \<and>
    list_all2 (delivers (th_graph th) (jm_session m)) (j_outputs j) ann"
  by (rule job_holds_results [OF assms])

theorem job_results_are_sequential_witness:
  "\<exists>m j os ann. job_steps demo_tok no_text demo_job_acts (manager_init demo_session) = Some m \<and>
    job_get m [] = Some j \<and> sequential_outputs demo_env = Inr os \<and> mset ann = mset os \<and>
    list_all2 (delivers demo_graph (jm_session m)) (j_outputs j) ann"
proof -
  obtain m th j where m: "job_steps demo_tok no_text demo_job_acts (manager_init demo_session) = Some m"
      "dict_get (jm_threads m) [] = Some th" "th_phase th = Ended" "th_graph th = demo_graph" "job_get m [] = Some j"
    using demo_job_run by blast
  obtain s where s: "reach demo_env (shared_by {demo_env}) demo_start s" "x_pc s = Returned demo_report"
      "x_calls s = demo_calls"
    using demo_reach_calls by blast
  have c: "calls_in [] demo_job_acts = x_calls s" "e_graph demo_env = th_graph th" "th_phase th \<noteq> Created"
    using demo_job_calls s(3) demo_fields(1) m(3,4) by simp_all
  from job_results_are_sequential [OF demo_fresh demo_submits(1) m(1,2) c(3) m(5) c(1,2) demo_compatible singletonI
      demo_exec_start demo_cache_ok s(1,2)] m(1,4,5)
  show ?thesis by auto
qed

text \<open>C17: a client that reads the event stream from its start gets every event of the session once
  and in order, whatever happens between the polls and however many keepalives are sent, and
  decodes each frame to the index, the type and the data of its event.\<close>

theorem stream_reads_every_event:
  assumes "logs_at tok xt ass (manager_init ses0) = Some ls" and "ls \<noteq> []"
    and "stream_run ls stream_start = (chunks, ss)"
  shows "sse_read (concat chunks) = map frame_of (last ls)"
  by (rule stream_complete [OF assms])

theorem stream_reads_every_event_witness:
  "\<exists>ls chunks ss. logs_at demo_tok no_text stream_acts (manager_init demo_session) = Some ls \<and>
    stream_run ls stream_start = (chunks, ss) \<and> keepalive \<in> set chunks \<and>
    map (fst \<circ> snd) (sse_read (concat chunks)) = [''job.status'', ''job.status'', ''node.completed'', ''node.completed'',
      ''job.output'', ''job.status'', ''job.completed'']"
proof -
  obtain ls chunks ss where s: "logs_at demo_tok no_text stream_acts (manager_init demo_session) = Some ls" "ls \<noteq> []"
      "stream_run ls stream_start = (chunks, ss)" "keepalive \<in> set chunks"
      "map ev_type (last ls) = [''job.status'', ''job.status'', ''node.completed'', ''node.completed'', ''job.output'',
        ''job.status'', ''job.completed'']"
    using demo_stream by (elim exE conjE)
  have "map (fst \<circ> snd) (sse_read (concat chunks)) = map ev_type (last ls)"
    unfolding stream_reads_every_event [OF s(1-3)] by (simp add: frame_of_def)
  then show ?thesis using s(1,3,4) unfolding s(5) by (intro exI conjI)
qed

section \<open>The server\<close>

text \<open>C18: whatever requests arrive and however their handlers and the job threads interleave, the
  manager of every session, deleted or not, is in a state that the operations of \<^verbatim>\<open>jobs.py\<close> reach
  from a new session by themselves, on graphs that satisfy the gate's precondition; so the
  theorems on the runs of a session hold of every session of the server.\<close>

theorem server_refines_sessions:
  assumes "create_app env config reg disk = Inr sv0" and "inj (se_sids env)"
    and "server_steps env as sv0 = Some (rs, sv)" and "dict_get (sv_heap sv) sid = Some m"
  shows "\<exists>bs. list_all submits_ok bs \<and> job_steps (se_toks env sid) (se_xt env) bs (fresh_manager sid) = Some m"
  by (rule server_sessions [OF assms])

theorem server_refines_sessions_witness:
  "\<exists>m bs. list_all submits_ok bs \<and>
    job_steps (se_toks demo_server_env []) (se_xt demo_server_env) bs (fresh_manager []) = Some m"
proof -
  obtain rs sv m where r: "server_steps demo_server_env demo_upload demo_server = Some (rs, sv)"
      "dict_get (sv_heap sv) [] = Some m"
    using demo_upload_run by (elim exE conjE)
  from server_refines_sessions [OF demo_app demo_inj(1) r] show ?thesis by blast
qed

text \<open>C19: an upload that was answered with 201 can be downloaded under the id it was given, with its
  type and its bytes, as long as the session is there, whatever happens in between.\<close>

theorem upload_then_download:
  assumes "create_app env config reg disk = Inr sv0" and "inj (se_sids env)" and "inj (se_toks env sid)"
    and "server_steps env as sv0 = Some (rs, sv)" and "dict_get (sv_waiting sv) rid = Some (AwaitUpload sid ty)"
    and "server_step env (RawBody rid data) sv = Some (Some (201, rep), sv1)"
    and "server_steps env bs sv1 = Some (rs', sv2)" and "sid \<in> set (sv_store sv2)"
  shows "\<exists>pid. rep = JsonReply (JObj [(''id'', JStr pid), (''type'', JStr ty)]) \<and>
    download_payload sid pid sv2 = (200, Content data ty)"
  by (rule upload_downloads [OF assms])

theorem upload_then_download_witness:
  "\<exists>pid sv. download_payload [] pid sv = (200, Content [7] ''t'')"
proof -
  obtain rs sv m where r: "server_steps demo_server_env demo_upload demo_server = Some (rs, sv)"
      "dict_get (sv_waiting sv) 1 = Some (AwaitUpload [] ''t'')" "dict_get (sv_heap sv) [] = Some m" "sv_store sv = [[]]"
    using demo_upload_run by (elim exE conjE)
  obtain rep sv1 where st: "server_step demo_server_env (RawBody 1 [7]) sv = Some (Some (201, rep), sv1)" "sv_store sv1 = [[]]"
    using r(2-4) by (simp add: server_step_def store_upload_def Let_def drop_wait_def set_manager_def)
  have "server_steps demo_server_env [] sv1 = Some ([], sv1)" "[] \<in> set (sv_store sv1)" using st(2) by simp_all
  from upload_then_download [OF demo_app demo_inj r(1,2) st(1) this] show ?thesis by blast
qed

text \<open>C20: a session that was taken out of the store and of the table of managers is gone for good:
  every later call on it is answered with 404 and changes nothing.\<close>

theorem deleted_session_is_gone:
  assumes "create_app env config reg disk = Inr sv0" and "inj (se_sids env)"
    and "server_steps env as sv0 = Some (rs, sv)" and "dict_get (sv_heap sv) sid \<noteq> None"
    and "sid \<notin> set (sv_store sv)" and "sid \<notin> set (sv_managers sv)"
    and "server_steps env bs sv = Some (rs', sv')" and "call_session call = Some sid"
  shows "dispatch_call env rid call sv' = (Some not_found, sv')"
  by (rule deleted_stays_gone [OF assms])

theorem deleted_session_is_gone_witness:
  "\<exists>sv. dispatch_call demo_server_env 7 (SubmitJob []) sv = (Some not_found, sv) \<and> dict_get (sv_heap sv) [] \<noteq> None"
proof -
  have "(case server_steps demo_server_env demo_delete demo_server of None \<Rightarrow> False | Some (rs, sv) \<Rightarrow>
    sv_store sv = [] \<and> sv_managers sv = [] \<and> (case dict_get (sv_heap sv) [] of None \<Rightarrow> False | Some m \<Rightarrow> True))"
    by code_simp
  then obtain rs sv where r: "server_steps demo_server_env demo_delete demo_server = Some (rs, sv)"
      "dict_get (sv_heap sv) [] \<noteq> None" "[] \<notin> set (sv_store sv)" "[] \<notin> set (sv_managers sv)"
    by (auto split: option.splits)
  have "server_steps demo_server_env [] sv = Some ([], sv)" "call_session (SubmitJob []) = Some []"
    by (simp_all add: call_session_def)
  from deleted_session_is_gone [OF demo_app demo_inj(1) r this] r(2) show ?thesis by blast
qed

text \<open>C21: the last piece of a deletion sets the cancel flag of every job of the session that has not
  ended, and the flag stays set whatever happens later.\<close>

theorem deletion_cancels_jobs:
  assumes "create_app env config reg disk = Inr sv0" and "inj (se_sids env)" and "inj (se_toks env sid)"
    and "server_steps env as sv0 = Some (rs, sv)" and "dict_get (sv_waiting sv) rid = Some (StopManager sid)"
    and "dict_get (sv_heap sv) sid = Some m" and "server_steps env (Proceed rid # bs) sv = Some (rs', sv')"
    and "job_get m jid = Some j" and "j_status j \<notin> terminal"
  shows "\<exists>m'. dict_get (sv_heap sv') sid = Some m' \<and> cancelled_in m' jid"
  by (rule deletion_cancels [OF assms])

theorem deletion_cancels_jobs_witness:
  "\<exists>(sv :: server) m. dict_get (sv_heap sv) [] = Some m \<and> cancelled_in m ''x''"
proof -
  obtain rs sv m j where r: "server_steps demo_server_env demo_late demo_module_server = Some (rs, sv)"
      "dict_get (sv_waiting sv) 3 = Some (StopManager [])" "dict_get (sv_heap sv) [] = Some m"
      "job_get m ''x'' = Some j" "j_status j = Pending"
    using demo_late_run by (elim exE conjE)
  have st: "server_steps demo_server_env [Proceed 3] sv = Some ([Some (204, NoBody)], set_manager [] (shutdown m) (drop_wait 3 sv))"
    using r(2,3) by (simp add: server_step_def stop_manager_def)
  have nt: "j_status j \<notin> terminal" using r(5) by (simp add: terminal_def)
  from deletion_cancels_jobs [OF demo_module_app demo_inj r(1-3) st r(4) nt] show ?thesis by blast
qed



text \<open>C23: a request without the token reaches no endpoint but \<open>/health\<close>: it is refused and nothing
  changes.\<close>

theorem requests_need_credentials:
  assumes "build_config generated args env_token = Inr (sv_config sv)" and "generated \<noteq> []"
    and "\<not> bears (c_token (sv_config sv)) (header_or_empty (rq_auth rq))" and "call \<noteq> Health"
    and "server_step env (Arrive rid rq call) sv = Some (r, sv')"
  shows "sv' = sv \<and> (\<exists>code text. r = Some (code, TextReply text) \<and> code \<in> {401, 403, 500})"
  by (rule without_credentials [OF assms])

theorem requests_need_credentials_witness:
  "\<exists>r code text. server_step demo_server_env (Arrive 0 (demo_request\<lparr>rq_auth := None\<rparr>) CreateSession) demo_server = Some (r, demo_server) \<and>
    r = Some (code, TextReply text) \<and> code \<in> {401, 403, 500}"
proof -
  let ?rq = "demo_request\<lparr>rq_auth := None\<rparr>"
  have c: "build_config ''generated'' demo_args None = Inr (sv_config demo_server)"
    using demo_build by (simp add: demo_server_def)
  have b: "\<not> bears (c_token (sv_config demo_server)) (header_or_empty (rq_auth ?rq))"
    by (simp add: bears_def header_or_empty_def)
  obtain r sv' where st: "server_step demo_server_env (Arrive 0 ?rq CreateSession) demo_server = Some (r, sv')"
    by (cases "arrive demo_server_env 0 ?rq CreateSession demo_server") (simp add: server_step_def demo_server_def)
  have "''generated'' \<noteq> []" "CreateSession \<noteq> Health" by simp_all
  from requests_need_credentials [OF c this(1) b this(2) st] st show ?thesis by blast
qed

text \<open>C24: a client that starts the server and looks for its address in the output finds it and gets in:
  when the server runs, the address \<open>start_server\<close> reads off the printed lines is the one the socket
  was bound to, and the guard admits every request made to it with the token of the command line.\<close>

theorem launched_client_admitted:
  assumes "cli_main pr et env reg disk bind generated (bench_args workers) env_token = (out, err, Serving sv port)"
    and "list_all (\<lambda>l. \<not> contains ''listening on'' l) logs"
  shows "\<exists>url. start_server (printed out @ logs) = Some url \<and> url = ''http://127.0.0.1:'' @ show_nat port \<and>
    (\<forall>path. guard (sv_config sv) (bench_request url path) = Admitted)"
  by (rule launch_found [OF assms])

theorem launched_client_admitted_witness:
  "\<exists>out err sv. cli_main (\<lambda>s. s) (\<lambda>e. []) demo_server_env [] [] (\<lambda>f h p. Inr 50001) ''generated'' (bench_args (Some 1)) None =
      (out, err, Serving sv 50001) \<and>
    start_server (printed out @ [''INFO: Application startup complete.'']) = Some (''http://127.0.0.1:'' @ show_nat 50001) \<and>
    guard (sv_config sv) (bench_request (''http://127.0.0.1:'' @ show_nat 50001) ''/v1/sessions'') = Admitted"
proof -
  obtain out err sv where r: "cli_main (\<lambda>s. s) (\<lambda>e. []) demo_server_env [] [] (\<lambda>f h p. Inr 50001) ''generated''
      (bench_args (Some 1)) None = (out, err, Serving sv 50001)"
    by (auto simp: cli_main_def build_config_def bench_args_def default_args_def bench_token_def py_or_def config_validate_def
        create_app_def Let_def)
  have l: "list_all (\<lambda>l. \<not> contains ''listening on'' l) [''INFO: Application startup complete.'']" by code_simp
  from launched_client_admitted [OF r l] r show ?thesis by auto
qed

section \<open>The core modules\<close>

text \<open>C25: the server starts with the eleven core modules registered under their names, and whatever a
  run of one of them returns, on any inputs and params, has exactly the declared outputs with
  the declared types: the executor's contract check never rejects it.\<close>

theorem core_modules_keep_contract:
  "\<exists>reg. default_registry E = Inr reg \<and> dict_keys reg = core_names \<and> registry_ok reg \<and>
     (\<forall>name md ins ps draft rs. dict_get reg name = Some md \<longrightarrow> mod_run md ins ps draft = Inr rs \<longrightarrow>
        ports_distinct (mod_manifest md) \<and> contract_error (mod_manifest md) rs = None)"
proof -
  obtain reg where r: "default_registry E = Inr reg" "dict_keys reg = core_names" "registry_ok reg"
      "\<forall>(name, md) \<in> set reg. conforming_module md"
    using default_registry_modules by blast
  have "conforming_module md" if "dict_get reg name = Some md" for name md
    using r(4) map_of_SomeD [OF that] by blast
  then show ?thesis using r(1-3) conforming_module.facts by blast
qed

theorem core_modules_keep_contract_witness:
  "\<exists>reg md. default_registry demo_core = Inr reg \<and> dict_get reg ''image.downsample'' = Some md \<and>
     mod_run md [(''image'', [7])] [] False = Inr [(''image'', \<lparr>r_type = raster_png, r_data = [7]\<rparr>)] \<and>
     contract_error (mod_manifest md) [(''image'', \<lparr>r_type = raster_png, r_data = [7]\<rparr>)] = None"
proof -
  let ?md = "downsample_module demo_pil demo_flt"
  let ?reg = "map (\<lambda>md. (m_name (mod_manifest md), md)) (core_modules demo_core)"
  have g: "dict_get ?reg ''image.downsample'' = Some ?md"
    by (simp add: core_modules_def Let_def demo_core_def potrace_module_def potrace_manifest_def crop_module_def
      rotate_module_def levels_module_def threshold_module_def invert_module_def downsample_module_def single_image_manifest_def)
  have m: "mod_run ?md [(''image'', [7])] [] False = Inr [(''image'', \<lparr>r_type = raster_png, r_data = [7]\<rparr>)]"
    by (simp add: downsample_module_def downsample_run_def input_of_def Let_def)
  obtain reg where r: "default_registry demo_core = Inr reg" "\<forall>name md ins ps draft rs. dict_get reg name = Some md \<longrightarrow>
      mod_run md ins ps draft = Inr rs \<longrightarrow> ports_distinct (mod_manifest md) \<and> contract_error (mod_manifest md) rs = None"
    using core_modules_keep_contract [of demo_core] by blast
  have "reg = ?reg" using r(1) default_registry_eq [of demo_core] by simp
  with g have g': "dict_get reg ''image.downsample'' = Some ?md" by (simp only:)
  with r(2) m have "contract_error (mod_manifest ?md) [(''image'', \<lparr>r_type = raster_png, r_data = [7]\<rparr>)] = None" by blast
  with r(1) g' m show ?thesis by (intro exI conjI)
qed

text \<open>C26: any binary tree of \<open>svg.merge\<close> runs over the same layers gives the same document: the canvas of
  the first layer with the elements of all layers in their order, so how a client shapes the
  tree does not matter (ADR 0009).\<close>

theorem merges_depend_on_order_only:
  assumes "map (sv_parse X) (leaves t) = map Inr es" and "reads_back X es"
  shows "\<exists>b. run_tree X t = Inr b \<and> sv_parse X b = Inr (merge_all es)"
  by (rule run_tree_merges [OF assms])

theorem merges_depend_on_order_only_witness:
  "\<exists>b. run_tree demo_svg (Merge (Layer [1]) (Layer [2])) = Inr b \<and>
     sv_parse demo_svg b = Inr (merge_all [demo_layer ''a'', demo_layer ''b''])"
  by (rule merges_depend_on_order_only [OF _ demo_reads_back]) (simp add: demo_svg_def)

text \<open>C27: with a validated palette every pixel becomes the index of the palette's nearest entry in
  CIELAB, the lowest one on a tie, and the byte that holds the index never wraps (ADR 0020).\<close>

theorem palette_maps_to_nearest:
  assumes "validate_palette F raw = Inr pal"
  shows "(\<exists>ss. raw = JArr (map JStr ss) \<and> map hex_color ss = map Some pal) \<and> distinct pal \<and>
    first_least (map (lab p) pal) (unat (palette_index lab pal p))"
proof -
  have v: "(\<exists>ss. raw = JArr (map JStr ss) \<and> map hex_color ss = map Some pal)" "distinct pal" "2 \<le> length pal" "length pal \<le> 256"
    using assms unfolding validate_palette_iff by blast+
  then have "pal \<noteq> []" by auto
  with v palette_index_nearest show ?thesis by blast
qed

theorem palette_maps_to_nearest_witness:
  "validate_palette demo_flt (JArr [JStr ''#000000'', JStr ''#Ff00fF'']) = Inr [(0, 0, 0), (255, 0, 255)] \<and>
   first_least (map (ce_lab demo_core (200, 0, 0)) [(0, 0, 0), (255, 0, 255)])
     (unat (palette_index (ce_lab demo_core) [(0, 0, 0), (255, 0, 255)] (200, 0, 0)))"
proof -
  have v: "validate_palette demo_flt (JArr [JStr ''#000000'', JStr ''#Ff00fF'']) = Inr [(0, 0, 0), (255, 0, 255)]"
    by (simp add: validate_palette_def hex_color_def hex_value_def hex_pair_def)
  with palette_maps_to_nearest [OF v] show ?thesis by blast
qed

text \<open>C28: the table of \<open>image.levels\<close>, whatever the rounding of the float operations and of \<open>pow\<close>
  between its end points: with black, white and gamma in range (gamma from \<open>1 / 2 ^ 53\<close> to \<open>2 ^ 53\<close>),
  everything up to the black point maps to 0 and everything above the white point to 255, the white
  point itself too when the span divides 255; a table has 256 entries; and when the white point is
  next to the black point there is a table and it is the one of \<open>image.threshold\<close>.\<close>

theorem levels_table_ends:
  assumes "double_laws F" and "0 \<le> black" and "black < white" and "white \<le> 255" and "1 / 2 ^ 53 \<le> g" and "g \<le> 2 ^ 53"
  shows "(\<forall>v. 0 \<le> v \<longrightarrow> v \<le> black \<longrightarrow> level_entry F black white (Fin g) v = Inr 0) \<and>
    (\<forall>v. white < v \<longrightarrow> v \<le> 255 \<longrightarrow> level_entry F black white (Fin g) v = Inr 255) \<and>
    ((white - black) dvd 255 \<longrightarrow> level_entry F black white (Fin g) white = Inr 255) \<and>
    (\<forall>t. level_entries F black white (Fin g) (map int [0..<256]) = Inr t \<longrightarrow>
       length t = 256 \<and> (\<forall>v < 256. level_entry F black white (Fin g) (int v) = Inr (t ! v))) \<and>
    (white = black + 1 \<longrightarrow> level_entries F black white (Fin g) (map int [0..<256]) = Inr (threshold_table black))"
proof -
  have ok: "levels_ok F black white g" using assms by (simp add: levels_ok_def)
  show ?thesis
    using level_entry_black [OF ok] level_entry_above [OF ok] level_entry_white [OF ok] levels_table [of F black white "Fin g"]
      levels_threshold [of F black g] ok by blast
qed

theorem levels_table_ends_witness:
  "level_entry demo_flt 10 200 (Fin (11 / 5)) 10 = Inr 0 \<and> level_entry demo_flt 10 200 (Fin (11 / 5)) 201 = Inr 255 \<and>
   level_entries demo_flt 100 101 (Fin (11 / 5)) (map int [0..<256]) = Inr (threshold_table 100)"
proof -
  have g: "1 / 2 ^ 53 \<le> (11 / 5 :: rat)" "(11 / 5 :: rat) \<le> 2 ^ 53" by simp_all
  have b: "(0 :: int) \<le> 10" "(10 :: int) < 200" "(200 :: int) \<le> 255" "(0 :: int) \<le> 100" "(100 :: int) < 101" "(101 :: int) \<le> 255"
    by simp_all
  from levels_table_ends [OF demo_double_laws b(1-3) g] levels_table_ends [OF demo_double_laws b(4-6) g]
  show ?thesis by simp
qed

text \<open>C29: the colour separation that the parallel benchmark submits is accepted for every palette and
  every PNG payload of the session: the document parses, the validator finds no error over the
  default registry, the graph has four nodes per colour, and the tree of merges above its output
  stacks one layer per palette entry, in the order of the palette.\<close>

theorem separation_graph_accepted:
  assumes "default_registry E = Inr reg" and "palette \<noteq> []" and "dict_ok palette"
    and "get_payload ses payload_id = Some p" and "pl_type p = raster_png"
  shows "\<exists>v g n t. build_graph payload_id palette salt = Some v \<and> parse_graph v = Inr g \<and> validate_graph g reg ses = [] \<and>
    g_outputs g = [\<lparr>o_node = n, o_port = ''svg'', o_group = None\<rparr>] \<and> length (g_nodes g) = 4 * length palette \<and>
    builds (g_edges g) n t \<and> tree_ids t = map (\<lambda>(i, fill). color_id i) palette"
  by (rule separation_accepted [OF assms])

theorem separation_graph_accepted_witness:
  "\<exists>reg v g. default_registry demo_core = Inr reg \<and>
    build_graph ''p'' [(0, ''#000000''), (3, ''#ff0000''), (1, ''#00ff00'')] 2 = Some v \<and> parse_graph v = Inr g \<and>
    validate_graph g reg \<lparr>ses_id = [], ses_payloads = [(''p'', \<lparr>pl_id = ''p'', pl_type = raster_png, pl_data = []\<rparr>)]\<rparr> = [] \<and>
    length (g_nodes g) = 12"
proof -
  let ?p = "\<lparr>pl_id = ''p'', pl_type = raster_png, pl_data = []\<rparr>"
  let ?ses = "\<lparr>ses_id = [], ses_payloads = [(''p'', ?p)]\<rparr>"
  let ?palette = "[(0, ''#000000''), (3, ''#ff0000''), (1, ''#00ff00'')] :: (int, string) dict"
  obtain reg where r: "default_registry demo_core = Inr reg" using default_registry_modules by blast
  have f: "?palette \<noteq> []" "dict_ok ?palette" "get_payload ?ses ''p'' = Some ?p" "pl_type ?p = raster_png" "length ?palette = 3"
    by (simp_all add: dict_ok_def get_payload_def)
  obtain v g where g: "build_graph ''p'' ?palette 2 = Some v" "parse_graph v = Inr g" "validate_graph g reg ?ses = []"
      "length (g_nodes g) = 4 * length ?palette"
    using separation_graph_accepted [OF r f(1-4), of 2] by (elim exE conjE)
  have "length (g_nodes g) = 12" using g(4) unfolding f(5) by simp
  with r g(1-3) show ?thesis by (intro exI conjI)
qed

text \<open>C30: what the separation computes: whatever the colour of each palette entry traces to (its mask
  in the posterized image, potrace, the fill), the sequential evaluation of the submitted graph
  returns one SVG, and it holds the canvas of the first layer with the elements of all layers in
  the order of the palette. The documents are read back as they were printed.\<close>

theorem separation_stacks_layers:
  assumes "default_registry C = Inr (e_reg env)" and "dict_ok palette" and "palette \<noteq> []"
    and "build_graph payload_id palette salt = Some v" and "parse_graph v = Inr (e_graph env)"
    and "get_payload (e_ses env) payload_id = Some p" and "pl_type p = raster_png"
    and "poster C (e_draft env) (pl_data p) = Inr post"
    and "map (layer_svg C salt (e_draft env) post) palette = map Inr bs"
    and "map (sv_parse (ce_svg C)) bs = map Inr es" and "reads_back (ce_svg C) es"
  shows "\<exists>n b. sequential_outputs env = Inr [\<lparr>eo_node = n, eo_port = ''svg'', eo_type = vector_svg, eo_data = b\<rparr>] \<and>
    sv_parse (ce_svg C) b = Inr (merge_all es)"
  by (rule separation_stacks [OF assms])

theorem separation_stacks_layers_witness:
  "\<exists>n b. sequential_outputs sep_env = Inr [\<lparr>eo_node = n, eo_port = ''svg'', eo_type = vector_svg, eo_data = b\<rparr>] \<and>
     sv_parse sep_svg b = Inr (merge_all [sep_first, sep_second])"
proof -
  obtain v where v: "build_graph ''p'' sep_palette 2 = Some v" "parse_graph v = Inr (e_graph sep_env)"
    using sep_built by auto
  have s: "ce_svg sep_core = sep_svg" by (simp add: sep_core_def)
  let ?p = "\<lparr>pl_id = ''p'', pl_type = raster_png, pl_data = [7]\<rparr>"
  have g: "get_payload (e_ses sep_env) ''p'' = Some ?p" "pl_type ?p = raster_png" by simp_all
  have post: "poster sep_core (e_draft sep_env) (pl_data ?p) = Inr [7]" by (simp add: sep_post)
  have layers: "map (layer_svg sep_core 2 (e_draft sep_env) [7]) sep_palette = map Inr [[2], [3]]"
    unfolding sep_fields by (rule sep_layers)
  from separation_stacks_layers [OF sep_fields(5,6,7) v g post layers sep_docs sep_reads_back] show ?thesis unfolding s .
qed



section \<open>Access, workers and extensions\<close>

text \<open>C32: under a configuration that the command line builds, the guard admits exactly the requests
  for a local host, without an \<open>Origin\<close> or with a local one, that are for \<open>/health\<close> or bear the
  token; of a bracketed host only the part up to the first bracket counts.\<close>

theorem guard_admits_exactly:
  assumes "build_config generated args env_token = Inr c" and "generated \<noteq> []"
  shows "guard c rq = Admitted \<longleftrightarrow> local_host (header_or_empty (rq_host rq)) \<and>
    (\<forall>origin. rq_origin rq = Some origin \<longrightarrow>
       (\<exists>h. (origin = ''http://'' @ h \<or> origin = ''https://'' @ h) \<and> local_host h)) \<and>
    (rq_path rq = ''/health'' \<or> bears (c_token c) (header_or_empty (rq_auth rq)) \<and> ascii (c_token c))"
  by (rule guard_admits [OF assms])

theorem guard_admits_exactly_witness:
  "\<exists>c. build_config ''g'' \<lparr>a_host = ''localhost'', a_port = 0, a_token = None, a_cors = [], a_workers = None,
      a_extensions = None\<rparr> None = Inr c \<and>
    guard c \<lparr>rq_host = Some ''[::1].example.org'', rq_origin = None, rq_path = ''/health'', rq_auth = None\<rparr> = Admitted"
proof -
  let ?args = "\<lparr>a_host = ''localhost'', a_port = 0, a_token = None, a_cors = [], a_workers = None, a_extensions = None\<rparr>"
  let ?rq = "\<lparr>rq_host = Some ''[::1].example.org'', rq_origin = None, rq_path = ''/health'', rq_auth = None\<rparr>"
  obtain c where c: "build_config ''g'' ?args None = Inr c"
    by (simp add: build_config_def py_or_def config_validate_def loopback_hosts_def Let_def)
  have "local_host ''[::1].example.org''"
    by (simp add: local_host_def py_strip_def py_space_def before_def)
  then have "guard c ?rq = Admitted"
    using guard_admits_exactly [OF c, of ?rq] by (simp add: header_or_empty_def)
  with c show ?thesis by blast
qed

text \<open>C33: the server binds an interface beyond loopback only with a token from the command line or the
  environment; an empty \<open>FORMSHIFT_TOKEN\<close> counts as one, although the token is then generated.\<close>

theorem remote_binding_needs_token:
  assumes "build_config generated args env_token = Inr c" and "c_host c \<notin> set loopback_hosts"
  shows "(\<exists>t. a_token args = Some t \<and> t \<noteq> [] \<and> c_token c = t) \<or>
    (\<exists>t. env_token = Some t \<and> c_token c = (if t = [] then generated else t))"
  by (rule config_explicit [OF assms])

theorem remote_binding_needs_token_witness:
  "\<exists>c t. build_config ''g'' \<lparr>a_host = ''0.0.0.0'', a_port = 0, a_token = None, a_cors = [], a_workers = None,
      a_extensions = None\<rparr> (Some []) = Inr c \<and> c_token c = (if t = [] then ''g'' else t)"
proof -
  let ?args = "\<lparr>a_host = ''0.0.0.0'', a_port = 0, a_token = None, a_cors = [], a_workers = None, a_extensions = None\<rparr>"
  obtain c where c: "build_config ''g'' ?args (Some []) = Inr c" "c_host c = ''0.0.0.0''"
    by (simp add: build_config_def py_or_def config_validate_def Let_def)
  then have "c_host c \<notin> set loopback_hosts" by (simp add: loopback_hosts_def)
  from remote_binding_needs_token [OF c(1) this] c(1) show ?thesis by (auto 0 3)
qed

text \<open>C34: a run of an isolated module, through base64, the JSON line to the worker, the runner, its
  answer and back, gives what the extension's entry gives on the same inputs, its exceptions
  turned into a \<open>ModuleError\<close>.\<close>

theorem isolated_run_is_entry:
  assumes "dict_ok inputs" and "wf_json fc (JObj ps)"
    and "\<And>md attr f os. entries src md attr = Inr f \<Longrightarrow> f inputs ps draft = Inr os \<Longrightarrow> distinct (map fst os)"
  shows "isolated_run pt name e src
      (\<lambda>req. fst (worker_request fc ext context (runner_os fc xt entries dead req) w)) inputs ps draft =
    (case entry_run entries src e inputs ps draft of
       Inl msg \<Rightarrow> Inl (ModuleError (''module '' @ name @ '' failed: '' @ msg)) | Inr rs \<Rightarrow> Inr rs)"
  by (rule isolated_run_entry [OF assms])

theorem isolated_run_is_entry_witness:
  "isolated_run (\<lambda>v. []) ''m'' ''mod:run'' ''src''
      (\<lambda>req. fst (worker_request (\<lambda>t. t) ''x'' ''ctx'' (runner_os (\<lambda>t. t) (\<lambda>v. [])
        (\<lambda>src md attr. if attr = ''run'' then Inr (\<lambda>ins ps d. Inr [(''out'', ''t'', OutBytes [1, 2])]) else Inl ''AttributeError'')
        False req) worker_start)) [(''in'', [7])] [(''k'', JNull)] False =
    Inr [(''out'', \<lparr>r_type = ''t'', r_data = [1, 2]\<rparr>)]"
proof -
  let ?entries = "\<lambda>(src :: string) (md :: string) attr. if attr = ''run''
    then Inr (\<lambda>(ins :: (string, bytes) dict) (ps :: params) (d :: bool). Inr [(''out'', ''t'', OutBytes [1, 2])] :: string + (string \<times> string \<times> out_value) list)
    else Inl ''AttributeError''"
  have w: "dict_ok [(''in'', [7])]" "wf_json (\<lambda>t. t) (JObj [(''k'', JNull)])" by (simp_all add: dict_ok_def)
  have d: "distinct (map fst os)"
    if "?entries src md attr = Inr f" "f [(''in'', [7])] [(''k'', JNull)] False = Inr os" for src md attr f os
    using that by (auto split: if_splits)
  have e: "entry_run ?entries ''src'' ''mod:run'' [(''in'', [7])] [(''k'', JNull)] False = Inr [(''out'', \<lparr>r_type = ''t'', r_data = [1, 2]\<rparr>)]"
    by (simp add: entry_run_def split_entry_def entry_results_def)
  show ?thesis
    using isolated_run_is_entry [OF w, of ?entries "''src''" False "\<lambda>v. []" "''m''" "''mod:run''" "''x''" "''ctx''" "\<lambda>v. []" False worker_start] d
    by (simp only: e sum.case)
qed

text \<open>C35: an extension has at most one process at a time, a request that fails leaves none behind and
  one that is answered leaves its process for the next.\<close>

theorem worker_has_one_process:
  assumes "worker_ok w" and "worker_request fc name context os w = (r, w')"
  shows "worker_ok w' \<and> (\<forall>e. r = Inl e \<longrightarrow> wk_live w' = []) \<and> (\<forall>v. r = Inr v \<longrightarrow> wk_proc w' \<noteq> None)"
  by (rule worker_ok_request [OF assms])

theorem worker_has_one_process_witness:
  "wk_live (snd (worker_request (\<lambda>t. t) ''x'' ''ctx'' \<lparr>ov_dead = False, ov_spawn = None, ov_pipe = PipeEof ''1'' True\<rparr> worker_start)) = []"
proof -
  let ?os = "\<lparr>ov_dead = False, ov_spawn = None, ov_pipe = PipeEof ''1'' True\<rparr>"
  obtain r w where r: "worker_request (\<lambda>t. t) ''x'' ''ctx'' ?os worker_start = (r, w)" by fastforce
  moreover have "\<exists>e. r = Inl e"
    using r by (auto simp: worker_request_def ensure_started_def worker_start_def)
  ultimately show ?thesis using worker_has_one_process [OF worker_ok_start r] by auto
qed

text \<open>C36: an installation is a transaction: either all the modules of a well-formed manifest are
  registered, the extension recorded and its directory complete, or the registry and the table
  of installed extensions are as before and the directory is gone, unless the system could not
  remove it; then it holds a state file only if the write of that very file is what failed, after
  the file was created, and the removal left it.\<close>

theorem install_is_transaction:
  assumes "install render (isolated_module pt send base) os st = (r, st')"
  shows "(\<exists>m ie. r = Inr ie \<and> parse_extension_manifest render (os_file os) = Inr m \<and> ext_wf m \<and>
       ie = \<lparr>ie_manifest = m, ie_root = xe_name m\<rparr> \<and>
       (\<forall>s \<in> set (xe_modules m). registry_get (es_registry st) (spec_name s) = None) \<and>
       st' = \<lparr>es_registry = es_registry st @ ext_entries (isolated_module pt send base) ie,
         es_installed = es_installed st @ [(xe_name m, ie)],
         es_disk = es_disk st @ [(xe_name m, complete_dir (os_file os))]\<rparr>) \<or>
     (\<exists>e. r = Inl e \<and> (st' = st \<or> os_left os \<noteq> Removed \<and>
       (\<exists>n d. (xd_state d \<longrightarrow> leaves_mark os) \<and> dict_get (es_disk st) n = None \<and>
          st' = st\<lparr>es_disk := es_disk st @ [(n, d)]\<rparr>)))"
  using isolated.install_result [OF assms] parse_extension_wf by blast

theorem install_is_transaction_witness:
  "\<exists>e. install (\<lambda>v. []) (isolated_module (\<lambda>v. []) (\<lambda>root req. Inl (PyError [])) ''ext'')
      \<lparr>os_is_dir = True, os_file = Toml (ext_toml demo_ext), os_mkdir = None, os_copy = None, os_venv = None,
        os_pip = PipTimeout, os_state = None, os_left = Removed\<rparr> \<lparr>es_registry = [], es_installed = [], es_disk = []\<rparr> =
    (Inl e, \<lparr>es_registry = [], es_installed = [], es_disk = []\<rparr>)"
proof -
  let ?os = "\<lparr>os_is_dir = True, os_file = Toml (ext_toml demo_ext), os_mkdir = None, os_copy = None, os_venv = None,
        os_pip = PipTimeout, os_state = None, os_left = Removed\<rparr>"
  let ?st = "\<lparr>es_registry = [], es_installed = [], es_disk = []\<rparr> :: ext_state"
  let ?mk = "isolated_module (\<lambda>v. []) (\<lambda>root req. Inl (PyError [])) ''ext''"
  have "fst (install (\<lambda>v. []) ?mk ?os ?st) = Inl PipTimedOut"
    unfolding install_def using demo_ext_parse
    by (simp add: demo_ext_def install_steps_def create_venv_def caught_def registry_get_def)
  then obtain st' where i: "install (\<lambda>v. []) ?mk ?os ?st = (Inl PipTimedOut, st')" by (metis prod.collapse)
  from install_is_transaction [OF i] show ?thesis using i by auto
qed

text \<open>C37: whatever was installed, whatever failed and however often the server was restarted, a new
  start finds every completely installed extension, and every module name resolves to the same
  module as before the restart, provided that no installation whose write of the state file failed
  left that file behind its cleanup.\<close>

theorem restart_restores_extensions:
  assumes "dict_ok reg0" and "list_all clean_event evs"
  shows "let mk = isolated_module pt send base; st = ext_run render mk reg0 evs in
    \<exists>loaded st'. load_installed render mk \<lparr>es_registry = reg0, es_installed = [], es_disk = es_disk st\<rparr> = (Inr loaded, st') \<and>
      mset loaded = mset (dict_values (es_installed st)) \<and> es_disk st' = es_disk st \<and>
      dict_get (es_installed st') = dict_get (es_installed st) \<and>
      registry_get (es_registry st') = registry_get (es_registry st)"
  unfolding Let_def using isolated.load_installed_restores [OF isolated.ext_inv_run [OF assms] refl] by blast

theorem restart_restores_extensions_witness:
  "let mk = isolated_module (\<lambda>v. []) (\<lambda>root req. Inl (PyError [])) ''ext'';
       st = ext_run (\<lambda>v. []) mk [] [Install (demo_ext_os\<lparr>os_pip := PipTimeout\<rparr>),
         Install demo_ext_os, Restart] in
    \<exists>loaded st'. load_installed (\<lambda>v. []) mk \<lparr>es_registry = [], es_installed = [], es_disk = es_disk st\<rparr> = (Inr loaded, st') \<and>
      registry_get (es_registry st') = registry_get (es_registry st)"
proof -
  have "dict_ok ([] :: registry)" by simp
  moreover have "list_all clean_event [Install (demo_ext_os\<lparr>os_pip := PipTimeout\<rparr>), Install demo_ext_os, Restart]"
    by (simp add: leaves_mark_def demo_ext_os_def)
  ultimately show ?thesis
    using restart_restores_extensions [of "[]" _ "\<lambda>v. []" "\<lambda>root req. Inl (PyError [])" "''ext''" "\<lambda>v. []"]
    unfolding Let_def by blast
qed

text \<open>C38: the manifest parser accepts a manifest written as TOML and gives it back, and whatever it
  accepts is well formed: a legal name, a version, \<open>isolated\<close>, distinct non-empty module names, legal
  entries and at least one port on each side.\<close>

theorem manifest_roundtrip:
  "(parse_extension_manifest render f = Inr m \<longrightarrow> ext_wf m) \<and>
   (ext_wf m \<and> list_all (\<lambda>s. ports_named (m_inputs (xm_manifest s)) \<and> ports_named (m_outputs (xm_manifest s))) (xe_modules m) \<longrightarrow>
     parse_extension_manifest render (Toml (ext_toml m)) = Inr m)"
  using parse_extension_wf parse_ext_toml by blast

theorem manifest_roundtrip_witness:
  "ext_wf demo_ext \<and> parse_extension_manifest (\<lambda>v. []) (Toml (ext_toml demo_ext)) = Inr demo_ext"
  using manifest_roundtrip [of "\<lambda>v. []" "Toml (ext_toml demo_ext)" demo_ext] demo_ext_parse by blast

text \<open>C39: nothing an extension prints gets among the replies of its runner. Whatever the code of the
  extension writes through \<open>sys.stdout\<close> or to the descriptors 1 and 2 while requests are served, the
  lines that the server reads from the pipe are exactly the replies, one per request line, and all
  the rest is on the standard error of the process.\<close>

theorem replies_stay_clean:
  assumes "3 < limit" and "dict_entries entries" and "\<And>l. list_all plain_write (emits l)"
  shows "\<exists>io. serve_process (runner_reply fc xt entries) emits ls (runner_io limit) = Some io \<and>
    readlines (length (serve fc xt entries ls)) (io_sent io) = serve fc xt entries ls \<and>
    io_sent io = concat (serve fc xt entries ls) \<and>
    io_log io = concat (map (\<lambda>l. writes_text (emits l)) (filter (\<lambda>l. runner_reply fc xt entries l \<noteq> None) ls))"
  by (rule replies_reach_server [OF assms])

theorem replies_stay_clean_witness:
  "\<exists>io. serve_process (runner_reply (\<lambda>t. t) (\<lambda>v. []) (\<lambda>src md attr. Inl ''ImportError: '')) (\<lambda>l. [Print ''{}'', Native 1 ''!''])
      [''{}''] (runner_io 16) = Some io \<and>
    readlines 1 (io_sent io) = serve (\<lambda>t. t) (\<lambda>v. []) (\<lambda>src md attr. Inl ''ImportError: '') [''{}''] \<and> io_log io = ''{}!''"
proof -
  let ?e = "\<lambda>src md attr. Inl ''ImportError: '' :: string + entry"
  have "(3 :: nat) < 16" "dict_entries ?e" "\<And>l :: string. list_all plain_write [Print ''{}'', Native 1 ''!'']"
    by (simp_all add: dict_entries_def plain_write_def)
  from replies_stay_clean [OF this, of "\<lambda>t. t" "\<lambda>v. []" "[''{}'']"]
  obtain io where io: "serve_process (runner_reply (\<lambda>t. t) (\<lambda>v. []) ?e) (\<lambda>l. [Print ''{}'', Native 1 ''!'']) [''{}''] (runner_io 16) = Some io"
      "readlines (length (serve (\<lambda>t. t) (\<lambda>v. []) ?e [''{}''])) (io_sent io) = serve (\<lambda>t. t) (\<lambda>v. []) ?e [''{}'']"
      "io_log io = concat (map (\<lambda>l. writes_text [Print ''{}'', Native 1 ''!'']) (filter (\<lambda>l. runner_reply (\<lambda>t. t) (\<lambda>v. []) ?e l \<noteq> None) [''{}'']))"
    by blast
  have "runner_reply (\<lambda>t. t) (\<lambda>v. []) ?e ''{}'' \<noteq> None" by (simp add: runner_reply_def py_space_def)
  then have "length (serve (\<lambda>t. t) (\<lambda>v. []) ?e [''{}'']) = 1" "io_log io = ''{}!''"
    using io(3) by (auto simp: writes_text_def)
  with io show ?thesis by metis
qed

text \<open>C40: the background-removal extension answers every request as if it were the first one, although
  the worker keeps its model sessions; each model is loaded successfully at most once; and its
  manifest is accepted and declares just the output that a run returns.\<close>

theorem removebg_loads_once:
  shows "fst (removebg_serve L reqs rembg_start) = map (\<lambda>(ins, ps, draft). fst (removebg_run L ins ps draft rembg_start)) reqs \<and>
    distinct (map fst (filter snd (rb_loads (snd (removebg_serve L reqs rembg_start))))) \<and>
    (\<exists>m s. parse_extension_manifest render (Toml removebg_toml) = Inr m \<and> xe_modules m = [s] \<and>
       m_name (xm_manifest s) = ''image.removebg'' \<and> xm_entry s = ''removebg:run'' \<and>
       (\<forall>os rs. Inr os \<in> set (fst (removebg_serve L reqs rembg_start)) \<and> entry_results os = Inr rs \<longrightarrow> conforms (xm_manifest s) rs))"
proof -
  note serves = removebg_serves [OF rembg_inv_start, of L reqs]
  obtain m s where m: "parse_extension_manifest render (Toml removebg_toml) = Inr m" "xe_modules m = [s]"
      "m_name (xm_manifest s) = ''image.removebg''" "xm_entry s = ''removebg:run''"
      "m_outputs (xm_manifest s) = [\<lparr>port_name = ''image'', port_type = ''raster/png''\<rparr>]"
    using removebg_manifest by blast
  have "conforms (xm_manifest s) rs"
    if os: "Inr os \<in> set (fst (removebg_serve L reqs rembg_start))" "entry_results os = Inr rs" for os rs
  proof -
    obtain q where q: "Inr os = (case q of (ins, ps, draft) \<Rightarrow> fst (removebg_run L ins ps draft rembg_start))"
      using os(1) unfolding serves(1) set_map by blast
    obtain ins ps draft where "q = (ins, ps, draft)" by (cases q)
    with q have "Inr os = fst (removebg_run L ins ps draft rembg_start)" by simp
    from removebg_conforms [OF this [symmetric] os(2) m(5)] show ?thesis .
  qed
  then show ?thesis using serves m(1-4) unfolding rembg_inv_def by blast
qed

theorem removebg_loads_once_witness:
  "fst (removebg_serve \<lparr>rl_new = \<lambda>m. Inr m, rl_remove = \<lambda>b s. Inr (OutBytes b), rl_str = \<lambda>v. []\<rparr>
      [([(''image'', [7])], [], False), ([(''image'', [8])], [], True)] rembg_start) =
    [Inr [(''image'', ''raster/png'', OutBytes [7])], Inr [(''image'', ''raster/png'', OutBytes [8])]]"
  using removebg_loads_once [of "\<lparr>rl_new = \<lambda>m. Inr m, rl_remove = \<lambda>b s. Inr (OutBytes b), rl_str = \<lambda>v. []\<rparr>"
      "[([(''image'', [7])], [], False), ([(''image'', [8])], [], True)]" "\<lambda>v. []"]
  by (simp add: removebg_run_def load_session_def rembg_start_def removebg_model_def)

end
